(* ===== verification/Prelude.thy ===== *)
theory Prelude
  imports Main "HOL-Library.Word"
begin

text \<open>
  Shared vocabulary of the libquicr development: the machine types the sources use, the ways
  a C++ operation of this code base can fail, the error-passing and decoder combinators in
  which the components are written, and the word and list lemmas their proofs share.

  Conventions. The target is the LP64 little-endian platform the library is built for:
  \<^verbatim>\<open>int\<close> has 32 bits, \<^verbatim>\<open>size_t\<close> and \<^verbatim>\<open>uint64_t\<close> have 64. An exception is a value of
  \<open>cpp_error\<close>, carried in the left summand of a result; \<open>undefined_behaviour\<close> marks the
  operations the C++ standard leaves undefined (a shift by at least the width, \<^verbatim>\<open>front()\<close> of
  an empty vector, an iterator erased from a container it does not belong to, a read past
  the end of an array). Nothing is claimed about a run after it, and no handler recovers
  from it.
\<close>

unbundle bit_operations_syntax

section \<open>Machine types\<close>

type_synonym u8 = "8 word"
type_synonym u16 = "16 word"
type_synonym u32 = "32 word"
type_synonym u64 = "64 word"
type_synonym bytes = "u8 list"

section \<open>Collections of rewrite rules\<close>

named_theorems codec_simps \<open>a decoder applied to what its encoder wrote\<close>
named_theorems byte_masks \<open>the literal masks of the sources as shifted runs of ones\<close>

section \<open>Failures\<close>

datatype cpp_error =
    ReadException
  | OutOfRangeException
  | MessageTypeException
  | LengthException
  | NameException
  | out_of_range
  | runtime_error
  | overflow_error
  | undefined_behaviour

text \<open>
  The three handlers of \<^verbatim>\<open>on_recv_notify\<close> are tried in this order: \<open>ReadException\<close> with the
  classes derived from it, then every other class derived from \<^verbatim>\<open>std::exception\<close>.
\<close>

definition is_ReadException :: "cpp_error \<Rightarrow> bool" where
  "is_ReadException e \<longleftrightarrow>
     e \<in> {ReadException, OutOfRangeException, MessageTypeException, LengthException}"

definition is_std_exception :: "cpp_error \<Rightarrow> bool" where
  "is_std_exception e \<longleftrightarrow> e \<noteq> undefined_behaviour"

type_synonym 'a res = "cpp_error + 'a"

fun rbind :: "'e + 'a \<Rightarrow> ('a \<Rightarrow> 'e + 'b) \<Rightarrow> 'e + 'b" where
  "rbind (Inl e) f = Inl e"
| "rbind (Inr x) f = f x"

definition guard_res :: "bool \<Rightarrow> cpp_error \<Rightarrow> unit res" where
  "guard_res b e = (if b then Inr () else Inl e)"

lemma rbind_Inr_iff: "rbind m f = Inr y \<longleftrightarrow> (\<exists>x. m = Inr x \<and> f x = Inr y)"
  by (cases m) auto

lemma rbind_Inl_iff: "rbind m f = Inl e \<longleftrightarrow> m = Inl e \<or> (\<exists>x. m = Inr x \<and> f x = Inl e)"
  by (cases m) auto

lemma rbind_assoc: "rbind (rbind m f) g = rbind m (\<lambda>x. rbind (f x) g)"
  by (cases m) auto

lemma rbind_Inr_id [simp]: "rbind m Inr = m"
  by (cases m) auto

lemma guard_res_simps [simp]:
  "guard_res True e = Inr ()" "guard_res False e = Inl e"
  by (simp_all add: guard_res_def)

lemma is_ReadException_simps [simp]:
  "is_ReadException ReadException" "is_ReadException OutOfRangeException"
  "is_ReadException MessageTypeException" "is_ReadException LengthException"
  "\<not> is_ReadException NameException" "\<not> is_ReadException runtime_error"
  "\<not> is_ReadException undefined_behaviour"
  by (simp_all add: is_ReadException_def)

section \<open>Decoders\<close>

text \<open>
  A decoder reads from the front of a buffer and returns the value with what is left. When it
  fails the buffer it was given is dropped, as every caller in the sources does.
\<close>

type_synonym 'a decoder = "bytes \<Rightarrow> ('a \<times> bytes) res"

definition dret :: "'a \<Rightarrow> 'a decoder" where
  "dret x buf = Inr (x, buf)"

definition draise :: "cpp_error \<Rightarrow> 'a decoder" where
  "draise e buf = Inl e"

definition dbind :: "'a decoder \<Rightarrow> ('a \<Rightarrow> 'b decoder) \<Rightarrow> 'b decoder" where
  "dbind d f buf = rbind (d buf) (\<lambda>(x, rest). f x rest)"

definition dlift :: "'a res \<Rightarrow> 'a decoder" where
  "dlift r buf = rbind r (\<lambda>x. Inr (x, buf))"

lemma dret_apply [simp]: "dret x buf = Inr (x, buf)"
  by (simp add: dret_def)

lemma draise_apply [simp]: "draise e buf = Inl e"
  by (simp add: draise_def)

lemma dlift_Inr [simp]: "dlift (Inr x) = dret x"
  by (simp add: dlift_def dret_def fun_eq_iff)

lemma dlift_Inl [simp]: "dlift (Inl e) = draise e"
  by (simp add: dlift_def draise_def fun_eq_iff)

lemma dbind_Inr: "d buf = Inr (x, rest) \<Longrightarrow> dbind d f buf = f x rest"
  by (simp add: dbind_def)

lemma dbind_Inl: "d buf = Inl e \<Longrightarrow> dbind d f buf = Inl e"
  by (simp add: dbind_def)

lemma dbind_dret [simp]: "dbind (dret x) f = f x"
  by (simp add: dbind_def fun_eq_iff)

lemma dbind_draise [simp]: "dbind (draise e) f = draise e"
  by (simp add: dbind_def fun_eq_iff)

text \<open>The contract of an encoder and its decoder: reading back what was written returns the
  value and leaves the bytes that followed it. \<open>ok\<close> is the set of values it covers.\<close>

locale codec =
  fixes enc :: "'a \<Rightarrow> bytes"
    and dec :: "'a decoder"
    and ok :: "'a \<Rightarrow> bool"
  assumes roundtrip: "ok x \<Longrightarrow> dec (enc x @ rest) = Inr (x, rest)"
begin

lemma enc_inj:
  assumes "ok x" and "ok y" and "enc x @ r = enc y @ s"
  shows "x = y \<and> r = s"
proof -
  have "Inr (x, r) = dec (enc x @ r)" by (rule roundtrip [OF assms(1), symmetric])
  also have "\<dots> = dec (enc y @ s)" by (simp only: assms(3))
  also have "\<dots> = Inr (y, s)" by (rule roundtrip [OF assms(2)])
  finally show ?thesis by simp
qed

lemma enc_prefix_free:
  assumes "ok x" and "ok y" and "enc x = enc y @ s"
  shows "x = y \<and> s = []"
  using enc_inj [OF assms(1,2), of "[]" s] assms(3) by simp

lemma dbind_enc:
  assumes "ok x"
  shows "dbind dec f (enc x @ rest) = f x rest"
  by (rule dbind_Inr) (rule roundtrip [OF assms])

end

section \<open>Shifts of 64-bit integers\<close>

text \<open>\<open>x << n\<close> and \<open>x >> n\<close> on \<^verbatim>\<open>uint64_t\<close>, undefined for \<open>n \<ge> 64\<close>.\<close>

definition shl64 :: "u64 \<Rightarrow> nat \<Rightarrow> u64 res" where
  "shl64 x n = (if n < 64 then Inr (push_bit n x) else Inl undefined_behaviour)"

definition shr64 :: "u64 \<Rightarrow> nat \<Rightarrow> u64 res" where
  "shr64 x n = (if n < 64 then Inr (drop_bit n x) else Inl undefined_behaviour)"

lemma shl64_ok [simp]: "n < 64 \<Longrightarrow> shl64 x n = Inr (push_bit n x)"
  by (simp add: shl64_def)

lemma shr64_ok [simp]: "n < 64 \<Longrightarrow> shr64 x n = Inr (drop_bit n x)"
  by (simp add: shr64_def)

lemma shl64_ub [simp]: "64 \<le> n \<Longrightarrow> shl64 x n = Inl undefined_behaviour"
  by (simp add: shl64_def)

lemma shr64_ub [simp]: "64 \<le> n \<Longrightarrow> shr64 x n = Inl undefined_behaviour"
  by (simp add: shr64_def)

section \<open>Bytes of a word in memory\<close>

text \<open>\<open>le_bytes n v\<close> is the object representation of \<open>v\<close> in its \<open>n\<close> bytes of memory, and
  \<open>of_le_bytes\<close> reads one back (what \<^verbatim>\<open>memcpy\<close> and \<^verbatim>\<open>reinterpret_cast<uint8_t*>\<close> see on a
  little-endian machine).\<close>

definition byte_at :: "'a::len word \<Rightarrow> nat \<Rightarrow> u8" where
  "byte_at v i = ucast (drop_bit (8 * i) v)"

definition le_bytes :: "nat \<Rightarrow> 'a::len word \<Rightarrow> bytes" where
  "le_bytes n v = map (byte_at v) [0..<n]"

fun of_le_bytes :: "bytes \<Rightarrow> 'a::len word" where
  "of_le_bytes [] = 0"
| "of_le_bytes (b # bs) = ucast b OR push_bit 8 (of_le_bytes bs)"

lemma bit_byte_at: "bit (byte_at v i) j \<longleftrightarrow> j < 8 \<and> bit v (8 * i + j)"
  by (auto simp: byte_at_def bit_simps)

lemma length_le_bytes [simp]: "length (le_bytes n v) = n"
  by (simp add: le_bytes_def)

lemma nth_le_bytes [simp]: "i < n \<Longrightarrow> le_bytes n v ! i = byte_at v i"
  by (simp add: le_bytes_def)

lemma bit_of_le_bytes:
  "bit (of_le_bytes bs :: 'a::len word) j \<longleftrightarrow>
     j < LENGTH('a) \<and> j div 8 < length bs \<and> bit (bs ! (j div 8)) (j mod 8)"
proof (induction bs arbitrary: j)
  case Nil
  show ?case by simp
next
  case (Cons b bs)
  show ?case
  proof (cases "j < 8")
    case True
    then show ?thesis by (auto simp: bit_simps)
  next
    case False
    then have d: "j div 8 = Suc ((j - 8) div 8)" and m: "j mod 8 = (j - 8) mod 8"
      by (simp_all add: le_div_geq le_mod_geq)
    from False have "\<not> bit b j"
      using bit_imp_le_length [of b j] by auto
    with False show ?thesis by (auto simp: bit_simps Cons.IH d m)
  qed
qed

lemma of_le_bytes_le_bytes:
  assumes "LENGTH('a) \<le> 8 * n"
  shows "of_le_bytes (le_bytes n v) = (v :: 'a::len word)"
proof (rule bit_word_eqI)
  fix j assume j: "j < LENGTH('a)"
  with assms have "j div 8 < n" by (simp add: less_mult_imp_div_less mult.commute)
  with j show "bit (of_le_bytes (le_bytes n v) :: 'a word) j \<longleftrightarrow> bit v j"
    by (simp add: bit_of_le_bytes bit_byte_at)
qed

lemma le_bytes_of_le_bytes:
  assumes "length bs = n" and "8 * n \<le> LENGTH('a)"
  shows "le_bytes n (of_le_bytes bs :: 'a::len word) = bs"
proof (rule nth_equalityI)
  show "length (le_bytes n (of_le_bytes bs :: 'a word)) = length bs"
    using assms by simp
next
  fix i assume "i < length (le_bytes n (of_le_bytes bs :: 'a word))"
  then have i: "i < n" by simp
  have "byte_at (of_le_bytes bs :: 'a word) i = bs ! i"
  proof (rule bit_word_eqI)
    fix j assume "j < LENGTH(8)"
    then have "j < 8" by simp
    then show "bit (byte_at (of_le_bytes bs :: 'a word) i) j \<longleftrightarrow> bit (bs ! i) j"
      using assms i by (auto simp: bit_byte_at bit_of_le_bytes)
  qed
  with i show "le_bytes n (of_le_bytes bs :: 'a word) ! i = bs ! i"
    by simp
qed

lemma unat_of_nat_word: "n < 2 ^ LENGTH('a) \<Longrightarrow> unat (of_nat n :: 'a::len word) = n"
  by (simp add: unsigned_of_nat take_bit_nat_eq_self)

lemma word_less_exp_iff:
  assumes "k < LENGTH('a)"
  shows "(v :: 'a::len word) < 2 ^ k \<longleftrightarrow> take_bit k v = v"
proof -
  have "uint (2 ^ k :: 'a word) = 2 ^ k"
    using assms by (intro uint_2p) (simp add: word_gt_0)
  then have "v < 2 ^ k \<longleftrightarrow> uint v < 2 ^ k" by (simp add: word_less_def)
  also have "\<dots> \<longleftrightarrow> take_bit k (uint v) = uint v" by (simp add: take_bit_int_eq_self_iff)
  also have "\<dots> \<longleftrightarrow> take_bit k v = v"
    by (simp add: word_uint_eq_iff unsigned_take_bit_eq)
  finally show ?thesis .
qed

lemma bit_less_exp:
  assumes "(v :: 'a::len word) < 2 ^ k" and "bit v i"
  shows "i < k"
proof (cases "k < LENGTH('a)")
  case True
  with assms(1) have "take_bit k v = v" by (simp add: word_less_exp_iff)
  with assms(2) have "bit (take_bit k v) i" by simp
  then show ?thesis by (simp add: bit_take_bit_iff)
next
  case False
  with bit_imp_le_length [OF assms(2)] show ?thesis by simp
qed

section \<open>Narrowing to int\<close>

text \<open>A conversion to a 32-bit \<^verbatim>\<open>int\<close> keeps the value modulo \<open>2 ^ 32\<close>, read in two's
  complement.\<close>

definition to_int32 :: "int \<Rightarrow> int" where
  "to_int32 k = signed_take_bit 31 k"

lemma to_int32_id: "- (2 ^ 31) \<le> k \<Longrightarrow> k < 2 ^ 31 \<Longrightarrow> to_int32 k = k"
  unfolding to_int32_def by (rule signed_take_bit_int_eq_self)

lemma to_int32_word: "unat w < 2 ^ 31 \<Longrightarrow> to_int32 (uint w) = int (unat (w :: 'a::len word))"
proof -
  assume "unat w < 2 ^ 31"
  then have "uint w < 2 ^ 31"
    using of_nat_less_iff [where ?'a = int, of "unat w" "2 ^ 31"] by simp
  then show ?thesis using to_int32_id [of "uint w"] by (simp add: order_trans [OF _ unsigned_greater_eq])
qed

end
