(* ===== verification/Std_Map.thy ===== *)
theory Std_Map
  imports Prelude
begin

text \<open>
  The ordered containers of the C++ library the sources use, \<^verbatim>\<open>std::map\<close> and \<^verbatim>\<open>std::set\<close>.
  A map is the list of its entries in iteration order; every operation takes the key
  comparison \<open>lt\<close> the container was declared with and finds a key by it alone: two keys are
  the same key when neither is less than the other. The contract of a comparison is the
  locale \<open>strict_weak_order\<close>; the components interpret it at the comparisons their maps use
  (where it fails to separate two different keys, so does the map).
\<close>

section \<open>Operations\<close>

fun map_find :: "('k \<Rightarrow> 'k \<Rightarrow> bool) \<Rightarrow> 'k \<Rightarrow> ('k \<times> 'v) list \<Rightarrow> 'v option" where
  "map_find lt k [] = None"
| "map_find lt k ((a, v) # m) =
     (if lt a k then map_find lt k m else if lt k a then None else Some v)"

text \<open>\<^verbatim>\<open>m.count(k) != 0\<close>\<close>

definition map_has :: "('k \<Rightarrow> 'k \<Rightarrow> bool) \<Rightarrow> 'k \<Rightarrow> ('k \<times> 'v) list \<Rightarrow> bool" where
  "map_has lt k m \<longleftrightarrow> map_find lt k m \<noteq> None"

text \<open>\<^verbatim>\<open>m[k] = v\<close>: an equivalent key already there is kept.\<close>

fun map_set :: "('k \<Rightarrow> 'k \<Rightarrow> bool) \<Rightarrow> 'k \<Rightarrow> 'v \<Rightarrow> ('k \<times> 'v) list \<Rightarrow> ('k \<times> 'v) list" where
  "map_set lt k v [] = [(k, v)]"
| "map_set lt k v ((a, w) # m) =
     (if lt a k then (a, w) # map_set lt k v m
      else if lt k a then (k, v) # (a, w) # m
      else (a, v) # m)"

text \<open>\<^verbatim>\<open>m.emplace(k, v)\<close> and \<^verbatim>\<open>m.insert({k, v})\<close>: no effect when the key is there.\<close>

definition map_emplace ::
  "('k \<Rightarrow> 'k \<Rightarrow> bool) \<Rightarrow> 'k \<Rightarrow> 'v \<Rightarrow> ('k \<times> 'v) list \<Rightarrow> ('k \<times> 'v) list" where
  "map_emplace lt k v m = (if map_has lt k m then m else map_set lt k v m)"

fun map_erase :: "('k \<Rightarrow> 'k \<Rightarrow> bool) \<Rightarrow> 'k \<Rightarrow> ('k \<times> 'v) list \<Rightarrow> ('k \<times> 'v) list" where
  "map_erase lt k [] = []"
| "map_erase lt k ((a, w) # m) =
     (if lt a k then (a, w) # map_erase lt k m else if lt k a then (a, w) # m else m)"

text \<open>\<^verbatim>\<open>m[k]\<close> read: a missing key is inserted with the default value first.\<close>

definition map_touch ::
  "('k \<Rightarrow> 'k \<Rightarrow> bool) \<Rightarrow> 'v \<Rightarrow> 'k \<Rightarrow> ('k \<times> 'v) list \<Rightarrow> ('k \<times> 'v) list" where
  "map_touch lt d k m = map_emplace lt k d m"

definition map_get ::
  "('k \<Rightarrow> 'k \<Rightarrow> bool) \<Rightarrow> 'v \<Rightarrow> 'k \<Rightarrow> ('k \<times> 'v) list \<Rightarrow> 'v" where
  "map_get lt d k m = (case map_find lt k m of None \<Rightarrow> d | Some v \<Rightarrow> v)"

definition map_wf :: "('k \<Rightarrow> 'k \<Rightarrow> bool) \<Rightarrow> ('k \<times> 'v) list \<Rightarrow> bool" where
  "map_wf lt m \<longleftrightarrow> sorted_wrt (\<lambda>a b. lt (fst a) (fst b)) m"

definition eqv :: "('k \<Rightarrow> 'k \<Rightarrow> bool) \<Rightarrow> 'k \<Rightarrow> 'k \<Rightarrow> bool" where
  "eqv lt x y \<longleftrightarrow> \<not> lt x y \<and> \<not> lt y x"

text \<open>\<^verbatim>\<open>std::set\<close> is a map to nothing.\<close>

definition set_has :: "('k \<Rightarrow> 'k \<Rightarrow> bool) \<Rightarrow> 'k \<Rightarrow> 'k list \<Rightarrow> bool" where
  "set_has lt x s \<longleftrightarrow> map_has lt x (map (\<lambda>y. (y, ())) s)"

definition set_insert :: "('k \<Rightarrow> 'k \<Rightarrow> bool) \<Rightarrow> 'k \<Rightarrow> 'k list \<Rightarrow> 'k list" where
  "set_insert lt x s = map fst (map_emplace lt x () (map (\<lambda>y. (y, ())) s))"

definition set_erase :: "('k \<Rightarrow> 'k \<Rightarrow> bool) \<Rightarrow> 'k \<Rightarrow> 'k list \<Rightarrow> 'k list" where
  "set_erase lt x s = map fst (map_erase lt x (map (\<lambda>y. (y, ())) s))"

definition set_wf :: "('k \<Rightarrow> 'k \<Rightarrow> bool) \<Rightarrow> 'k list \<Rightarrow> bool" where
  "set_wf lt s \<longleftrightarrow> map_wf lt (map (\<lambda>y. (y, ())) s)"

section \<open>Facts that hold for any comparison\<close>

lemma map_wf_Nil [simp]: "map_wf lt []"
  by (simp add: map_wf_def)

lemma map_wf_Cons:
  "map_wf lt ((a, v) # m) \<longleftrightarrow> (\<forall>(b, w) \<in> set m. lt a b) \<and> map_wf lt m"
  by (auto simp: map_wf_def)

lemma map_has_Nil [simp]: "\<not> map_has lt k []"
  by (simp add: map_has_def)

lemma map_find_in_set: "map_find lt k m = Some v \<Longrightarrow> \<exists>a. (a, v) \<in> set m \<and> eqv lt a k"
  by (induction m) (auto simp: eqv_def split: if_splits)

lemma set_map_set: "set (map_set lt k v m) \<subseteq> {(k, v)} \<union> set m \<union> {(a, v) |a. a \<in> fst ` set m}"
proof (induction m)
  case Nil
  show ?case by simp
next
  case (Cons e m)
  obtain a w where "e = (a, w)" by (cases e)
  with Cons.IH show ?case by auto
qed

lemma map_set_values: "snd ` set (map_set lt k v m) \<subseteq> insert v (snd ` set m)"
proof (induction m)
  case Nil
  show ?case by simp
next
  case (Cons e m)
  then show ?case by (cases e) auto
qed

lemma map_set_keys: "fst ` set (map_set lt k v m) \<subseteq> insert k (fst ` set m)"
proof (induction m)
  case Nil
  show ?case by simp
next
  case (Cons e m)
  then show ?case by (cases e) auto
qed

lemma map_erase_subset: "set (map_erase lt k m) \<subseteq> set m"
proof (induction m)
  case Nil
  show ?case by simp
next
  case (Cons e m)
  then show ?case by (cases e) auto
qed

lemma map_emplace_values: "snd ` set (map_emplace lt k v m) \<subseteq> insert v (snd ` set m)"
  using map_set_values [of lt k v m] by (auto simp: map_emplace_def)

lemma map_emplace_keys: "fst ` set (map_emplace lt k v m) \<subseteq> insert k (fst ` set m)"
  using map_set_keys [of lt k v m] by (auto simp: map_emplace_def)

lemma map_wf_filter: "map_wf lt m \<Longrightarrow> map_wf lt (filter P m)"
  by (simp add: map_wf_def sorted_wrt_filter)

lemma length_map_set: "length (map_set lt k v m) = (if map_has lt k m then length m else Suc (length m))"
  by (induction m) (auto simp: map_has_def split: if_splits)

lemma length_map_erase: "length (map_erase lt k m) = (if map_has lt k m then length m - 1 else length m)"
proof (induction m)
  case (Cons e m)
  then show ?case
    by (cases e; cases m) (auto simp: map_has_def split: if_splits)
qed simp

lemma length_map_emplace: "length (map_emplace lt k v m) = (if map_has lt k m then length m else Suc (length m))"
  by (simp add: map_emplace_def length_map_set)

lemma map_erase_absent: "\<not> map_has lt k m \<Longrightarrow> map_erase lt k m = m"
  unfolding map_has_def by (induction m) (auto split: if_splits)

lemma list_all_find: "list_all (\<lambda>e. P (snd e)) m \<Longrightarrow> map_find lt k m = Some v \<Longrightarrow> P v"
  by (induction m) (auto split: if_splits)

lemma list_all_set:
  assumes "list_all Q m" and "Q (k, v)" and "\<And>a w. Q (a, w) \<Longrightarrow> Q (a, v)"
  shows "list_all Q (map_set lt k v m)"
  using assms(1) by (induction m) (auto intro: assms(2,3))

lemma list_all_erase: "list_all Q m \<Longrightarrow> list_all Q (map_erase lt k m)"
  by (induction m) auto

lemma list_all_emplace:
  assumes "list_all Q m" and "Q (k, v)" and "\<And>a w. Q (a, w) \<Longrightarrow> Q (a, v)"
  shows "list_all Q (map_emplace lt k v m)"
  using assms by (simp add: map_emplace_def list_all_set)

lemma set_erase_absent: "\<not> set_has lt x s \<Longrightarrow> set_erase lt x s = s"
  by (simp add: set_erase_def set_has_def map_erase_absent comp_def)

lemma set_wf_Nil [simp]: "set_wf lt []"
  by (simp add: set_wf_def)

lemma map_find_Nil_get [simp]: "map_get lt d k [] = d"
  by (simp add: map_get_def)

section \<open>The contract of a comparison and of the containers built on it\<close>

locale strict_weak_order =
  fixes lt :: "'k \<Rightarrow> 'k \<Rightarrow> bool"
  assumes irrefl: "\<not> lt x x"
    and trans: "lt x y \<Longrightarrow> lt y z \<Longrightarrow> lt x z"
    and cotrans: "lt x z \<Longrightarrow> lt x y \<or> lt y z"
begin

lemma asym: "lt x y \<Longrightarrow> \<not> lt y x"
  using irrefl trans by blast

lemma eqv_refl: "eqv lt x x"
  by (simp add: eqv_def irrefl)

lemma eqv_sym: "eqv lt x y \<Longrightarrow> eqv lt y x"
  by (simp add: eqv_def)

lemma eqv_trans: "eqv lt x y \<Longrightarrow> eqv lt y z \<Longrightarrow> eqv lt x z"
  using cotrans by (auto simp: eqv_def)

lemma lt_eqv_left: "eqv lt x y \<Longrightarrow> lt x z \<longleftrightarrow> lt y z"
  using cotrans by (auto simp: eqv_def)

lemma lt_eqv_right: "eqv lt x y \<Longrightarrow> lt z x \<longleftrightarrow> lt z y"
  using cotrans by (auto simp: eqv_def)

lemma find_eqv: "eqv lt x y \<Longrightarrow> map_find lt x m = map_find lt y m"
  by (induction m) (auto simp: lt_eqv_left lt_eqv_right)

lemma find_head: "\<not> lt a k \<Longrightarrow> map_wf lt ((a, v) # m) \<Longrightarrow> map_find lt k m = None"
proof (cases m)
  case (Cons e n)
  assume "\<not> lt a k" and wf: "map_wf lt ((a, v) # m)"
  obtain b w where e: "e = (b, w)" by (cases e)
  with wf Cons have "lt a b" by (simp add: map_wf_Cons)
  with \<open>\<not> lt a k\<close> have "lt k b" using cotrans by blast
  with asym Cons e show ?thesis by auto
qed simp

lemma find_iff:
  "map_wf lt m \<Longrightarrow> map_find lt k m = Some v \<longleftrightarrow> (\<exists>a. (a, v) \<in> set m \<and> eqv lt a k)"
proof (induction m)
  case Nil
  show ?case by simp
next
  case (Cons e m)
  obtain a w where e: "e = (a, w)" by (cases e)
  from Cons.prems e have wf: "map_wf lt m" and above: "\<forall>(b, x) \<in> set m. lt a b"
    by (simp_all add: map_wf_Cons)
  have no: "\<not> (\<exists>b. (b, v) \<in> set m \<and> eqv lt b k)" if "\<not> lt a k"
    using that above lt_eqv_right by blast
  show ?case
    using Cons.IH [OF wf] no by (auto simp: e eqv_def)
qed

lemma find_None_iff:
  "map_wf lt m \<Longrightarrow> map_find lt k m = None \<longleftrightarrow> (\<forall>(a, v) \<in> set m. \<not> eqv lt a k)"
  using find_iff [of m k] by (cases "map_find lt k m") fastforce+

lemma find_set:
  "map_wf lt m \<Longrightarrow>
     map_find lt k' (map_set lt k v m) = (if eqv lt k' k then Some v else map_find lt k' m)"
proof (induction m)
  case Nil
  show ?case by (auto simp: eqv_def)
next
  case (Cons e m)
  obtain a w where e: "e = (a, w)" by (cases e)
  from Cons.prems e have wf: "map_wf lt m" by (simp add: map_wf_Cons)
  consider "lt a k" | "lt k a" | "eqv lt a k" by (auto simp: eqv_def)
  then show ?case
  proof cases
    case 1
    then have "lt a k'" if "eqv lt k' k" using that lt_eqv_right by blast
    with 1 Cons.IH [OF wf] show ?thesis by (auto simp: e)
  next
    case 2
    then have "lt k' a \<and> \<not> lt a k'" if "lt k' k" using that trans asym by blast
    with 2 asym [OF 2] show ?thesis by (auto simp: e eqv_def)
  next
    case 3
    then have "eqv lt k' k \<longleftrightarrow> eqv lt k' a" using eqv_sym eqv_trans by blast
    with 3 show ?thesis by (auto simp: e eqv_def)
  qed
qed

lemma find_erase:
  "map_wf lt m \<Longrightarrow>
     map_find lt k' (map_erase lt k m) = (if eqv lt k' k then None else map_find lt k' m)"
proof (induction m)
  case Nil
  show ?case by simp
next
  case (Cons e m)
  obtain a w where e: "e = (a, w)" by (cases e)
  from Cons.prems e have wf: "map_wf lt m" by (simp add: map_wf_Cons)
  consider "lt a k" | "lt k a" | "eqv lt a k" by (auto simp: eqv_def)
  then show ?case
  proof cases
    case 1
    then have "lt a k'" if "eqv lt k' k" using that lt_eqv_right by blast
    with 1 Cons.IH [OF wf] show ?thesis by (auto simp: e)
  next
    case 2
    then have "lt k' a" if "eqv lt k' k" using that lt_eqv_left by blast
    with 2 asym [OF 2] show ?thesis using asym [of k' a] by (auto simp: e)
  next
    case 3
    then have er: "map_erase lt k (e # m) = m" by (simp add: e eqv_def)
    show ?thesis
    proof (cases "lt a k'")
      case True
      then have "\<not> eqv lt a k'" by (simp add: eqv_def)
      with 3 have "\<not> eqv lt k' k" using eqv_sym eqv_trans by blast
      with True show ?thesis unfolding er by (simp add: e)
    next
      case False
      then have none: "map_find lt k' m = None"
        using Cons.prems unfolding e by (rule find_head)
      have "eqv lt k' k" if "\<not> lt k' a"
        using that False 3 eqv_trans [of k' a k] by (simp add: eqv_def)
      with False none show ?thesis unfolding er by (simp add: e)
    qed
  qed
qed

lemma find_emplace:
  "map_wf lt m \<Longrightarrow> map_find lt k' (map_emplace lt k v m) =
     (if eqv lt k' k \<and> map_find lt k m = None then Some v else map_find lt k' m)"
  using find_eqv [of k' k m] by (auto simp: map_emplace_def map_has_def find_set)

lemma has_set: "map_wf lt m \<Longrightarrow> map_has lt k' (map_set lt k v m) \<longleftrightarrow> eqv lt k' k \<or> map_has lt k' m"
  by (simp add: map_has_def find_set)

lemma has_erase:
  "map_wf lt m \<Longrightarrow> map_has lt k' (map_erase lt k m) \<longleftrightarrow> \<not> eqv lt k' k \<and> map_has lt k' m"
  by (simp add: map_has_def find_erase)

lemma wf_set: "map_wf lt m \<Longrightarrow> map_wf lt (map_set lt k v m)"
proof (induction m)
  case Nil
  show ?case by (simp add: map_wf_Cons)
next
  case (Cons e m)
  obtain a w where e: "e = (a, w)" by (cases e)
  from Cons.prems e have wf: "map_wf lt m" and above: "\<forall>(b, x) \<in> set m. lt a b"
    by (simp_all add: map_wf_Cons)
  have keys: "b = k \<or> b \<in> fst ` set m" if "(b, x) \<in> set (map_set lt k v m)" for b x
    using that map_set_keys [of lt k v m] by (metis fst_conv image_eqI insertE subsetD)
  consider "lt a k" | "lt k a" | "eqv lt a k" by (auto simp: eqv_def)
  then show ?case
  proof cases
    case 1
    then have "\<forall>(b, x) \<in> set (map_set lt k v m). lt a b"
      using keys above by fastforce
    with 1 Cons.IH [OF wf] show ?thesis by (simp add: e map_wf_Cons)
  next
    case 2
    with above have "\<forall>(b, x) \<in> set ((a, w) # m). lt k b" using trans by fastforce
    with 2 asym Cons.prems e show ?thesis by (auto simp: map_wf_Cons)
  next
    case 3
    with wf above show ?thesis by (simp add: e eqv_def map_wf_Cons)
  qed
qed

lemma wf_erase: "map_wf lt m \<Longrightarrow> map_wf lt (map_erase lt k m)"
proof (induction m)
  case Nil
  show ?case by simp
next
  case (Cons e m)
  obtain a w where e: "e = (a, w)" by (cases e)
  from Cons.prems e have "map_wf lt m" and "\<forall>(b, x) \<in> set m. lt a b"
    by (simp_all add: map_wf_Cons)
  with Cons.IH map_erase_subset [of lt k m] show ?case by (auto simp: e map_wf_Cons)
qed

lemma wf_emplace: "map_wf lt m \<Longrightarrow> map_wf lt (map_emplace lt k v m)"
  by (simp add: map_emplace_def wf_set)

lemma wf_touch: "map_wf lt m \<Longrightarrow> map_wf lt (map_touch lt d k m)"
  by (simp add: map_touch_def wf_emplace)

lemma get_touch: "map_wf lt m \<Longrightarrow> map_get lt d k' (map_touch lt d k m) = map_get lt d k' m"
  using find_eqv [of k' k m] by (auto simp: map_get_def map_touch_def find_emplace)

lemma set_set: "map_set lt k v (map_set lt k w m) = map_set lt k v m"
  by (induction m) (auto simp: irrefl dest: asym)

lemma erase_set: "map_erase lt k (map_set lt k v m) = map_erase lt k m"
  by (induction m) (auto simp: irrefl dest: asym)

lemma set_touch: "map_set lt k v (map_touch lt d k m) = map_set lt k v m"
  by (simp add: map_touch_def map_emplace_def set_set)

lemma find_filter:
  assumes "map_wf lt m"
    and "\<And>a b v. eqv lt a b \<Longrightarrow> P (a, v) \<longleftrightarrow> P (b, v)"
  shows "map_find lt k (filter P m) =
     (case map_find lt k m of Some v \<Rightarrow> if P (k, v) then Some v else None | None \<Rightarrow> None)"
proof -
  have wf: "map_wf lt (filter P m)" using assms(1) by (rule map_wf_filter)
  have "map_find lt k (filter P m) = Some v \<longleftrightarrow> map_find lt k m = Some v \<and> P (k, v)" for v
    using assms(2) by (auto simp: find_iff [OF wf] find_iff [OF assms(1)])
  then show ?thesis
    by (simp split: option.split) (metis not_None_eq)
qed

end

text \<open>With a total comparison the map determines its entries.\<close>

locale strict_total_order = strict_weak_order +
  assumes total: "x \<noteq> y \<Longrightarrow> lt x y \<or> lt y x"
begin

lemma eqv_iff_eq: "eqv lt x y \<longleftrightarrow> x = y"
  using total irrefl by (auto simp: eqv_def)

lemma find_iff_mem: "map_wf lt m \<Longrightarrow> map_find lt k m = Some v \<longleftrightarrow> (k, v) \<in> set m"
  by (simp add: find_iff eqv_iff_eq)

lemma wf_eqI:
  assumes "map_wf lt m" and "map_wf lt m'" and "set m = set m'"
  shows "m = m'"
  using assms
proof (induction m arbitrary: m')
  case Nil
  then show ?case by simp
next
  case (Cons e m)
  then obtain e' n where m': "m' = e' # n" by (cases m') auto
  obtain a v where e: "e = (a, v)" by (cases e)
  obtain b w where e': "e' = (b, w)" by (cases e')
  have am: "\<forall>(c, x) \<in> set m. lt a c" and bn: "\<forall>(c, x) \<in> set n. lt b c"
    using Cons.prems by (simp_all add: m' e e' map_wf_Cons)
  have ein: "e \<in> set (e' # n)" and ein': "e' \<in> set (e # m)"
    using Cons.prems(3) by (auto simp: m')
  have "e = e'"
  proof (rule ccontr)
    assume "e \<noteq> e'"
    with ein ein' have "e \<in> set n" and "e' \<in> set m" by auto
    with am bn have "lt b a" and "lt a b" by (auto simp: e e')
    then show False using asym by blast
  qed
  moreover have "set m = set n"
  proof -
    have "e \<notin> set m" and "e \<notin> set n"
      using am bn irrefl \<open>e = e'\<close> by (auto simp: e e')
    with Cons.prems(3) \<open>e = e'\<close> show ?thesis by (auto simp: m')
  qed
  moreover have "map_wf lt m" and "map_wf lt n"
    using Cons.prems by (simp_all add: m' e e' map_wf_Cons)
  ultimately show ?case using Cons.IH [of n] by (simp only: m')
qed

lemma wf_ext:
  assumes "map_wf lt m" and "map_wf lt m'" and "\<And>k. map_find lt k m = map_find lt k m'"
  shows "m = m'"
proof (rule wf_eqI [OF assms(1,2)])
  show "set m = set m'"
    using assms(3) find_iff_mem [OF assms(1)] find_iff_mem [OF assms(2)] by auto
qed

lemma set_emplace:
  "map_wf lt m \<Longrightarrow>
     set (map_emplace lt k v m) = (if map_has lt k m then set m else insert (k, v) (set m))"
proof -
  assume wf: "map_wf lt m"
  have "(a, x) \<in> set (map_emplace lt k v m) \<longleftrightarrow>
      (a, x) \<in> (if map_has lt k m then set m else insert (k, v) (set m))" for a x
    unfolding find_iff_mem [OF wf_emplace [OF wf], symmetric] find_emplace [OF wf]
    using wf by (auto simp: eqv_iff_eq map_has_def find_iff_mem [symmetric])
  then show ?thesis by auto
qed

lemma has_iff: "map_wf lt m \<Longrightarrow> map_has lt k m \<longleftrightarrow> k \<in> fst ` set m"
  by (force simp: map_has_def find_iff_mem)

lemma distinct_keys: "map_wf lt m \<Longrightarrow> distinct (map fst m)"
proof (induction m)
  case (Cons e m)
  then show ?case using irrefl by (cases e) (fastforce simp: map_wf_Cons)
qed simp

lemma list_all_set_total: "list_all Q m \<Longrightarrow> Q (k, v) \<Longrightarrow> list_all Q (map_set lt k v m)"
proof (induction m)
  case (Cons e m)
  obtain a w where "e = (a, w)" by (cases e)
  moreover have "a = k" if "\<not> lt a k" "\<not> lt k a" using that total by blast
  ultimately show ?case using Cons by auto
qed simp

lemma set_has_iff: "set_wf lt s \<Longrightarrow> set_has lt x s \<longleftrightarrow> x \<in> set s"
  by (simp add: set_has_def set_wf_def has_iff image_image)

lemma set_insert_wf: "set_wf lt s \<Longrightarrow> set_wf lt (set_insert lt x s)"
proof -
  have unit: "map (\<lambda>y. (y, ())) (map fst m) = m" for m :: "('a \<times> unit) list" by (induction m) auto
  show "set_wf lt s \<Longrightarrow> set_wf lt (set_insert lt x s)"
    unfolding set_wf_def set_insert_def unit by (rule wf_emplace)
qed

lemma set_set_insert: "set_wf lt s \<Longrightarrow> set (set_insert lt x s) = insert x (set s)"
  unfolding set_wf_def set_insert_def
  by (auto simp: set_emplace has_iff image_image)

end

end
