(* ===== verification/State_Ops.thy ===== *)
theory State_Ops
  imports Std_Map
begin

text \<open>
  Operations on an object with state: a method maps the state before the call to its result,
  which may be an exception, and the state after it. What a method changed before it threw stays
  changed, as in the sources, where no destructor rolls anything back. The locale
  \<open>op_invariant\<close> carries an invariant of the state through the sequencing of methods.
\<close>

type_synonym ('s, 'a) op = "'s \<Rightarrow> 'a res \<times> 's"

definition op_return :: "'a \<Rightarrow> ('s, 'a) op" where
  "op_return x s = (Inr x, s)"

definition op_lift :: "'a res \<Rightarrow> ('s, 'a) op" where
  "op_lift r s = (r, s)"

definition op_bind :: "('s, 'a) op \<Rightarrow> ('a \<Rightarrow> ('s, 'b) op) \<Rightarrow> ('s, 'b) op" where
  "op_bind m f s = (case m s of (Inl e, s') \<Rightarrow> (Inl e, s') | (Inr x, s') \<Rightarrow> f x s')"

definition op_then :: "('s, unit) op \<Rightarrow> ('s, 'b) op \<Rightarrow> ('s, 'b) op" where
  "op_then m n = op_bind m (\<lambda>_. n)"

definition op_get :: "('s \<Rightarrow> 'a) \<Rightarrow> ('s, 'a) op" where
  "op_get f s = (Inr (f s), s)"

definition op_modify :: "('s \<Rightarrow> 's) \<Rightarrow> ('s, unit) op" where
  "op_modify f s = (Inr (), f s)"

definition op_when :: "bool \<Rightarrow> ('s, unit) op \<Rightarrow> ('s, unit) op" where
  "op_when b m = (if b then m else op_return ())"

text \<open>A range-based \<^verbatim>\<open>for\<close> over the elements the container has when the loop starts.\<close>

fun op_for :: "'x list \<Rightarrow> ('x \<Rightarrow> ('s, unit) op) \<Rightarrow> ('s, unit) op" where
  "op_for [] f = op_return ()"
| "op_for (x # xs) f = op_then (f x) (op_for xs f)"

text \<open>\<^verbatim>\<open>try { m } catch (std::exception) { h }\<close>: undefined behaviour is not caught.\<close>

definition op_catch :: "('s, 'a) op \<Rightarrow> (cpp_error \<Rightarrow> ('s, 'a) op) \<Rightarrow> ('s, 'a) op" where
  "op_catch m h s =
     (case m s of
        (Inl e, s') \<Rightarrow> if is_std_exception e then h e s' else (Inl e, s')
      | (Inr x, s') \<Rightarrow> (Inr x, s'))"

section \<open>Running\<close>

named_theorems op_simps \<open>one step of running an operation\<close>

lemma op_run [op_simps]:
  "op_return x s = (Inr x, s)" "op_lift r s = (r, s)" "op_get f s = (Inr (f s), s)"
  "op_modify g s = (Inr (), g s)"
  by (simp_all add: op_return_def op_lift_def op_get_def op_modify_def)

lemma op_bind_Inr [op_simps]: "m s = (Inr x, s') \<Longrightarrow> op_bind m f s = f x s'"
  by (simp add: op_bind_def)

lemma op_bind_Inl [op_simps]: "m s = (Inl e, s') \<Longrightarrow> op_bind m f s = (Inl e, s')"
  by (simp add: op_bind_def)

lemma op_bind_simps [op_simps]:
  "op_bind (op_return x) f s = f x s" "op_bind (op_get g) f s = f (g s) s"
  "op_bind (op_modify h) f' s = f' () (h s)" "op_bind (op_lift (Inr x)) f s = f x s"
  "op_bind (op_lift (Inl e)) f s = (Inl e, s)"
  by (simp_all add: op_bind_def op_run)

lemma op_then_Inr [op_simps]: "m s = (Inr (), s') \<Longrightarrow> op_then m n s = n s'"
  by (simp add: op_then_def op_bind_def)

lemma op_then_Inl [op_simps]: "m s = (Inl e, s') \<Longrightarrow> op_then m n s = (Inl e, s')"
  by (simp add: op_then_def op_bind_def)

lemma op_then_simps [op_simps]:
  "op_then (op_return ()) n s = n s" "op_then (op_modify h) n s = n (h s)"
  by (simp_all add: op_then_def op_bind_simps)

lemma op_when_simps [simp]: "op_when True m = m" "op_when False m = op_return ()"
  by (simp_all add: op_when_def)

lemma op_for_append: "op_for (xs @ ys) f s = op_then (op_for xs f) (op_for ys f) s"
proof (induction xs arbitrary: s)
  case Nil
  show ?case by (simp add: op_simps)
next
  case (Cons x xs)
  show ?case
    by (cases "f x s") (auto simp: op_then_def op_bind_def Cons.IH split: sum.splits prod.splits)
qed

text \<open>A loop whose body always returns is a fold over the state.\<close>

lemma op_for_fold:
  assumes "\<And>x s. x \<in> set xs \<Longrightarrow> f x s = (Inr (), g x s)"
  shows "op_for xs f s = (Inr (), fold g xs s)"
  using assms by (induction xs arbitrary: s) (simp_all add: op_simps)

section \<open>Invariants\<close>

text \<open>\<open>op_keeps I m\<close>: whatever \<open>m\<close> returns or throws, \<open>I\<close> holds after it when it held before,
  unless the run was undefined.\<close>

definition op_keeps :: "('s \<Rightarrow> bool) \<Rightarrow> ('s, 'a) op \<Rightarrow> bool" where
  "op_keeps I m \<longleftrightarrow> (\<forall>s. I s \<longrightarrow> fst (m s) \<noteq> Inl undefined_behaviour \<longrightarrow> I (snd (m s)))"

named_theorems keeps_intros \<open>operations that keep an invariant\<close>

lemma op_keepsI [intro?]:
  "(\<And>s. I s \<Longrightarrow> fst (m s) \<noteq> Inl undefined_behaviour \<Longrightarrow> I (snd (m s))) \<Longrightarrow> op_keeps I m"
  by (simp add: op_keeps_def)

lemma op_keepsD: "op_keeps I m \<Longrightarrow> I s \<Longrightarrow> m s = (r, s') \<Longrightarrow> r \<noteq> Inl undefined_behaviour \<Longrightarrow> I s'"
  by (fastforce simp: op_keeps_def)

lemma keeps_return [keeps_intros]: "op_keeps I (op_return x)"
  by (simp add: op_keeps_def op_run)

lemma keeps_lift [keeps_intros]: "op_keeps I (op_lift r)"
  by (simp add: op_keeps_def op_run)

lemma keeps_get [keeps_intros]: "op_keeps I (op_get f)"
  by (simp add: op_keeps_def op_run)

lemma keeps_modify: "(\<And>s. I s \<Longrightarrow> I (f s)) \<Longrightarrow> op_keeps I (op_modify f)"
  by (simp add: op_keeps_def op_run)

lemma keeps_bind [keeps_intros]:
  assumes "op_keeps I m" and "\<And>x. op_keeps I (f x)"
  shows "op_keeps I (op_bind m f)"
proof
  fix s assume I: "I s" and nub: "fst (op_bind m f s) \<noteq> Inl undefined_behaviour"
  obtain r s' where m: "m s = (r, s')" by (cases "m s")
  show "I (snd (op_bind m f s))"
  proof (cases r)
    case (Inl e)
    with m nub op_keepsD [OF assms(1) I m] show ?thesis by (simp add: op_bind_def)
  next
    case (Inr x)
    with op_keepsD [OF assms(1) I m] have "I s'" by simp
    with assms(2) [of x] m Inr nub show ?thesis by (simp add: op_bind_def op_keeps_def)
  qed
qed

lemma keeps_then [keeps_intros]: "op_keeps I m \<Longrightarrow> op_keeps I n \<Longrightarrow> op_keeps I (op_then m n)"
  unfolding op_then_def by (rule keeps_bind)

lemma keeps_if [keeps_intros]: "op_keeps I m \<Longrightarrow> op_keeps I n \<Longrightarrow> op_keeps I (if b then m else n)"
  by simp

lemma keeps_when [keeps_intros]: "op_keeps I m \<Longrightarrow> op_keeps I (op_when b m)"
  by (simp add: op_when_def keeps_return)

lemma keeps_for [keeps_intros]: "(\<And>x. op_keeps I (f x)) \<Longrightarrow> op_keeps I (op_for xs f)"
  by (induction xs) (simp_all add: keeps_return keeps_then)

lemma keeps_case_option [keeps_intros]:
  "op_keeps I m \<Longrightarrow> (\<And>x. op_keeps I (f x)) \<Longrightarrow> op_keeps I (case z of None \<Rightarrow> m | Some x \<Rightarrow> f x)"
  by (cases z) simp_all

lemma keeps_catch [keeps_intros]:
  assumes "op_keeps I m" and "\<And>e. op_keeps I (h e)"
  shows "op_keeps I (op_catch m h)"
proof
  fix s assume I: "I s" and nub: "fst (op_catch m h s) \<noteq> Inl undefined_behaviour"
  obtain r s' where m: "m s = (r, s')" by (cases "m s")
  show "I (snd (op_catch m h s))"
  proof (cases r)
    case (Inl e)
    with m nub have e: "is_std_exception e"
      by (auto simp: op_catch_def is_std_exception_def split: if_splits)
    with Inl op_keepsD [OF assms(1) I m] have "I s'" by (simp add: is_std_exception_def)
    with assms(2) [of e] m Inl e nub show ?thesis by (simp add: op_catch_def op_keeps_def)
  next
    case (Inr x)
    with m op_keepsD [OF assms(1) I m] show ?thesis by (simp add: op_catch_def)
  qed
qed

text \<open>
  An object whose methods keep an invariant keeps it along every sequence of calls. The calls
  are the labels \<open>'l\<close>; \<open>exec\<close> is the method a label stands for.
\<close>

fun op_run_all :: "('l \<Rightarrow> ('s, unit) op) \<Rightarrow> 'l list \<Rightarrow> 's \<Rightarrow> 's option" where
  "op_run_all exec [] s = Some s"
| "op_run_all exec (l # ls) s =
     (case exec l s of (Inl e, s') \<Rightarrow> if is_std_exception e then op_run_all exec ls s' else None
      | (Inr _, s') \<Rightarrow> op_run_all exec ls s')"

lemma run_all_keeps:
  assumes "\<And>l. l \<in> set ls \<Longrightarrow> op_keeps I (exec l)" and "I s" and "op_run_all exec ls s = Some s'"
  shows "I s'"
  using assms
proof (induction ls arbitrary: s)
  case (Cons l ls)
  obtain r t where m: "exec l s = (r, t)" by (cases "exec l s")
  with Cons.prems(3) have nub: "r \<noteq> Inl undefined_behaviour" and rest: "op_run_all exec ls t = Some s'"
    by (auto simp: is_std_exception_def split: if_splits sum.splits)
  have "op_keeps I (exec l)" using Cons.prems(1) by simp
  from op_keepsD [OF this Cons.prems(2) m nub] have "I t" .
  with Cons.IH rest Cons.prems(1) show ?case by (meson list.set_intros(2))
qed simp

locale op_invariant =
  fixes exec :: "'l \<Rightarrow> ('s, unit) op"
    and init :: "'s \<Rightarrow> bool"
    and inv :: "'s \<Rightarrow> bool"
  assumes inv_init: "init s \<Longrightarrow> inv s"
    and inv_exec: "op_keeps inv (exec l)"
begin

lemma inv_run: "inv s \<Longrightarrow> op_run_all exec ls s = Some s' \<Longrightarrow> inv s'"
  by (rule run_all_keeps [OF inv_exec])

lemma inv_reachable: "init s \<Longrightarrow> op_run_all exec ls s = Some s' \<Longrightarrow> inv s'"
  using inv_run inv_init by blast

end

end
