(* ===== verification/Quicr_Name.thy ===== *)
theory Quicr_Name
  imports State_Ops
begin

text \<open>
  \<^verbatim>\<open>quicr::Name\<close>, the 128-bit identifier of an object (\<^verbatim>\<open>include/quicr/quicr_name.h\<close>,
  \<^verbatim>\<open>src/quicr_name.cpp\<close>): the hex helpers, the constructors, the shift, arithmetic, bitwise and
  comparison operators on its two 64-bit halves. The abstract value of a name is the
  128-bit word \<open>name_abs\<close>; the lemmas of the second half show that every operator computes
  the operation of that name on 128-bit words, and where it throws or is undefined.
\<close>

unbundle bit_operations_syntax

section \<open>Hexadecimal digits\<close>

definition hexchar_to_uint :: "char \<Rightarrow> u64" where
  "hexchar_to_uint x =
     (let c = (of_char x :: nat) in
      if 48 \<le> c \<and> c \<le> 57 then of_nat (c - 48)
      else if 65 \<le> c \<and> c \<le> 70 then of_nat (c - 65 + 10)
      else if 97 \<le> c \<and> c \<le> 102 then of_nat (c - 97 + 10)
      else 0)"

definition uint_to_hexchar :: "u64 \<Rightarrow> char" where
  "uint_to_hexchar b =
     (if b > 9 then char_of (unat (b + 65 - 10)) else char_of (unat (b + 48)))"

definition remove_0x :: "string \<Rightarrow> string" where
  "remove_0x x = (if take 2 x = ''0x'' then drop 2 x else x)"

fun hex_to_uint_loop :: "u64 \<Rightarrow> string \<Rightarrow> u64" where
  "hex_to_uint_loop y [] = y"
| "hex_to_uint_loop y (c # x) = hex_to_uint_loop (y * 16 + hexchar_to_uint c) x"

definition hex_to_uint :: "string \<Rightarrow> u64" where
  "hex_to_uint x = hex_to_uint_loop 0 (remove_0x x)"

text \<open>The loop counts \<open>i\<close> down from \<^verbatim>\<open>sizeof(T) * 2 - 1\<close>; the digits already written are \<open>x\<close>.\<close>

fun uint_to_hex_loop :: "nat \<Rightarrow> u64 \<Rightarrow> string \<Rightarrow> string" where
  "uint_to_hex_loop 0 y x = x"
| "uint_to_hex_loop (Suc i) y x =
     (let b = y AND 0x0F in uint_to_hex_loop i ((y - b) div 16) (uint_to_hexchar b # x))"

definition uint_to_hex :: "u64 \<Rightarrow> string" where
  "uint_to_hex y = uint_to_hex_loop 16 y []"

section \<open>The name and its constructors\<close>

datatype Name = Name (name_hi: u64) (name_low: u64)

definition sizeof_Name :: nat where
  "sizeof_Name = 16"

definition Name_of_hex :: "string \<Rightarrow> Name res" where
  "Name_of_hex hex_value =
     (let hex_value = remove_0x hex_value; n = length hex_value in
      if n > sizeof_Name * 2 then Inl NameException
      else if n > sizeof_Name then
        Inr (Name (hex_to_uint (take (n - sizeof_Name) hex_value))
                  (hex_to_uint (drop (n - sizeof_Name) hex_value)))
      else Inr (Name 0 (hex_to_uint hex_value)))"

text \<open>
  \<open>data\<close> is what can be read behind the pointer: the constructor copies eight bytes twice
  whatever \<open>len\<close> says, and reads past the end when there are fewer than sixteen.
\<close>

definition Name_memcpy :: "bytes \<Rightarrow> Name res" where
  "Name_memcpy data =
     (if length data < sizeof_Name then Inl undefined_behaviour
      else Inr (Name (of_le_bytes (take 8 (drop 8 data))) (of_le_bytes (take 8 data))))"

definition Name_of_ptr :: "bytes \<Rightarrow> nat \<Rightarrow> Name res" where
  "Name_of_ptr data len =
     (if len > sizeof_Name * 2 then Inl NameException else Name_memcpy data)"

definition Name_of_vector :: "bytes \<Rightarrow> Name res" where
  "Name_of_vector data =
     (if length data > sizeof_Name then Inl NameException else Name_memcpy data)"

definition Name_to_hex :: "Name \<Rightarrow> string" where
  "Name_to_hex n = ''0x'' @ uint_to_hex (name_hi n) @ uint_to_hex (name_low n)"

section \<open>Operators\<close>

definition Name_index :: "Name \<Rightarrow> nat \<Rightarrow> u8 res" where
  "Name_index n index =
     (if index \<ge> sizeof_Name then Inl out_of_range
      else if index < 8 then rbind (shr64 (name_low n) (index * 8)) (\<lambda>x. Inr (ucast (x AND 0xff)))
      else rbind (shr64 (name_hi n) ((index - 8) * 8)) (\<lambda>x. Inr (ucast (x AND 0xff))))"

definition uint64_t_bit_size :: nat where
  "uint64_t_bit_size = sizeof_Name * 4"

definition Name_shr_assign :: "Name \<Rightarrow> u16 \<Rightarrow> Name res" where
  "Name_shr_assign n value =
     (let v = unat value in
      if v = 0 then Inr n
      else if v < uint64_t_bit_size then
        rbind (shr64 (name_low n) v) (\<lambda>l.
        rbind (shl64 (name_hi n) (uint64_t_bit_size - v)) (\<lambda>carry.
        rbind (shr64 (name_hi n) v) (\<lambda>h.
        Inr (Name h (l OR carry)))))
      else
        rbind (shr64 (name_hi n) (v - uint64_t_bit_size)) (\<lambda>l. Inr (Name 0 l)))"

definition Name_shr :: "Name \<Rightarrow> u16 \<Rightarrow> Name res" where
  "Name_shr n value = Name_shr_assign n value"

definition Name_shl_assign :: "Name \<Rightarrow> u16 \<Rightarrow> Name res" where
  "Name_shl_assign n value =
     (let v = unat value in
      if v = 0 then Inr n
      else if v < uint64_t_bit_size then
        rbind (shl64 (name_hi n) v) (\<lambda>h.
        rbind (shr64 (name_low n) (uint64_t_bit_size - v)) (\<lambda>carry.
        rbind (shl64 (name_low n) v) (\<lambda>l.
        Inr (Name (h OR carry) l))))
      else
        rbind (shl64 (name_low n) (v - uint64_t_bit_size)) (\<lambda>h. Inr (Name h 0)))"

definition Name_shl :: "Name \<Rightarrow> u16 \<Rightarrow> Name res" where
  "Name_shl n value = Name_shl_assign n value"

definition Name_add_assign :: "Name \<Rightarrow> u64 \<Rightarrow> Name" where
  "Name_add_assign n value =
     Name (if name_low n + value < name_low n then name_hi n + 1 else name_hi n)
          (name_low n + value)"

definition Name_add :: "Name \<Rightarrow> u64 \<Rightarrow> Name" where
  "Name_add n value = Name_add_assign n value"

definition Name_sub_assign :: "Name \<Rightarrow> u64 \<Rightarrow> Name" where
  "Name_sub_assign n value =
     Name (if name_low n - value > name_low n then name_hi n - 1 else name_hi n)
          (name_low n - value)"

definition Name_sub :: "Name \<Rightarrow> u64 \<Rightarrow> Name" where
  "Name_sub n value = Name_sub_assign n value"

text \<open>The increment operators return the value of the expression and the new state.\<close>

definition Name_pre_inc :: "Name \<Rightarrow> Name \<times> Name" where
  "Name_pre_inc n = (let n' = Name_add_assign n 1 in (n', n'))"

definition Name_post_inc :: "Name \<Rightarrow> Name \<times> Name" where
  "Name_post_inc n = (n, snd (Name_pre_inc n))"

definition Name_pre_dec :: "Name \<Rightarrow> Name \<times> Name" where
  "Name_pre_dec n = (let n' = Name_sub_assign n 1 in (n', n'))"

definition Name_post_dec :: "Name \<Rightarrow> Name \<times> Name" where
  "Name_post_dec n = (n, snd (Name_pre_dec n))"

definition Name_and_u64 :: "Name \<Rightarrow> u64 \<Rightarrow> Name" where
  "Name_and_u64 n value = Name (name_hi n) (name_low n AND value)"

definition Name_or_u64 :: "Name \<Rightarrow> u64 \<Rightarrow> Name" where
  "Name_or_u64 n value = Name (name_hi n) (name_low n OR value)"

definition Name_and :: "Name \<Rightarrow> Name \<Rightarrow> Name" where
  "Name_and n other = Name (name_hi n AND name_hi other) (name_low n AND name_low other)"

definition Name_or :: "Name \<Rightarrow> Name \<Rightarrow> Name" where
  "Name_or n other = Name (name_hi n OR name_hi other) (name_low n OR name_low other)"

definition Name_xor :: "Name \<Rightarrow> Name \<Rightarrow> Name" where
  "Name_xor n other = Name (name_hi n XOR name_hi other) (name_low n XOR name_low other)"

definition Name_not :: "Name \<Rightarrow> Name" where
  "Name_not n = Name (NOT (name_hi n)) (NOT (name_low n))"

definition Name_eq :: "Name \<Rightarrow> Name \<Rightarrow> bool" where
  "Name_eq a b \<longleftrightarrow> name_hi a = name_hi b \<and> name_low a = name_low b"

definition Name_neq :: "Name \<Rightarrow> Name \<Rightarrow> bool" where
  "Name_neq a b \<longleftrightarrow> \<not> Name_eq a b"

definition Name_gt :: "Name \<Rightarrow> Name \<Rightarrow> bool" where
  "Name_gt a b \<longleftrightarrow>
     (if name_hi a > name_hi b then True
      else if name_hi b > name_hi a then False
      else name_low a > name_low b)"

definition Name_lt :: "Name \<Rightarrow> Name \<Rightarrow> bool" where
  "Name_lt a b \<longleftrightarrow>
     (if name_hi a < name_hi b then True
      else if name_hi b < name_hi a then False
      else name_low a < name_low b)"

section \<open>The 128-bit value of a name\<close>

definition name_abs :: "Name \<Rightarrow> 128 word" where
  "name_abs n = push_bit 64 (ucast (name_hi n)) OR ucast (name_low n)"

lemma bit_name_abs:
  "bit (name_abs n) i \<longleftrightarrow>
     (if i < 64 then bit (name_low n) i else i < 128 \<and> bit (name_hi n) (i - 64))"
  using bit_imp_le_length [of "name_low n" i]
  by (auto simp: name_abs_def bit_simps)

lemma uint_name_abs: "uint (name_abs n) = uint (name_hi n) * 2 ^ 64 + uint (name_low n)"
proof -
  have "uint (name_abs n) = push_bit 64 (uint (name_hi n)) OR uint (name_low n)"
  proof (rule bit_eqI)
    fix i
    show "bit (uint (name_abs n)) i \<longleftrightarrow> bit (push_bit 64 (uint (name_hi n)) OR uint (name_low n)) i"
      using bit_imp_le_length [of "name_low n" i] bit_imp_le_length [of "name_hi n" "i - 64"]
      by (auto simp: bit_uint_iff bit_name_abs bit_or_iff bit_push_bit_iff)
  qed
  also have "\<dots> = push_bit 64 (uint (name_hi n)) + uint (name_low n)"
  proof (rule disjunctive_add [symmetric])
    fix i
    show "\<not> bit (push_bit 64 (uint (name_hi n))) i \<or> \<not> bit (uint (name_low n)) i"
      using bit_imp_le_length [of "name_low n" i] by (auto simp: bit_uint_iff bit_push_bit_iff)
  qed
  finally show ?thesis by (simp add: push_bit_eq_mult)
qed

lemma name_abs_inj: "name_abs a = name_abs b \<longleftrightarrow> a = b"
proof
  assume eq: "name_abs a = name_abs b"
  have "bit (name_low a) i \<longleftrightarrow> bit (name_low b) i" if "i < 64" for i
    using that bit_name_abs [of a i] bit_name_abs [of b i] eq by simp
  moreover have "bit (name_hi a) i \<longleftrightarrow> bit (name_hi b) i" if "i < 64" for i
    using that bit_name_abs [of a "i + 64"] bit_name_abs [of b "i + 64"] eq by simp
  ultimately show "a = b"
    by (cases a; cases b) (auto intro: bit_word_eqI)
qed simp

lemma name_eqI: "(\<And>i. i < 128 \<Longrightarrow> bit (name_abs a) i \<longleftrightarrow> bit (name_abs b) i) \<Longrightarrow> a = b"
  unfolding name_abs_inj [symmetric] by (rule bit_word_eqI) simp

text \<open>Every 128-bit word is the value of a name.\<close>

definition name_of_word :: "128 word \<Rightarrow> Name" where
  "name_of_word w = Name (ucast (drop_bit 64 w)) (ucast w)"

lemma name_abs_of_word [simp]: "name_abs (name_of_word w) = w"
  by (rule bit_word_eqI) (auto simp: bit_name_abs name_of_word_def bit_simps)

lemma name_of_word_abs [simp]: "name_of_word (name_abs n) = n"
  by (simp flip: name_abs_inj)

subsection \<open>Bitwise operators\<close>

lemma abs_Name_and [simp]: "name_abs (Name_and a b) = name_abs a AND name_abs b"
  by (rule bit_word_eqI) (simp add: bit_simps bit_name_abs Name_and_def)

lemma abs_Name_or [simp]: "name_abs (Name_or a b) = name_abs a OR name_abs b"
  by (rule bit_word_eqI) (simp add: bit_simps bit_name_abs Name_or_def)

lemma abs_Name_xor [simp]: "name_abs (Name_xor a b) = name_abs a XOR name_abs b"
  by (rule bit_word_eqI) (simp add: bit_simps bit_name_abs Name_xor_def)

lemma abs_Name_not [simp]: "name_abs (Name_not a) = NOT (name_abs a)"
  by (rule bit_word_eqI) (auto simp: bit_simps bit_name_abs Name_not_def)

lemma abs_Name_and_u64: "name_abs (Name_and_u64 n v) = name_abs n AND (NOT (mask 64) OR ucast v)"
  by (rule bit_word_eqI) (auto simp: bit_simps bit_name_abs Name_and_u64_def)

lemma abs_Name_or_u64: "name_abs (Name_or_u64 n v) = name_abs n OR ucast v"
  using bit_imp_le_length [of v]
  by (intro bit_word_eqI) (fastforce simp: bit_simps bit_name_abs Name_or_u64_def)

subsection \<open>Shifts\<close>

lemma uint64_t_bit_size_eq [simp]: "uint64_t_bit_size = 64"
  by (simp add: uint64_t_bit_size_def sizeof_Name_def)

lemma Name_shr_ok:
  assumes "unat v < 128"
  shows "Name_shr n v = Inr (name_of_word (drop_bit (unat v) (name_abs n)))"
proof -
  let ?k = "unat v"
  consider "?k = 0" | "0 < ?k" "?k < 64" | "64 \<le> ?k" "?k < 128" using assms by linarith
  then show ?thesis
  proof cases
    case 1
    then show ?thesis by (simp add: Name_shr_def Name_shr_assign_def)
  next
    case 2
    have "Name (drop_bit ?k (name_hi n)) (drop_bit ?k (name_low n) OR push_bit (64 - ?k) (name_hi n))
        = name_of_word (drop_bit ?k (name_abs n))"
    proof (rule name_eqI)
      fix i :: nat assume "i < 128"
      with 2 bit_imp_le_length [of "name_low n" "?k + i"] bit_imp_le_length [of "name_hi n" "i + ?k - 64"]
      show "bit (name_abs (Name (drop_bit ?k (name_hi n))
              (drop_bit ?k (name_low n) OR push_bit (64 - ?k) (name_hi n)))) i
          \<longleftrightarrow> bit (name_abs (name_of_word (drop_bit ?k (name_abs n)))) i"
        by (auto simp: bit_name_abs bit_simps add.commute)
    qed
    with 2 show ?thesis by (simp add: Name_shr_def Name_shr_assign_def Let_def)
  next
    case 3
    have "Name 0 (drop_bit (?k - 64) (name_hi n)) = name_of_word (drop_bit ?k (name_abs n))"
    proof (rule name_eqI)
      fix i :: nat assume "i < 128"
      with 3 bit_imp_le_length [of "name_hi n" "?k + i - 64"]
      show "bit (name_abs (Name 0 (drop_bit (?k - 64) (name_hi n)))) i
          \<longleftrightarrow> bit (name_abs (name_of_word (drop_bit ?k (name_abs n)))) i"
        by (auto simp: bit_name_abs bit_simps add.commute)
    qed
    with 3 show ?thesis by (simp add: Name_shr_def Name_shr_assign_def Let_def)
  qed
qed

lemma Name_shr_ub: "128 \<le> unat v \<Longrightarrow> Name_shr n v = Inl undefined_behaviour"
  by (simp add: Name_shr_def Name_shr_assign_def Let_def)

lemma Name_shl_ok:
  assumes "unat v < 128"
  shows "Name_shl n v = Inr (name_of_word (push_bit (unat v) (name_abs n)))"
proof -
  let ?k = "unat v"
  consider "?k = 0" | "0 < ?k" "?k < 64" | "64 \<le> ?k" "?k < 128" using assms by linarith
  then show ?thesis
  proof cases
    case 1
    then show ?thesis by (simp add: Name_shl_def Name_shl_assign_def)
  next
    case 2
    have "Name (push_bit ?k (name_hi n) OR drop_bit (64 - ?k) (name_low n)) (push_bit ?k (name_low n))
        = name_of_word (push_bit ?k (name_abs n))"
    proof (rule name_eqI)
      fix i :: nat assume "i < 128"
      with 2 bit_imp_le_length [of "name_low n" "i - ?k"]
      show "bit (name_abs (Name (push_bit ?k (name_hi n) OR drop_bit (64 - ?k) (name_low n))
              (push_bit ?k (name_low n)))) i
          \<longleftrightarrow> bit (name_abs (name_of_word (push_bit ?k (name_abs n)))) i"
        by (auto simp: bit_name_abs bit_simps diff_diff_left add.commute)
    qed
    with 2 show ?thesis by (simp add: Name_shl_def Name_shl_assign_def Let_def)
  next
    case 3
    have "Name (push_bit (?k - 64) (name_low n)) 0 = name_of_word (push_bit ?k (name_abs n))"
    proof (rule name_eqI)
      fix i :: nat assume "i < 128"
      with 3 show "bit (name_abs (Name (push_bit (?k - 64) (name_low n)) 0)) i
          \<longleftrightarrow> bit (name_abs (name_of_word (push_bit ?k (name_abs n)))) i"
        by (auto simp: bit_name_abs bit_simps)
    qed
    with 3 show ?thesis by (simp add: Name_shl_def Name_shl_assign_def Let_def)
  qed
qed

lemma Name_shl_ub: "128 \<le> unat v \<Longrightarrow> Name_shl n v = Inl undefined_behaviour"
  by (simp add: Name_shl_def Name_shl_assign_def Let_def)

subsection \<open>Arithmetic\<close>

lemma concat_mod:
  fixes x l B :: int
  assumes "0 \<le> l" and "l < B"
  shows "(x * B + l) mod (B * B) = x mod B * B + l"
proof -
  have "(x * B + l) mod (B * B) = B * ((x * B + l) div B mod B) + (x * B + l) mod B"
    using assms by (intro zmod_zmult2_eq) simp
  also have "\<dots> = x mod B * B + l"
    using assms by simp
  finally show ?thesis .
qed

lemma uint_mod_u64: "uint (a :: u64) mod 2 ^ 64 = uint a"
  using uint_lt2p [of a] by simp

lemma uint_add_carry:
  fixes a b :: u64
  shows "uint (a + b) = (if a + b < a then uint a + uint b - 2 ^ 64 else uint a + uint b)"
proof -
  have "uint (a + b) = (uint a + uint b) mod 2 ^ 64" by (simp add: uint_word_ariths)
  moreover have "0 \<le> uint a" "uint a < 2 ^ 64" "0 \<le> uint b" "uint b < 2 ^ 64"
    using uint_lt2p [of a] uint_lt2p [of b] by simp_all
  ultimately show ?thesis unfolding word_less_def by (auto simp: mod_add_if_z)
qed

lemma uint_sub_borrow:
  fixes a b :: u64
  shows "uint (a - b) = (if a - b > a then uint a - uint b + 2 ^ 64 else uint a - uint b)"
proof -
  have "uint (a - b) = (uint a - uint b) mod 2 ^ 64" by (simp add: uint_word_ariths)
  moreover have "0 \<le> uint a" "uint a < 2 ^ 64" "0 \<le> uint b" "uint b < 2 ^ 64"
    using uint_lt2p [of a] uint_lt2p [of b] by simp_all
  ultimately show ?thesis unfolding word_less_def by (auto simp: mod_sub_if_z)
qed

lemma uint_name_abs_mod:
  assumes "uint (name_low n) = l" and "uint (name_hi n) = x mod 2 ^ 64"
  shows "uint (name_abs n) = (x * 2 ^ 64 + l) mod 2 ^ 128"
proof -
  have "0 \<le> l" "l < 2 ^ 64" using assms(1) uint_lt2p [of "name_low n"] by auto
  then have "(x * 2 ^ 64 + l) mod (2 ^ 64 * 2 ^ 64) = x mod 2 ^ 64 * 2 ^ 64 + l"
    by (rule concat_mod)
  then show ?thesis by (simp add: uint_name_abs assms)
qed

lemma abs_Name_add: "name_abs (Name_add n v) = name_abs n + ucast v"
proof -
  define c :: int where "c = (if name_low n + v < name_low n then 1 else 0)"
  have low: "uint (name_low (Name_add n v)) = uint (name_low n) + uint v - c * 2 ^ 64"
    by (simp add: Name_add_def Name_add_assign_def uint_add_carry c_def)
  have hi: "uint (name_hi (Name_add n v)) = (uint (name_hi n) + c) mod 2 ^ 64"
    by (simp add: Name_add_def Name_add_assign_def c_def uint_word_ariths
        uint_mod_u64 [simplified])
  have "uint (name_abs (Name_add n v)) = (uint (name_abs n) + uint v) mod 2 ^ 128"
    unfolding uint_name_abs_mod [OF low hi] uint_name_abs [of n] by (simp add: algebra_simps)
  also have "\<dots> = uint (name_abs n + ucast v)"
    by (simp add: uint_word_ariths uint_up_ucast is_up)
  finally show ?thesis by (rule word_uint_eq_iff [THEN iffD2])
qed

lemma abs_Name_sub: "name_abs (Name_sub n v) = name_abs n - ucast v"
proof -
  define c :: int where "c = (if name_low n - v > name_low n then 1 else 0)"
  have low: "uint (name_low (Name_sub n v)) = uint (name_low n) - uint v + c * 2 ^ 64"
    by (simp add: Name_sub_def Name_sub_assign_def uint_sub_borrow c_def)
  have hi: "uint (name_hi (Name_sub n v)) = (uint (name_hi n) - c) mod 2 ^ 64"
    by (simp add: Name_sub_def Name_sub_assign_def c_def uint_word_ariths
        uint_mod_u64 [simplified])
  have "uint (name_abs (Name_sub n v)) = (uint (name_abs n) - uint v) mod 2 ^ 128"
    unfolding uint_name_abs_mod [OF low hi] uint_name_abs [of n] by (simp add: algebra_simps)
  also have "\<dots> = uint (name_abs n - ucast v)"
    by (simp add: uint_word_ariths uint_up_ucast is_up)
  finally show ?thesis by (rule word_uint_eq_iff [THEN iffD2])
qed

subsection \<open>Order\<close>

lemma concat_less_iff:
  fixes a b c d B :: int
  assumes "0 \<le> c" "c < B" "0 \<le> d" "d < B"
  shows "a * B + c < b * B + d \<longleftrightarrow> a < b \<or> (a = b \<and> c < d)"
proof -
  have "a * B + c < b * B + d" if "a < b"
  proof -
    from that have "(a + 1) * B \<le> b * B" using assms by (intro mult_right_mono) auto
    with assms show ?thesis by (simp add: algebra_simps)
  qed
  moreover have "b * B + d < a * B + c" if "b < a"
  proof -
    from that have "(b + 1) * B \<le> a * B" using assms by (intro mult_right_mono) auto
    with assms show ?thesis by (simp add: algebra_simps)
  qed
  ultimately show ?thesis by (cases a b rule: linorder_cases) auto
qed

lemma Name_lt_abs: "Name_lt a b \<longleftrightarrow> name_abs a < name_abs b"
proof -
  have "name_abs a < name_abs b \<longleftrightarrow>
      uint (name_hi a) < uint (name_hi b) \<or>
      (uint (name_hi a) = uint (name_hi b) \<and> uint (name_low a) < uint (name_low b))"
    unfolding word_less_def uint_name_abs
    using uint_lt2p [of "name_low a"] uint_lt2p [of "name_low b"]
    by (intro concat_less_iff) simp_all
  then show ?thesis by (auto simp: Name_lt_def word_less_def)
qed

lemma Name_eq_iff [simp]: "Name_eq a b \<longleftrightarrow> a = b"
  by (cases a; cases b) (simp add: Name_eq_def)

lemma Name_neq_iff [simp]: "Name_neq a b \<longleftrightarrow> a \<noteq> b"
  by (simp add: Name_neq_def)

lemma Name_gt_lt: "Name_gt a b = Name_lt b a"
  by (simp add: Name_gt_def Name_lt_def)

instantiation Name :: linorder
begin

definition less_Name :: "Name \<Rightarrow> Name \<Rightarrow> bool" where
  "less_Name a b \<longleftrightarrow> Name_lt a b"

definition less_eq_Name :: "Name \<Rightarrow> Name \<Rightarrow> bool" where
  "less_eq_Name a b \<longleftrightarrow> Name_lt a b \<or> a = b"

instance
  by standard (auto simp: less_Name_def less_eq_Name_def Name_lt_abs simp flip: name_abs_inj)

end

text \<open>The comparison of \<^verbatim>\<open>std::map<quicr::Name, ...>\<close> separates different names.\<close>

interpretation name_order: strict_total_order Name_lt
  by unfold_locales (auto simp: Name_lt_abs simp flip: name_abs_inj)

subsection \<open>Bytes\<close>

lemma Name_index_ok:
  assumes "i < 16"
  shows "Name_index n i = Inr (byte_at (name_abs n) i)"
proof -
  have ff: "(0xff :: u64) = mask 8" by (simp add: mask_numeral)
  have "byte_at (name_abs n) i = (if i < 8 then ucast (drop_bit (i * 8) (name_low n) AND 0xff)
      else ucast (drop_bit ((i - 8) * 8) (name_hi n) AND 0xff))"
    by (rule bit_word_eqI)
      (use assms in \<open>auto simp: bit_byte_at bit_name_abs bit_simps ff algebra_simps\<close>)
  with assms show ?thesis by (auto simp: Name_index_def sizeof_Name_def)
qed

lemma Name_index_out_of_range: "16 \<le> i \<Longrightarrow> Name_index n i = Inl out_of_range"
  by (simp add: Name_index_def sizeof_Name_def)

lemma Name_memcpy_ok:
  assumes "length data \<ge> 16"
  shows "Name_memcpy data = Inr (name_of_word (of_le_bytes (take 16 data)))"
proof -
  have "Name (of_le_bytes (take 8 (drop 8 data))) (of_le_bytes (take 8 data))
      = name_of_word (of_le_bytes (take 16 data))"
  proof (rule name_eqI)
    fix i :: nat assume i: "i < 128"
    then have "i div 8 < 16" by (simp add: less_mult_imp_div_less)
    moreover have "(i - 64) div 8 = i div 8 - 8 \<and> (i - 64) mod 8 = i mod 8 \<and> 8 \<le> i div 8"
      if "64 \<le> i"
    proof -
      from that obtain j where "i = 64 + j" by (auto simp: le_iff_add)
      moreover have "(64 + j) div 8 = 8 + j div 8" "(64 + j) mod 8 = j mod 8"
        using div_mult_self2 [of 8 j 8] mod_mult_self2 [of j 8 8] by (simp_all add: add.commute)
      ultimately show ?thesis by simp
    qed
    moreover have "i div 8 < 8" if "i < 64" using that by (simp add: less_mult_imp_div_less)
    ultimately show "bit (name_abs (Name (of_le_bytes (take 8 (drop 8 data))) (of_le_bytes (take 8 data)))) i
        \<longleftrightarrow> bit (name_abs (name_of_word (of_le_bytes (take 16 data)))) i"
      using assms i by (auto simp: bit_name_abs bit_of_le_bytes not_less)
  qed
  with assms show ?thesis by (simp add: Name_memcpy_def sizeof_Name_def)
qed

lemma Name_of_ptr_cases:
  "Name_of_ptr data len =
     (if len > 32 then Inl NameException else if length data < 16 then Inl undefined_behaviour
      else Inr (name_of_word (of_le_bytes (take 16 data))))"
  by (simp add: Name_of_ptr_def Name_memcpy_ok) (simp add: Name_memcpy_def sizeof_Name_def)

lemma Name_of_vector_cases:
  "Name_of_vector data =
     (if length data > 16 then Inl NameException else if length data < 16
      then Inl undefined_behaviour else Inr (name_of_word (of_le_bytes data)))"
  by (simp add: Name_of_vector_def Name_memcpy_ok) (simp add: Name_memcpy_def sizeof_Name_def)

lemma Name_of_ptr_le_bytes: "Name_of_ptr (le_bytes 16 (name_abs n)) 16 = Inr n"
  by (simp add: Name_of_ptr_cases of_le_bytes_le_bytes)

lemma Name_of_vector_le_bytes: "Name_of_vector (le_bytes 16 (name_abs n)) = Inr n"
  by (simp add: Name_of_vector_cases of_le_bytes_le_bytes)

subsection \<open>Hexadecimal text\<close>

lemma hexchar_facts:
  assumes "b < 16"
  shows "hexchar_to_uint (uint_to_hexchar b) = b"
proof -
  have "unat b < 16" using assms by (simp add: word_less_nat_alt)
  then have "b \<in> of_nat ` {..<16}" by (intro image_eqI [of _ _ "unat b"]) simp_all
  moreover have "\<forall>k \<in> {..<16}. hexchar_to_uint (uint_to_hexchar (of_nat k)) = of_nat k"
    by (simp add: lessThan_nat_numeral lessThan_Suc) code_simp
  ultimately show ?thesis by auto
qed

lemma nibble_eq: "(y :: u64) AND 0x0F = take_bit 4 y"
  by (simp add: take_bit_eq_mask mask_numeral)

lemma nibble_less: "take_bit 4 (y :: u64) < 16"
proof -
  have "uint (take_bit 4 y) = take_bit 4 (uint y)" by (rule unsigned_take_bit_eq)
  then show ?thesis by (simp add: word_less_def take_bit_eq_mod [of 4 "uint y"])
qed

lemma div16: "((y :: u64) - (y AND 0x0F)) div 16 = drop_bit 4 y"
proof -
  have "y = push_bit 4 (drop_bit 4 y) + take_bit 4 y"
    by (rule bits_ident [symmetric])
  then have "y - (y AND 0x0F) = push_bit 4 (drop_bit 4 y)"
    unfolding nibble_eq by (metis add_diff_cancel_right')
  moreover have "drop_bit 4 (push_bit 4 (drop_bit 4 y)) = drop_bit 4 y"
    by (rule bit_word_eqI) (auto simp: bit_simps dest: bit_imp_le_length)
  ultimately show ?thesis by (simp flip: drop_bit_eq_div [of 4, simplified])
qed

lemma uint_to_hex_loop_Suc:
  "uint_to_hex_loop (Suc i) y x =
     uint_to_hex_loop i (drop_bit 4 y) (uint_to_hexchar (take_bit 4 y) # x)"
  by (simp add: Let_def div16 [unfolded nibble_eq] nibble_eq)

declare uint_to_hex_loop.simps(2) [simp del]

lemma length_uint_to_hex_loop: "length (uint_to_hex_loop i y x) = i + length x"
  by (induction i arbitrary: y x) (simp_all add: uint_to_hex_loop_Suc)

lemma length_uint_to_hex [simp]: "length (uint_to_hex y) = 16"
  by (simp add: uint_to_hex_def length_uint_to_hex_loop)

lemma take_bit_nibble_step:
  "take_bit (4 * i) (drop_bit 4 y) * 16 + take_bit 4 y = (take_bit (4 * Suc i) y :: u64)"
proof -
  have "push_bit 4 (take_bit (4 * i) (drop_bit 4 y)) + take_bit 4 y
      = push_bit 4 (take_bit (4 * i) (drop_bit 4 y)) OR take_bit 4 y"
    by (rule disjunctive_add) (auto simp: bit_simps)
  also have "\<dots> = take_bit (4 * Suc i) y"
    by (rule bit_word_eqI) (auto simp: bit_simps)
  finally show ?thesis by (simp add: push_bit_eq_mult)
qed

lemma hex_loop_roundtrip:
  "hex_to_uint_loop z (uint_to_hex_loop i y x) =
     hex_to_uint_loop (z * 16 ^ i + take_bit (4 * i) y) x"
proof (induction i arbitrary: y x)
  case 0
  show ?case by simp
next
  case (Suc i)
  have "hex_to_uint_loop z (uint_to_hex_loop (Suc i) y x)
      = hex_to_uint_loop ((z * 16 ^ i + take_bit (4 * i) (drop_bit 4 y)) * 16 + take_bit 4 y) x"
    by (simp add: uint_to_hex_loop_Suc Suc.IH hexchar_facts nibble_less)
  also have "(z * 16 ^ i + take_bit (4 * i) (drop_bit 4 y)) * 16 + take_bit 4 y
      = z * 16 ^ Suc i + take_bit (4 * Suc i) y"
    unfolding take_bit_nibble_step [symmetric] by (simp add: algebra_simps)
  finally show ?case .
qed

text \<open>Stripping a second \<open>0x\<close> prefix never changes the value: both characters count as zero.\<close>

lemma hex_to_uint_eq_loop: "hex_to_uint x = hex_to_uint_loop 0 x"
proof (cases "take 2 x = ''0x''")
  case True
  then obtain x' where "x = CHR ''0'' # CHR ''x'' # x'"
    by (cases x; cases "tl x") (auto simp: numeral_2_eq_2)
  then show ?thesis by (simp add: hex_to_uint_def remove_0x_def hexchar_to_uint_def)
next
  case False
  then show ?thesis by (simp add: hex_to_uint_def remove_0x_def)
qed

lemma hex_to_uint_of_uint_to_hex: "hex_to_uint (uint_to_hex y) = y"
proof -
  have "hex_to_uint (uint_to_hex y) = take_bit 64 y"
    by (simp add: hex_to_uint_eq_loop uint_to_hex_def hex_loop_roundtrip)
  then show ?thesis by (simp add: take_bit_word_eq_self)
qed

lemma length_Name_to_hex: "length (Name_to_hex n) = 34"
  by (simp add: Name_to_hex_def)

lemma Name_of_hex_to_hex: "Name_of_hex (Name_to_hex n) = Inr n"
  by (simp add: Name_of_hex_def Name_to_hex_def remove_0x_def sizeof_Name_def
      hex_to_uint_of_uint_to_hex)

lemma Name_of_hex_throws_iff:
  "Name_of_hex x = Inl NameException \<longleftrightarrow> length (remove_0x x) > 32"
  by (simp add: Name_of_hex_def Let_def sizeof_Name_def)

text \<open>The number a string of digits denotes, as the parser reads digits: a character that is no
  digit counts as zero.\<close>

fun hex_value :: "nat \<Rightarrow> string \<Rightarrow> nat" where
  "hex_value y [] = y"
| "hex_value y (c # x) = hex_value (y * 16 + unat (hexchar_to_uint c)) x"

lemma hex_value_add: "hex_value y x = y * 16 ^ length x + hex_value 0 x"
proof (induction x arbitrary: y)
  case Nil
  show ?case by simp
next
  case (Cons c x)
  have "hex_value y (c # x) = (y * 16 + unat (hexchar_to_uint c)) * 16 ^ length x + hex_value 0 x"
    using Cons.IH [of "y * 16 + unat (hexchar_to_uint c)"] by simp
  moreover have "hex_value 0 (c # x) = unat (hexchar_to_uint c) * 16 ^ length x + hex_value 0 x"
    using Cons.IH [of "unat (hexchar_to_uint c)"] by simp
  ultimately show ?case by (simp add: algebra_simps)
qed

lemma hex_value_append: "hex_value 0 (x @ y) = hex_value 0 x * 16 ^ length y + hex_value 0 y"
proof -
  have "hex_value z (x @ y) = hex_value (hex_value z x) y" for z
    by (induction x arbitrary: z) simp_all
  then show ?thesis using hex_value_add [of "hex_value 0 x" y] by simp
qed

lemma unat_hexchar: "unat (hexchar_to_uint c) < 16"
proof -
  have small: "unat (of_nat n :: u64) < 16" if "n < 16" for n
    using that by (simp add: unat_of_nat_word)
  show ?thesis
    unfolding hexchar_to_uint_def Let_def
    by (auto intro!: small simp del: of_nat_diff of_nat_add)
qed

lemma hex_value_bound: "hex_value 0 x < 16 ^ length x"
proof (induction x)
  case Nil
  show ?case by simp
next
  case (Cons c x)
  have "hex_value 0 (c # x) = unat (hexchar_to_uint c) * 16 ^ length x + hex_value 0 x"
    using hex_value_add [of "unat (hexchar_to_uint c)" x] by simp
  also have "\<dots> < (unat (hexchar_to_uint c) + 1) * 16 ^ length x"
    using Cons.IH by simp
  also have "\<dots> \<le> 16 * 16 ^ length x"
    using unat_hexchar [of c] by (intro mult_right_mono) auto
  finally show ?case by simp
qed

lemma hex_to_uint_loop_value: "hex_to_uint_loop (of_nat y) x = of_nat (hex_value y x)"
proof (induction x arbitrary: y)
  case Nil
  show ?case by simp
next
  case (Cons c x)
  show ?case using Cons.IH [of "y * 16 + unat (hexchar_to_uint c)"] by simp
qed

lemma unat_hex_to_uint:
  assumes "length x \<le> 16"
  shows "unat (hex_to_uint x) = hex_value 0 x"
proof -
  have "hex_value 0 x < 16 ^ 16"
    using hex_value_bound [of x] power_increasing [OF assms, of "16 :: nat"] by linarith
  then have "unat (of_nat (hex_value 0 x) :: u64) = hex_value 0 x"
    by (intro unat_of_nat_word) simp
  then show ?thesis using hex_to_uint_loop_value [of 0 x] by (simp add: hex_to_uint_eq_loop)
qed

lemma unat_name_abs: "unat (name_abs n) = unat (name_hi n) * 2 ^ 64 + unat (name_low n)"
proof -
  have "int (unat (name_abs n)) = int (unat (name_hi n) * 2 ^ 64 + unat (name_low n))"
    by (simp add: uint_name_abs)
  then show ?thesis by (simp only: of_nat_eq_iff)
qed

lemma Name_of_hex_value:
  assumes "\<not> length (remove_0x x) > 32"
  shows "map_sum id (\<lambda>m. unat (name_abs m)) (Name_of_hex x) = Inr (hex_value 0 (remove_0x x))"
proof -
  let ?h = "remove_0x x"
  let ?k = "length ?h - 16"
  have "hex_value 0 ?h = hex_value 0 (take ?k ?h) * 2 ^ 64 + hex_value 0 (drop ?k ?h)"
    if "length ?h > 16"
    using hex_value_append [of "take ?k ?h" "drop ?k ?h"] that by simp
  with assms show ?thesis
    by (auto simp: Name_of_hex_def Let_def sizeof_Name_def unat_name_abs unat_hex_to_uint)
qed

section \<open>Correctness of the operators\<close>

text \<open>C20. The shift operators of a name are the logical shifts of its 128-bit value for every
  shift count below 128; for a larger count (the type allows up to 65535) the shift of the
  64-bit half is undefined.\<close>

theorem Name_shift_correct:
  "map_sum id name_abs (Name_shr n v) =
     (if unat v < 128 then Inr (drop_bit (unat v) (name_abs n)) else Inl undefined_behaviour) \<and>
   map_sum id name_abs (Name_shl n v) =
     (if unat v < 128 then Inr (push_bit (unat v) (name_abs n)) else Inl undefined_behaviour)"
  by (simp add: Name_shr_ok Name_shl_ok Name_shr_ub Name_shl_ub)

text \<open>Addition and subtraction of a 64-bit value carry into and borrow from the high half
  exactly as 128-bit arithmetic modulo \<open>2 ^ 128\<close>, and the increment and decrement operators
  step by one and return the old or the new value.\<close>

lemma Name_arith_correct:
  "name_abs (Name_add n v) = name_abs n + ucast v \<and>
   name_abs (Name_sub n v) = name_abs n - ucast v \<and>
   Name_pre_inc n = (Name_add n 1, Name_add n 1) \<and>
   Name_post_inc n = (n, Name_add n 1) \<and>
   Name_pre_dec n = (Name_sub n 1, Name_sub n 1) \<and>
   Name_post_dec n = (n, Name_sub n 1)"
  unfolding abs_Name_add abs_Name_sub
  by (simp add: Let_def Name_pre_inc_def Name_post_inc_def Name_pre_dec_def Name_post_dec_def
      Name_add_def Name_sub_def)

text \<open>The bitwise operators act on the 128-bit values; the mixed operators take their 64-bit
  operand as the low half and leave the high half alone.\<close>

lemma Name_bitwise_correct:
  "name_abs (Name_and a b) = name_abs a AND name_abs b \<and>
   name_abs (Name_or a b) = name_abs a OR name_abs b \<and>
   name_abs (Name_xor a b) = name_abs a XOR name_abs b \<and>
   name_abs (Name_not a) = NOT (name_abs a) \<and>
   name_abs (Name_or_u64 a v) = name_abs a OR ucast v \<and>
   name_abs (Name_and_u64 a v) = name_abs a AND (NOT (mask 64) OR ucast v)"
  by (simp add: abs_Name_or_u64 abs_Name_and_u64)

text \<open>C33. The comparisons are the unsigned order of the 128-bit values, and equality is equality
  of both halves.\<close>

theorem Name_order_correct:
  "(Name_lt a b \<longleftrightarrow> name_abs a < name_abs b) \<and>
   (Name_gt a b \<longleftrightarrow> name_abs b < name_abs a) \<and>
   (Name_eq a b \<longleftrightarrow> name_abs a = name_abs b) \<and>
   (Name_neq a b \<longleftrightarrow> name_abs a \<noteq> name_abs b)"
  by (simp add: Name_gt_lt Name_lt_abs name_abs_inj)

text \<open>Printing a name gives \<open>0x\<close> and 32 digits, and parsing what was printed gives the
  name back; parsing throws exactly on more than 32 digits after an optional prefix, and
  otherwise returns the number the digits denote, most significant first.\<close>

lemma Name_hex_roundtrip:
  "Name_of_hex (Name_to_hex n) = Inr n \<and>
   length (Name_to_hex n) = 34 \<and>
   map_sum id (\<lambda>m. unat (name_abs m)) (Name_of_hex x) =
     (if length (remove_0x x) > 32 then Inl NameException else Inr (hex_value 0 (remove_0x x)))"
  by (simp add: Name_of_hex_to_hex length_Name_to_hex Name_of_hex_value
      Name_of_hex_throws_iff [THEN iffD2])

text \<open>Reading a name byte by byte and rebuilding it from the bytes gives it back, the index
  operator throws exactly from 16 on, and both array constructors read sixteen bytes whatever
  length they are given: a shorter array is read past its end, and the pointer constructor
  accepts a stated length of up to 32.\<close>

lemma Name_bytes_roundtrip:
  "Name_index n i = (if i < 16 then Inr (byte_at (name_abs n) i) else Inl out_of_range) \<and>
   Name_of_ptr (map (byte_at (name_abs n)) [0..<16]) 16 = Inr n \<and>
   Name_of_vector (map (byte_at (name_abs n)) [0..<16]) = Inr n \<and>
   Name_of_ptr data len =
     (if len > 32 then Inl NameException else if length data < 16 then Inl undefined_behaviour
      else Inr (name_of_word (of_le_bytes (take 16 data)))) \<and>
   Name_of_vector data =
     (if length data > 16 then Inl NameException else if length data < 16
      then Inl undefined_behaviour else Inr (name_of_word (of_le_bytes data)))"
  unfolding le_bytes_def [symmetric]
  by (simp add: Name_index_ok Name_index_out_of_range Name_of_ptr_le_bytes Name_of_vector_le_bytes
      Name_of_ptr_cases Name_of_vector_cases
      of_le_bytes_le_bytes)

end
