(* ===== verification/Quicr_Namespace.thy ===== *)
theory Quicr_Namespace
  imports Quicr_Name
begin

text \<open>
  \<^verbatim>\<open>quicr::Namespace\<close>, a prefix of names (\<^verbatim>\<open>include/quicr/quicr_namespace.h\<close>,
  \<^verbatim>\<open>src/quicr_namespace.cpp\<close>). The constructor masks the name to its leading \<open>sig_bits\<close> bits
  and \<open>contains\<close> compares a name masked the same way. The lemmas show that, for fewer than
  128 significant bits, this is prefix matching on 128-bit words; from 128 on the mask is
  computed by an undefined shift. Comparison looks at the masked name only, so
  the maps keyed by namespaces do not tell two prefixes of different lengths apart when
  their masked names agree.
\<close>

unbundle bit_operations_syntax

section \<open>The class\<close>

record Namespace =
  ns_name :: Name
  sig_bits :: u8

definition zero_name :: Name where
  "zero_name = Name 0 0"

text \<open>\<^verbatim>\<open>~(~0x0_name >> sig_bits)\<close>\<close>

definition prefix_mask :: "u8 \<Rightarrow> Name res" where
  "prefix_mask bits =
     rbind (Name_shr (Name_not zero_name) (ucast bits)) (\<lambda>m. Inr (Name_not m))"

definition mk_Namespace :: "Name \<Rightarrow> u8 \<Rightarrow> Namespace res" where
  "mk_Namespace name bits =
     rbind (prefix_mask bits) (\<lambda>m. Inr \<lparr>ns_name = Name_and name m, sig_bits = bits\<rparr>)"

definition contains :: "Namespace \<Rightarrow> Name \<Rightarrow> bool res" where
  "contains ns name =
     rbind (prefix_mask (sig_bits ns)) (\<lambda>m. Inr (Name_eq (Name_and name m) (ns_name ns)))"

definition contains_ns :: "Namespace \<Rightarrow> Namespace \<Rightarrow> bool res" where
  "contains_ns ns prefix = contains ns (ns_name prefix)"

definition Namespace_to_hex :: "Namespace \<Rightarrow> string" where
  "Namespace_to_hex ns = Name_to_hex (ns_name ns)"

definition Namespace_eq :: "Namespace \<Rightarrow> Namespace \<Rightarrow> bool" where
  "Namespace_eq a b \<longleftrightarrow> Name_eq (ns_name a) (ns_name b) \<and> sig_bits a = sig_bits b"

definition Namespace_neq :: "Namespace \<Rightarrow> Namespace \<Rightarrow> bool" where
  "Namespace_neq a b \<longleftrightarrow> \<not> Namespace_eq a b"

definition Namespace_gt :: "Namespace \<Rightarrow> Namespace \<Rightarrow> bool" where
  "Namespace_gt a b \<longleftrightarrow> Name_gt (ns_name a) (ns_name b)"

definition Namespace_gt_Name :: "Namespace \<Rightarrow> Name \<Rightarrow> bool" where
  "Namespace_gt_Name a b \<longleftrightarrow> Name_gt (ns_name a) b"

definition Name_gt_Namespace :: "Name \<Rightarrow> Namespace \<Rightarrow> bool" where
  "Name_gt_Namespace a b \<longleftrightarrow> Name_gt a (ns_name b)"

definition Namespace_lt :: "Namespace \<Rightarrow> Namespace \<Rightarrow> bool" where
  "Namespace_lt a b \<longleftrightarrow> Name_lt (ns_name a) (ns_name b)"

definition Namespace_lt_Name :: "Namespace \<Rightarrow> Name \<Rightarrow> bool" where
  "Namespace_lt_Name a b \<longleftrightarrow> Name_lt (ns_name a) b"

definition Name_lt_Namespace :: "Name \<Rightarrow> Namespace \<Rightarrow> bool" where
  "Name_lt_Namespace a b \<longleftrightarrow> Name_lt a (ns_name b)"

section \<open>Prefixes of 128-bit words\<close>

definition prefix_word :: "nat \<Rightarrow> 128 word" where
  "prefix_word k = NOT (mask (128 - k))"

definition has_prefix :: "nat \<Rightarrow> 128 word \<Rightarrow> 128 word \<Rightarrow> bool" where
  "has_prefix k a b \<longleftrightarrow> drop_bit (128 - k) a = drop_bit (128 - k) b"

text \<open>The invariant of a constructed namespace: fewer than 128 bits, and no bit set below them.\<close>

definition ns_wf :: "Namespace \<Rightarrow> bool" where
  "ns_wf ns \<longleftrightarrow> sig_bits ns < 128 \<and>
     name_abs (ns_name ns) AND prefix_word (unat (sig_bits ns)) = name_abs (ns_name ns)"

lemma bit_prefix_word: "bit (prefix_word k) i \<longleftrightarrow> i < 128 \<and> 128 - k \<le> i"
  by (auto simp: prefix_word_def bit_simps)

lemma sig_bits_less_iff: "(b :: u8) < 128 \<longleftrightarrow> unat b < 128"
  by (simp add: word_less_nat_alt)

lemma unat_ucast_u16 [simp]: "unat (ucast (b :: u8) :: u16) = unat b"
  using unsigned_less [where ?'a = nat, of b] by (simp add: unsigned_ucast_eq take_bit_nat_eq_self)

lemma zero_name_abs [simp]: "name_abs zero_name = 0"
  by (rule bit_word_eqI) (simp add: bit_name_abs zero_name_def)

lemma prefix_mask_ok:
  assumes "b < 128"
  shows "prefix_mask b = Inr (name_of_word (prefix_word (unat b)))"
proof -
  have "NOT (drop_bit (unat b) (NOT 0)) = prefix_word (unat b)"
    by (rule bit_word_eqI) (auto simp: bit_simps bit_prefix_word)
  then have "Name_not (name_of_word (drop_bit (unat b) (NOT 0))) = name_of_word (prefix_word (unat b))"
    by (simp flip: name_abs_inj)
  with assms show ?thesis
    by (simp add: prefix_mask_def Name_shr_ok sig_bits_less_iff)
qed

lemma prefix_mask_ub: "\<not> b < 128 \<Longrightarrow> prefix_mask b = Inl undefined_behaviour"
  by (simp add: prefix_mask_def Name_shr_ub sig_bits_less_iff)

lemma has_prefix_iff_and:
  assumes "k < 128"
  shows "has_prefix k a b \<longleftrightarrow> a AND prefix_word k = b AND prefix_word k"
proof
  assume pre: "has_prefix k a b"
  have bits: "bit a (128 - k + i) \<longleftrightarrow> bit b (128 - k + i)" for i
    using arg_cong [OF pre [unfolded has_prefix_def], of "\<lambda>w. bit w i"] by (simp add: bit_drop_bit_eq)
  have "bit a i \<longleftrightarrow> bit b i" if "128 - k \<le> i" for i
  proof -
    from that obtain j where "i = 128 - k + j" using le_Suc_ex by blast
    with bits show ?thesis by simp
  qed
  then show "a AND prefix_word k = b AND prefix_word k"
    by (intro bit_word_eqI) (auto simp: bit_simps bit_prefix_word)
next
  assume eq: "a AND prefix_word k = b AND prefix_word k"
  have "bit a i \<longleftrightarrow> bit b i" if "128 - k \<le> i" for i
    using that arg_cong [OF eq, of "\<lambda>w. bit w i"] bit_imp_le_length [of a i] bit_imp_le_length [of b i]
    by (auto simp: bit_and_iff bit_prefix_word)
  then show "has_prefix k a b"
    unfolding has_prefix_def by (intro bit_word_eqI) (simp add: bit_drop_bit_eq)
qed

lemma mk_Namespace_ok:
  assumes "b < 128"
  shows "mk_Namespace n b =
     Inr \<lparr>ns_name = name_of_word (name_abs n AND prefix_word (unat b)), sig_bits = b\<rparr>"
  using assms by (simp add: mk_Namespace_def prefix_mask_ok flip: name_abs_inj)

lemma mk_Namespace_ub: "\<not> b < 128 \<Longrightarrow> mk_Namespace n b = Inl undefined_behaviour"
  by (simp add: mk_Namespace_def prefix_mask_ub)

lemma mk_Namespace_wf: "mk_Namespace n b = Inr ns \<Longrightarrow> ns_wf ns"
  by (cases "b < 128") (auto simp: mk_Namespace_ok mk_Namespace_ub ns_wf_def and.assoc)

lemma mk_Namespace_Inr_iff:
  "mk_Namespace n b = Inr ns \<longleftrightarrow> b < 128 \<and>
     ns = \<lparr>ns_name = name_of_word (name_abs n AND prefix_word (unat b)), sig_bits = b\<rparr>"
  by (cases "b < 128") (auto simp: mk_Namespace_ok mk_Namespace_ub)

text \<open>A well-formed namespace is rebuilt from its own parts, as decoding a message does.\<close>

lemma mk_Namespace_self: "ns_wf ns \<Longrightarrow> mk_Namespace (ns_name ns) (sig_bits ns) = Inr ns"
  by (simp add: ns_wf_def mk_Namespace_ok)

lemma contains_ok:
  assumes "ns_wf ns"
  shows "contains ns n = Inr (has_prefix (unat (sig_bits ns)) (name_abs n) (name_abs (ns_name ns)))"
  using assms
  by (simp add: contains_def prefix_mask_ok ns_wf_def has_prefix_iff_and sig_bits_less_iff
      flip: name_abs_inj)

section \<open>Namespaces as keys\<close>

interpretation ns_order: strict_weak_order Namespace_lt
  by unfold_locales (auto simp: Namespace_lt_def Name_lt_abs)

lemma ns_eqv_iff: "eqv Namespace_lt a b \<longleftrightarrow> ns_name a = ns_name b"
  by (simp add: eqv_def Namespace_lt_def flip: name_order.eqv_iff_eq)

section \<open>Correctness\<close>

text \<open>C21. A namespace built from a name and a length below 128 contains exactly the names that
  agree with that name on the leading bits; a length of 128 or more is undefined behaviour,
  both when building and when matching.\<close>

theorem Namespace_prefix_match:
  "rbind (mk_Namespace n b) (\<lambda>ns. contains ns m) =
     (if unat b < 128 then Inr (has_prefix (unat b) (name_abs m) (name_abs n))
      else Inl undefined_behaviour)"
proof (cases "b < 128")
  case True
  then obtain ns where ns: "mk_Namespace n b = Inr ns" by (simp add: mk_Namespace_ok)
  then have wf: "ns_wf ns" by (rule mk_Namespace_wf)
  from ns have sb: "sig_bits ns = b"
    and abs: "name_abs (ns_name ns) = name_abs n AND prefix_word (unat b)"
    by (simp_all add: mk_Namespace_Inr_iff)
  have "has_prefix (unat b) (name_abs m) (name_abs (ns_name ns))
      \<longleftrightarrow> has_prefix (unat b) (name_abs m) (name_abs n)"
    using True by (simp add: has_prefix_iff_and sig_bits_less_iff abs and.assoc)
  with ns wf sb True show ?thesis by (simp add: contains_ok sig_bits_less_iff)
next
  case False
  then show ?thesis by (simp add: mk_Namespace_ub sig_bits_less_iff)
qed

text \<open>A longer prefix inside a shorter one: if a namespace contains a second one that is at
  least as long, it contains every name the second contains.\<close>

lemma Namespace_contains_trans:
  assumes "ns_wf a" and "ns_wf b" and "sig_bits a \<le> sig_bits b"
    and "contains_ns a b = Inr True" and "contains b n = Inr True"
  shows "contains a n = Inr True"
proof -
  let ?ka = "unat (sig_bits a)" and ?kb = "unat (sig_bits b)"
  have le: "128 - ?kb \<le> 128 - ?ka" using assms(3) by (simp add: word_le_nat_alt)
  have ab: "has_prefix ?ka (name_abs (ns_name b)) (name_abs (ns_name a))"
    and bn: "has_prefix ?kb (name_abs n) (name_abs (ns_name b))"
    using assms by (simp_all add: contains_ns_def contains_ok)
  from bn have "drop_bit (128 - ?ka - (128 - ?kb)) (drop_bit (128 - ?kb) (name_abs n))
      = drop_bit (128 - ?ka - (128 - ?kb)) (drop_bit (128 - ?kb) (name_abs (ns_name b)))"
    by (simp only: has_prefix_def)
  then have "has_prefix ?ka (name_abs n) (name_abs (ns_name b))"
    by (simp only: has_prefix_def drop_bit_drop_bit le_add_diff_inverse2 [OF le])
  with ab assms(1) show ?thesis by (simp add: contains_ok has_prefix_def)
qed

lemma Namespace_contains_trans_sample:
  "contains \<lparr>ns_name = zero_name, sig_bits = 8\<rparr> (Name 0 5) = Inr True"
  by (rule Namespace_contains_trans [where b = "\<lparr>ns_name = zero_name, sig_bits = 16\<rparr>"])
    code_simp+

text \<open>The order of namespaces ignores their length: for a map keyed by namespaces, two
  namespaces are the same key exactly when their masked names are equal, so prefixes of
  different lengths (which are different namespaces) can share one entry.\<close>

lemma Namespace_key_ignores_length:
  "(eqv Namespace_lt a b \<longleftrightarrow> ns_name a = ns_name b) \<and>
   (\<exists>x y :: Namespace. ns_wf x \<and> ns_wf y \<and> Namespace_neq x y \<and> eqv Namespace_lt x y)"
proof
  show "eqv Namespace_lt a b \<longleftrightarrow> ns_name a = ns_name b" by (rule ns_eqv_iff)
  let ?x = "\<lparr>ns_name = zero_name, sig_bits = 8\<rparr>" and ?y = "\<lparr>ns_name = zero_name, sig_bits = 16\<rparr>"
  have "ns_wf ?x \<and> ns_wf ?y \<and> Namespace_neq ?x ?y \<and> eqv Namespace_lt ?x ?y"
    by (simp add: ns_wf_def Namespace_neq_def Namespace_eq_def ns_eqv_iff)
  then show "\<exists>x y :: Namespace. ns_wf x \<and> ns_wf y \<and> Namespace_neq x y \<and> eqv Namespace_lt x y"
    by blast
qed

end
