(* ===== verification/Message_Buffer.thy ===== *)
theory Message_Buffer
  imports Quicr_Namespace
begin

text \<open>
  \<^verbatim>\<open>quicr::uintVar_t\<close> and \<^verbatim>\<open>quicr::messages::MessageBuffer\<close> (\<^verbatim>\<open>include/quicr/message_buffer.h\<close>,
  \<^verbatim>\<open>src/message_buffer.cpp\<close>): a growing byte vector, read from the front, with the stream
  operators for unsigned integers, variable-length integers and byte vectors. A buffer is the
  list of its bytes. Every \<open>put_\<close> operation takes the buffer and the value and returns the new
  buffer or the exception; every \<open>get_\<close> operation is a decoder. The wire format of each type
  is the function \<open>enc_\<close>, and the locale \<open>wire\<close> states what the three owe each other.
\<close>

unbundle bit_operations_syntax

section \<open>Variable-length integers\<close>

text \<open>A \<open>uintVar_t\<close> is the 64-bit value it holds; the converting constructor and the assignment
  from \<^verbatim>\<open>uint64_t\<close> reject values from \<open>2 ^ 61\<close> on.\<close>

type_synonym uintVar_t = u64

definition mk_uintVar :: "u64 \<Rightarrow> uintVar_t res" where
  "mk_uintVar value = (if value \<ge> push_bit 61 1 then Inl runtime_error else Inr value)"

section \<open>The buffer\<close>

definition mb_empty :: "bytes \<Rightarrow> bool" where
  "mb_empty buf \<longleftrightarrow> buf = []"

definition push_u8 :: "bytes \<Rightarrow> u8 \<Rightarrow> bytes" where
  "push_u8 buf t = buf @ [t]"

definition pop :: "bytes \<Rightarrow> bytes res" where
  "pop buf = (if mb_empty buf then Inl ReadException else Inr (drop 1 buf))"

definition front :: "bytes \<Rightarrow> u8 res" where
  "front buf = (case buf of [] \<Rightarrow> Inl undefined_behaviour | b # _ \<Rightarrow> Inr b)"

definition push_bytes :: "bytes \<Rightarrow> bytes \<Rightarrow> bytes" where
  "push_bytes buf data = buf @ data"

definition pop_len :: "bytes \<Rightarrow> u16 \<Rightarrow> bytes res" where
  "pop_len buf len =
     (if len = 0 then Inr buf
      else if unat len > length buf then Inl OutOfRangeException
      else Inr (drop (unat len) buf))"

definition front_len :: "bytes \<Rightarrow> u16 \<Rightarrow> bytes res" where
  "front_len buf len =
     (if len = 0 then Inr []
      else if unat len > length buf then Inl OutOfRangeException
      else Inr (take (unat len) buf))"

definition pop_front :: "u16 \<Rightarrow> bytes decoder" where
  "pop_front len buf =
     (if len = 0 then Inr ([], buf)
      else if unat len > length buf then Inl OutOfRangeException
      else Inr (take (unat len) buf, drop (unat len) buf))"

text \<open>\<^verbatim>\<open>get()\<close> moves the bytes out and leaves the buffer empty.\<close>

definition mb_get :: "bytes \<Rightarrow> bytes \<times> bytes" where
  "mb_get buf = (buf, [])"

definition hex_digit_lower :: "nat \<Rightarrow> char" where
  "hex_digit_lower d = char_of (if d < 10 then 48 + d else 87 + d)"

definition mb_to_hex :: "bytes \<Rightarrow> string" where
  "mb_to_hex buf =
     concat (map (\<lambda>b. [hex_digit_lower (unat b div 16), hex_digit_lower (unat b mod 16)]) buf)"

section \<open>Fixed-width integers, big-endian on the wire\<close>

definition swap_bytes16 :: "u16 \<Rightarrow> u16" where
  "swap_bytes16 v = (drop_bit 8 v AND 0x00ff) OR (push_bit 8 v AND 0xff00)"

definition swap_bytes32 :: "u32 \<Rightarrow> u32" where
  "swap_bytes32 v =
     (drop_bit 24 v AND 0x000000ff) OR
     (drop_bit 8 v AND 0x0000ff00) OR
     (push_bit 8 v AND 0x00ff0000) OR
     (push_bit 24 v AND 0xff000000)"

definition swap_bytes64 :: "u64 \<Rightarrow> u64" where
  "swap_bytes64 v =
     (drop_bit 56 v AND 0x00000000000000ff) OR
     (drop_bit 40 v AND 0x000000000000ff00) OR
     (drop_bit 24 v AND 0x0000000000ff0000) OR
     (drop_bit 8 v AND 0x00000000ff000000) OR
     (push_bit 8 v AND 0x000000ff00000000) OR
     (push_bit 24 v AND 0x0000ff0000000000) OR
     (push_bit 40 v AND 0x00ff000000000000) OR
     (push_bit 56 v AND 0xff00000000000000)"

text \<open>The template operators at \<open>sizeof(Uint_t) = n\<close>, then their three instances.\<close>

definition put_uint :: "('a::len word \<Rightarrow> 'a word) \<Rightarrow> nat \<Rightarrow> bytes \<Rightarrow> 'a word \<Rightarrow> bytes res" where
  "put_uint swap n buf val = Inr (buf @ le_bytes n (swap val))"

definition get_uint :: "('a::len word \<Rightarrow> 'a word) \<Rightarrow> nat \<Rightarrow> 'a word decoder" where
  "get_uint swap n buf =
     (if mb_empty buf then Inl ReadException
      else if length buf < n then Inl ReadException
      else Inr (swap (of_le_bytes (take n buf)), drop n buf))"

definition put_u16 :: "bytes \<Rightarrow> u16 \<Rightarrow> bytes res" where
  "put_u16 = put_uint swap_bytes16 2"

definition put_u32 :: "bytes \<Rightarrow> u32 \<Rightarrow> bytes res" where
  "put_u32 = put_uint swap_bytes32 4"

definition put_u64 :: "bytes \<Rightarrow> u64 \<Rightarrow> bytes res" where
  "put_u64 = put_uint swap_bytes64 8"

definition get_u16 :: "u16 decoder" where
  "get_u16 = get_uint swap_bytes16 2"

definition get_u32 :: "u32 decoder" where
  "get_u32 = get_uint swap_bytes32 4"

definition get_u64 :: "u64 decoder" where
  "get_u64 = get_uint swap_bytes64 8"

definition put_u8 :: "bytes \<Rightarrow> u8 \<Rightarrow> bytes res" where
  "put_u8 buf val = Inr (push_u8 buf val)"

definition get_u8 :: "u8 decoder" where
  "get_u8 buf =
     (if mb_empty buf then Inl ReadException
      else rbind (front buf) (\<lambda>val. rbind (pop buf) (\<lambda>rest. Inr (val, rest))))"

section \<open>Variable-length integers and byte vectors\<close>

definition put_uintVar :: "bytes \<Rightarrow> uintVar_t \<Rightarrow> bytes res" where
  "put_uintVar buf val =
     (if val < push_bit 7 1 then
        Inr (push_u8 buf (ucast (drop_bit 0 val AND 0x7F) OR 0x00))
      else if val < push_bit 14 1 then
        Inr (push_u8 (push_u8 buf
          (ucast ((drop_bit 8 val AND 0x3F) OR 0x80)))
          (ucast (drop_bit 0 val AND 0xFF)))
      else if val < push_bit 29 1 then
        Inr (push_u8 (push_u8 (push_u8 (push_u8 buf
          (ucast ((drop_bit 24 val AND 0x1F) OR 0x80 OR 0x40)))
          (ucast (drop_bit 16 val AND 0xFF)))
          (ucast (drop_bit 8 val AND 0xFF)))
          (ucast (drop_bit 0 val AND 0xFF)))
      else
        Inr (push_u8 (push_u8 (push_u8 (push_u8 (push_u8 (push_u8 (push_u8 (push_u8 buf
          (ucast ((drop_bit 56 val AND 0x0F) OR 0x80 OR 0x40 OR 0x20)))
          (ucast (drop_bit 48 val AND 0xFF)))
          (ucast (drop_bit 40 val AND 0xFF)))
          (ucast (drop_bit 32 val AND 0xFF)))
          (ucast (drop_bit 24 val AND 0xFF)))
          (ucast (drop_bit 16 val AND 0xFF)))
          (ucast (drop_bit 8 val AND 0xFF)))
          (ucast (drop_bit 0 val AND 0xFF))))"

definition get_uintVar :: "uintVar_t decoder" where
  "get_uintVar buf =
     rbind (front buf) (\<lambda>first.
     if first AND 0x80 = 0 then
       dbind get_u8 (\<lambda>b0.
       dlift (mk_uintVar (ucast (b0 AND 0x7F)))) buf
     else if first AND (0x80 OR 0x40) = 0x80 then
       dbind get_u8 (\<lambda>b1.
       dbind get_u8 (\<lambda>b0.
       let val = push_bit 8 ((ucast b1 :: u16) AND 0x3F) + (ucast b0 :: u16) in
       dlift (mk_uintVar (ucast val)))) buf
     else if first AND (0x80 OR 0x40 OR 0x20) = (0x80 OR 0x40) then
       dbind get_u8 (\<lambda>b3.
       dbind get_u8 (\<lambda>b2.
       dbind get_u8 (\<lambda>b1.
       dbind get_u8 (\<lambda>b0.
       let val = push_bit 24 (ucast (b3 AND 0x1F) :: u32) + push_bit 16 (ucast b2 :: u32) +
                 push_bit 8 (ucast b1 :: u32) + (ucast b0 :: u32) in
       dlift (mk_uintVar (ucast val)))))) buf
     else
       dbind get_u8 (\<lambda>b7.
       dbind get_u8 (\<lambda>b6.
       dbind get_u8 (\<lambda>b5.
       dbind get_u8 (\<lambda>b4.
       dbind get_u8 (\<lambda>b3.
       dbind get_u8 (\<lambda>b2.
       dbind get_u8 (\<lambda>b1.
       dbind get_u8 (\<lambda>b0.
       let val = push_bit 56 (ucast (b7 AND 0x0F) :: u64) +
                 push_bit 48 (ucast b6 :: u64) + push_bit 40 (ucast b5 :: u64) +
                 push_bit 32 (ucast b4 :: u64) + push_bit 24 (ucast b3 :: u64) +
                 push_bit 16 (ucast b2 :: u64) + push_bit 8 (ucast b1 :: u64) +
                 (ucast b0 :: u64) in
       dlift (mk_uintVar val))))))))) buf)"

definition put_bytes :: "bytes \<Rightarrow> bytes \<Rightarrow> bytes res" where
  "put_bytes buf val =
     rbind (mk_uintVar (of_nat (length val))) (\<lambda>n.
     rbind (put_uintVar buf n) (\<lambda>buf.
     Inr (push_bytes buf val)))"

text \<open>The length is passed to \<^verbatim>\<open>pop_front(uint16_t)\<close>, which keeps its low 16 bits.\<close>

definition get_bytes :: "bytes decoder" where
  "get_bytes = dbind get_uintVar (\<lambda>vec_size. pop_front (ucast vec_size))"

section \<open>Byte order\<close>

lemma of_le_bytes_plus: "of_le_bytes (b # bs) = ucast b + push_bit 8 (of_le_bytes bs :: 'a::len word)"
proof -
  have "(ucast b :: 'a word) + push_bit 8 (of_le_bytes bs) = ucast b OR push_bit 8 (of_le_bytes bs)"
  proof (rule disjunctive_add)
    fix i show "\<not> bit (ucast b :: 'a word) i \<or> \<not> bit (push_bit 8 (of_le_bytes bs) :: 'a word) i"
      using bit_imp_le_length [of b i] by (auto simp: bit_simps)
  qed
  then show ?thesis by simp
qed

lemma of_le_bytes_le_bytes_take:
  "of_le_bytes (le_bytes n v) = (take_bit (8 * n) v :: 'a::len word)"
proof (rule bit_word_eqI)
  fix j assume j: "j < LENGTH('a)"
  have "j div 8 < n \<longleftrightarrow> j < 8 * n" by (simp add: div_less_iff_less_mult mult.commute)
  with j show "bit (of_le_bytes (le_bytes n v) :: 'a word) j \<longleftrightarrow> bit (take_bit (8 * n) v) j"
    by (auto simp: bit_of_le_bytes bit_byte_at bit_take_bit_iff)
qed

lemma ucast_of_le_bytes:
  assumes "8 * length bs \<le> LENGTH('a)"
  shows "ucast (of_le_bytes bs :: 'a::len word) = (of_le_bytes bs :: 'b::len word)"
proof (rule bit_word_eqI)
  fix j assume j: "j < LENGTH('b)"
  have "j < LENGTH('a)" if "j div 8 < length bs"
    using that assms by (simp add: div_less_iff_less_mult mult.commute)
  with j show "bit (ucast (of_le_bytes bs :: 'a word) :: 'b word) j \<longleftrightarrow> bit (of_le_bytes bs :: 'b word) j"
    by (auto simp: bit_ucast_iff bit_of_le_bytes)
qed

lemma masks16 [byte_masks]:
  "(0x00ff :: u16) = mask 8" "(0xff00 :: u16) = push_bit 8 (mask 8)"
  by (simp_all add: mask_numeral)

lemma masks32 [byte_masks]:
  "(0x000000ff :: u32) = mask 8" "(0x0000ff00 :: u32) = push_bit 8 (mask 8)"
  "(0x00ff0000 :: u32) = push_bit 16 (mask 8)" "(0xff000000 :: u32) = push_bit 24 (mask 8)"
  by (simp_all add: mask_numeral)

lemma masks64 [byte_masks]:
  "(0x00000000000000ff :: u64) = mask 8" "(0x000000000000ff00 :: u64) = push_bit 8 (mask 8)"
  "(0x0000000000ff0000 :: u64) = push_bit 16 (mask 8)"
  "(0x00000000ff000000 :: u64) = push_bit 24 (mask 8)"
  "(0x000000ff00000000 :: u64) = push_bit 32 (mask 8)"
  "(0x0000ff0000000000 :: u64) = push_bit 40 (mask 8)"
  "(0x00ff000000000000 :: u64) = push_bit 48 (mask 8)"
  "(0xff00000000000000 :: u64) = push_bit 56 (mask 8)"
  by (simp_all add: mask_numeral)

lemma byte_at_swap16: "i < 2 \<Longrightarrow> byte_at (swap_bytes16 v) i = byte_at v (1 - i)"
  by (rule bit_word_eqI)
    (auto simp: bit_byte_at swap_bytes16_def byte_masks bit_simps less_2_cases_iff)

lemma byte_at_swap32: "i < 4 \<Longrightarrow> byte_at (swap_bytes32 v) i = byte_at v (3 - i)"
proof -
  assume "i < 4"
  then consider "i = 0" | "i = 1" | "i = 2" | "i = 3" by linarith
  then show ?thesis
    by cases (rule bit_word_eqI; simp add: bit_byte_at swap_bytes32_def byte_masks bit_simps; fail)+
qed

lemma byte_at_swap64: "i < 8 \<Longrightarrow> byte_at (swap_bytes64 v) i = byte_at v (7 - i)"
proof -
  assume "i < 8"
  then consider "i = 0" | "i = 1" | "i = 2" | "i = 3" | "i = 4" | "i = 5" | "i = 6" | "i = 7"
    by linarith
  then show ?thesis
    by cases (rule bit_word_eqI; simp add: bit_byte_at swap_bytes64_def byte_masks bit_simps; fail)+
qed

lemma rev_le_bytes_swap:
  assumes "\<And>i. i < n \<Longrightarrow> byte_at (swap v) i = byte_at v (n - Suc i)"
  shows "le_bytes n (swap v) = rev (le_bytes n v)"
  by (rule nth_equalityI) (simp_all add: assms rev_nth)

lemma le_bytes_swap16: "le_bytes 2 (swap_bytes16 v) = rev (le_bytes 2 v)"
  by (rule rev_le_bytes_swap) (simp add: byte_at_swap16)

lemma le_bytes_swap32: "le_bytes 4 (swap_bytes32 v) = rev (le_bytes 4 v)"
  by (rule rev_le_bytes_swap) (simp add: byte_at_swap32 numeral_3_eq_3)

lemma le_bytes_swap64: "le_bytes 8 (swap_bytes64 v) = rev (le_bytes 8 v)"
  by (rule rev_le_bytes_swap) (simp add: byte_at_swap64)

section \<open>The contract of the stream operators\<close>

text \<open>\<open>enc\<close> is the wire format: inserting a value appends its encoding, extracting reads it back
  and leaves what follows. The laws hold for the values of \<open>ok\<close>.\<close>

locale wire =
  fixes put :: "bytes \<Rightarrow> 'a \<Rightarrow> bytes res"
    and get :: "'a decoder"
    and enc :: "'a \<Rightarrow> bytes"
    and ok :: "'a \<Rightarrow> bool"
  assumes put_enc: "ok x \<Longrightarrow> put buf x = Inr (buf @ enc x)"
    and get_enc: "ok x \<Longrightarrow> get (enc x @ rest) = Inr (x, rest)"
begin

sublocale codec enc get ok
  by unfold_locales (rule get_enc)

lemma put_get:
  assumes "ok x"
  shows "rbind (put [] x) get = Inr (x, [])"
  using put_enc [OF assms, of "[]"] get_enc [OF assms, of "[]"] by simp

lemma rbind_put:
  assumes "ok x"
  shows "rbind (put buf x) f = f (buf @ enc x)"
  using put_enc [OF assms] by simp

text \<open>A sequence of values written one after the other is read back in order.\<close>

lemma put_all_get_all:
  assumes "\<forall>x \<in> set xs. ok x"
  shows "foldl (\<lambda>acc x. rbind acc (\<lambda>buf. put buf x)) (Inr buf) xs = Inr (buf @ concat (map enc xs))"
  using assms
proof (induction xs arbitrary: buf)
  case Nil
  show ?case by simp
next
  case (Cons x xs)
  then have "put buf x = Inr (buf @ enc x)" by (simp add: put_enc)
  with Cons show ?case by simp
qed

end

section \<open>Wire formats of the integers\<close>

definition enc_u8 :: "u8 \<Rightarrow> bytes" where
  "enc_u8 v = [v]"

definition enc_uint :: "nat \<Rightarrow> 'a::len word \<Rightarrow> bytes" where
  "enc_uint n v = rev (le_bytes n v)"

definition uintVar_length :: "uintVar_t \<Rightarrow> nat" where
  "uintVar_length v = (if v < 2 ^ 7 then 1 else if v < 2 ^ 14 then 2 else if v < 2 ^ 29 then 4 else 8)"

definition enc_uintVar :: "uintVar_t \<Rightarrow> bytes" where
  "enc_uintVar v =
     (if v < 2 ^ 7 then [byte_at v 0]
      else if v < 2 ^ 14 then [(byte_at v 1 AND 0x3F) OR 0x80, byte_at v 0]
      else if v < 2 ^ 29 then
        [(byte_at v 3 AND 0x1F) OR 0xC0, byte_at v 2, byte_at v 1, byte_at v 0]
      else
        [(byte_at v 7 AND 0x0F) OR 0xE0, byte_at v 6, byte_at v 5, byte_at v 4,
         byte_at v 3, byte_at v 2, byte_at v 1, byte_at v 0])"

lemma length_enc_uint [simp]: "length (enc_uint n v) = n"
  by (simp add: enc_uint_def)

lemma length_enc_uintVar [simp]: "length (enc_uintVar v) = uintVar_length v"
  by (simp add: enc_uintVar_def uintVar_length_def)

lemma enc_uint_not_Nil: "0 < n \<Longrightarrow> enc_uint n v @ rest \<noteq> []"
  by (metis append_is_Nil_conv length_enc_uint list.size(3) less_irrefl)

lemma get_put_uint:
  assumes swap: "\<And>w :: 'a::len word. le_bytes n (swap w) = rev (le_bytes n w)"
    and n: "LENGTH('a) = 8 * n"
  shows "put_uint swap n buf v = Inr (buf @ enc_uint n v)"
    and "get_uint swap n (enc_uint n v @ rest) = Inr (v, rest)"
proof -
  show "put_uint swap n buf v = Inr (buf @ enc_uint n v)"
    by (simp add: put_uint_def enc_uint_def swap)
  have "0 < n" using n len_gt_0 [where ?'a = 'a] by simp
  then have "\<not> mb_empty (enc_uint n v @ rest)"
    using enc_uint_not_Nil [of n v rest] by (simp add: mb_empty_def)
  moreover have "of_le_bytes (enc_uint n v) = swap v"
    using n by (simp add: enc_uint_def of_le_bytes_le_bytes flip: swap)
  moreover have "swap (swap v) = v"
  proof -
    have "le_bytes n (swap (swap v)) = le_bytes n v" by (simp add: swap)
    then have "(of_le_bytes (le_bytes n (swap (swap v))) :: 'a word) = of_le_bytes (le_bytes n v)"
      by simp
    with n show ?thesis by (simp add: of_le_bytes_le_bytes)
  qed
  ultimately show "get_uint swap n (enc_uint n v @ rest) = Inr (v, rest)"
    by (simp add: get_uint_def)
qed

interpretation u16: wire put_u16 get_u16 "enc_uint 2" "\<lambda>_. True"
  by unfold_locales
    (simp_all add: put_u16_def get_u16_def get_put_uint [OF le_bytes_swap16])

interpretation u32: wire put_u32 get_u32 "enc_uint 4" "\<lambda>_. True"
  by unfold_locales
    (simp_all add: put_u32_def get_u32_def get_put_uint [OF le_bytes_swap32])

interpretation u64: wire put_u64 get_u64 "enc_uint 8" "\<lambda>_. True"
  by unfold_locales
    (simp_all add: put_u64_def get_u64_def get_put_uint [OF le_bytes_swap64])

lemma get_u8_Cons [simp]: "get_u8 (b # buf) = Inr (b, buf)"
  by (simp add: get_u8_def mb_empty_def front_def pop_def)

lemma get_u8_Nil [simp]: "get_u8 [] = Inl ReadException"
  by (simp add: get_u8_def mb_empty_def)

interpretation u8: wire put_u8 get_u8 enc_u8 "\<lambda>_. True"
  by unfold_locales (simp_all add: put_u8_def enc_u8_def push_u8_def)

section \<open>Variable-length integers\<close>

lemma mk_uintVar_ok: "v < 2 ^ 61 \<Longrightarrow> mk_uintVar v = Inr v"
  by (simp add: mk_uintVar_def push_bit_eq_mult not_le)

lemma mk_uintVar_throws: "\<not> v < 2 ^ 61 \<Longrightarrow> mk_uintVar v = Inl runtime_error"
  by (simp add: mk_uintVar_def push_bit_eq_mult not_less)

lemma byte_mask_literals:
  "(0x7F :: u8) = mask 7" "(0x3F :: u8) = mask 6" "(0x1F :: u8) = mask 5" "(0x0F :: u8) = mask 4"
  "(0x7F :: u64) = mask 7" "(0x3F :: u64) = mask 6" "(0x1F :: u64) = mask 5" "(0x0F :: u64) = mask 4"
  by (simp_all add: mask_numeral)

lemma byte_of_shift: "ucast (drop_bit k v AND 0xFF :: u64) = (ucast (drop_bit k v) :: u8)"
  by (rule bit_word_eqI) (simp add: bit_simps byte_masks)

lemma put_uintVar_enc: "put_uintVar buf v = Inr (buf @ enc_uintVar v)"
proof -
  have a: "ucast (x OR y :: u64) = (ucast x OR ucast y :: u8)" for x y
    by (rule bit_word_eqI) (simp add: bit_simps)
  have b: "ucast (x AND mask k :: u64) = (ucast x AND mask k :: u8)" for x k
    by (rule bit_word_eqI) (auto simp: bit_simps)
  have c: "v AND mask 7 = v" if "v < 128"
    using that word_less_exp_iff [of 7 v] by (simp add: take_bit_eq_mask)
  show ?thesis
    using c
    by (simp add: put_uintVar_def enc_uintVar_def push_u8_def byte_of_shift
        byte_of_shift [of 0, simplified] byte_at_def a b
        byte_mask_literals push_bit_eq_mult)
qed

text \<open>The tag bits of the first byte select the branch that reads the value back.\<close>

lemma tag_small:
  assumes "b < 2 ^ 7"
  shows "b AND 0x80 = (0 :: u8)"
proof (rule bit_word_eqI)
  fix n
  have "bit (0x80 :: u8) n \<longleftrightarrow> n = 7"
    using bit_exp_iff [where ?'a = "8 word", of 7 n]
    by (auto dest: bit_imp_le_length)
  then show "bit (b AND 0x80) n \<longleftrightarrow> bit (0 :: u8) n"
    using bit_less_exp [OF assms, of n] by (auto simp: bit_and_iff)
qed

lemma tag_bits:
  "((b AND 0x3F) OR 0x80) AND 0x80 = (0x80 :: u8)"
  "((b AND 0x3F) OR 0x80) AND 0xC0 = (0x80 :: u8)"
  "((b AND 0x1F) OR 0xC0) AND 0x80 = (0x80 :: u8)"
  "((b AND 0x1F) OR 0xC0) AND 0xC0 = (0xC0 :: u8)"
  "((b AND 0x1F) OR 0xC0) AND 0xE0 = (0xC0 :: u8)"
  "((b AND 0x0F) OR 0xE0) AND 0x80 = (0x80 :: u8)"
  "((b AND 0x0F) OR 0xE0) AND 0xC0 = (0xC0 :: u8)"
  "((b AND 0x0F) OR 0xE0) AND 0xE0 = (0xE0 :: u8)"
  "((b AND 0x3F) OR 0x80) AND 0x3F = (b AND 0x3F :: u8)"
  "((b AND 0x1F) OR 0xC0) AND 0x1F = (b AND 0x1F :: u8)"
  "((b AND 0x0F) OR 0xE0) AND 0x0F = (b AND 0x0F :: u8)"
  by (simp_all add: bit.conj_disj_distrib2 and.assoc)

text \<open>The sums of shifted bytes are the numbers whose little-endian bytes they are.\<close>

lemma sum2: "push_bit 8 x + (ucast b0 :: u16) = of_le_bytes [b0, b1]" if "x = ucast b1"
  unfolding that of_le_bytes_plus by (simp add: push_bit_eq_mult algebra_simps)

lemma sum4:
  "push_bit 24 (ucast b3) + push_bit 16 (ucast b2) + push_bit 8 (ucast b1) + ucast b0
     = (of_le_bytes [b0, b1, b2, b3] :: u32)"
  unfolding of_le_bytes_plus by (simp add: push_bit_eq_mult algebra_simps)

lemma sum8:
  "push_bit 56 (ucast b7) + push_bit 48 (ucast b6) + push_bit 40 (ucast b5) +
   push_bit 32 (ucast b4) + push_bit 24 (ucast b3) + push_bit 16 (ucast b2) +
   push_bit 8 (ucast b1) + ucast b0 = (of_le_bytes [b0, b1, b2, b3, b4, b5, b6, b7] :: u64)"
  unfolding of_le_bytes_plus by (simp add: push_bit_eq_mult algebra_simps)

lemma ucast_and_3F: "(ucast b AND 0x3F :: u16) = ucast (b AND 0x3F :: u8)"
proof -
  have lit: "(0x3F :: u16) = mask 6" by (simp add: mask_numeral)
  show ?thesis
    unfolding lit byte_mask_literals
    by (rule bit_word_eqI) (auto simp: bit_simps dest: bit_imp_le_length)
qed

text \<open>The low bytes of a value, the last one cut to \<open>m\<close> bits, give its low \<open>8 * k + m\<close> bits.\<close>

lemma of_le_bytes_cut:
  assumes "m \<le> 8" and "k < 8"
  shows "of_le_bytes (le_bytes k v @ [byte_at v k AND mask m]) = take_bit (8 * k + m) (v :: u64)"
proof (rule bit_word_eqI)
  fix j assume j: "j < LENGTH(64)"
  consider "j < 8 * k" | "j div 8 = k" | "Suc k \<le> j div 8"
    by (metis div_less_iff_less_mult less_Suc_eq not_less_eq_eq not_less mult.commute zero_less_numeral)
  then show "bit (of_le_bytes (le_bytes k v @ [byte_at v k AND mask m]) :: u64) j
      \<longleftrightarrow> bit (take_bit (8 * k + m) v) j"
  proof cases
    case 1
    then have "j div 8 < k" by (simp add: div_less_iff_less_mult mult.commute)
    with 1 j show ?thesis by (simp add: bit_of_le_bytes nth_append bit_byte_at bit_take_bit_iff)
  next
    case 2
    then have "j mod 8 < m \<longleftrightarrow> j < 8 * k + m" by (metis add_less_cancel_left mult_div_mod_eq)
    with 2 j show ?thesis
      by (auto simp: bit_of_le_bytes nth_append bit_byte_at bit_take_bit_iff bit_simps)
  next
    case 3
    then have "8 * Suc k \<le> j" by (metis div_le_mono le_div_geq less_eq_div_iff_mult_less_eq mult.commute zero_less_numeral)
    with 3 assms j show ?thesis by (simp add: bit_of_le_bytes bit_take_bit_iff)
  qed
qed

lemma get_uintVar_1:
  assumes "v < 2 ^ 7" shows "get_uintVar (enc_uintVar v @ rest) = Inr (v, rest)"
proof -
  have v: "bit v i \<Longrightarrow> i < 7" for i using assms by (rule bit_less_exp)
  have b: "byte_at v 0 < 2 ^ 7"
  proof (subst word_less_exp_iff)
    show "take_bit 7 (byte_at v 0) = byte_at v 0"
      by (rule bit_word_eqI) (auto simp: bit_byte_at bit_take_bit_iff dest: v)
  qed simp
  have "(ucast (byte_at v 0 AND 0x7F) :: u64) = v"
    unfolding byte_mask_literals
    by (rule bit_word_eqI) (auto simp: bit_byte_at bit_simps dest: v)
  moreover have "v < 2 ^ 61" using assms by (rule order.strict_trans) simp
  ultimately show ?thesis using assms
    by (simp add: enc_uintVar_def get_uintVar_def front_def tag_small [OF b] dbind_def mk_uintVar_ok)
qed
lemma get_uintVar_4:
  assumes "\<not> v < 2 ^ 29" shows "get_uintVar (enc_uintVar v @ rest) = Inr (take_bit 60 v, rest)"
proof -
  let ?b = "byte_at v"
  have "(of_le_bytes [?b 0, ?b 1, ?b 2, ?b 3, ?b 4, ?b 5, ?b 6, ?b 7 AND 0x0F] :: u64) = take_bit 60 v"
    using of_le_bytes_cut [of 4 7 v] by (simp add: le_bytes_def byte_mask_literals upt_rec eval_nat_numeral del: of_le_bytes.simps)
  moreover have "take_bit 60 v < 2 ^ 61" 
    by (subst word_less_exp_iff) (simp_all)
  moreover have "\<not> v < 2 ^ 7" "\<not> v < 2 ^ 14"
    using assms order.strict_trans [of v "2 ^ 7" "2 ^ 29"] order.strict_trans [of v "2 ^ 14" "2 ^ 29"] by auto
  ultimately show ?thesis using assms
      by (simp add: enc_uintVar_def get_uintVar_def front_def tag_bits dbind_def sum8 mk_uintVar_ok del: of_le_bytes.simps)
qed
lemma get_uintVar_2:
  assumes "\<not> v < 2 ^ 7" "v < 2 ^ 14" shows "get_uintVar (enc_uintVar v @ rest) = Inr (v, rest)"
proof -
  let ?b = "byte_at v"
  have v: "of_le_bytes [?b 0, ?b 1 AND 0x3F] = v"
    using assms(2) of_le_bytes_cut [of 6 1 v] word_less_exp_iff [of 14 v]
    by (simp add: le_bytes_def byte_mask_literals del: of_le_bytes.simps)
  have "ucast (of_le_bytes [?b 0, ?b 1 AND 0x3F] :: u16) = v"
    using v ucast_of_le_bytes [where ?'a = 16 and ?'b = 64, of "[?b 0, ?b 1 AND 0x3F]"] by simp
  moreover have "v < 2 ^ 61" using assms(2) by (rule order.strict_trans) simp
  ultimately show ?thesis using assms
      by (simp add: enc_uintVar_def get_uintVar_def front_def tag_bits dbind_def mk_uintVar_ok ucast_and_3F sum2 [OF refl] del: of_le_bytes.simps)
qed
lemma get_uintVar_3:
  assumes "\<not> v < 2 ^ 14" "v < 2 ^ 29" shows "get_uintVar (enc_uintVar v @ rest) = Inr (v, rest)"
proof -
  let ?b = "byte_at v"
  have v: "of_le_bytes [?b 0, ?b 1, ?b 2, ?b 3 AND 0x1F] = v"
    using assms(2) of_le_bytes_cut [of 5 3 v] word_less_exp_iff [of 29 v]
    by (simp add: le_bytes_def byte_mask_literals upt_rec eval_nat_numeral del: of_le_bytes.simps)
  have "ucast (of_le_bytes [?b 0, ?b 1, ?b 2, ?b 3 AND 0x1F] :: u32) = v"
    using v ucast_of_le_bytes [where ?'a = 32 and ?'b = 64, of "[?b 0, ?b 1, ?b 2, ?b 3 AND 0x1F]"] by simp
  moreover have "v < 2 ^ 61" using assms(2) by (rule order.strict_trans) simp
  moreover have "\<not> v < 2 ^ 7"
    using assms order.strict_trans [of v "2 ^ 7" "2 ^ 14"] by auto
  ultimately show ?thesis using assms
      by (simp add: enc_uintVar_def get_uintVar_def front_def tag_bits dbind_def mk_uintVar_ok sum4 del: of_le_bytes.simps)
qed
lemma get_uintVar_enc: "get_uintVar (enc_uintVar v @ rest) = Inr (take_bit 60 v, rest)"
proof -
  have t: "take_bit 60 v = v" if "v < 2 ^ 29"
    using order.strict_trans [OF that, of "2 ^ 60"] word_less_exp_iff [of 60 v] by simp
  have t': "take_bit 60 v = v" if "v < 2 ^ 14"
    using t order.strict_trans [OF that, of "2 ^ 29"] by simp
  have t'': "take_bit 60 v = v" if "v < 2 ^ 7"
    using t order.strict_trans [OF that, of "2 ^ 29"] by simp
  show ?thesis
  proof (cases "v < 2 ^ 29")
    case True
    then show ?thesis
      by (cases "v < 2 ^ 14"; cases "v < 2 ^ 7")
        (simp_all add: get_uintVar_1 get_uintVar_2 get_uintVar_3 t t' t'' del: power_numeral)
  next
    case False
    then show ?thesis by (rule get_uintVar_4)
  qed
qed

interpretation uintVar: wire put_uintVar get_uintVar enc_uintVar "\<lambda>v. v < 2 ^ 60"
proof
  show "get_uintVar (enc_uintVar v @ rest) = Inr (v, rest)" if "v < 2 ^ 60" for v rest
    using get_uintVar_enc [of v rest] word_less_exp_iff [of 60 v] that by simp
qed (rule put_uintVar_enc)

lemma uintVar_length_pos: "0 < uintVar_length v"
  by (simp add: uintVar_length_def)

section \<open>Byte vectors\<close>

definition enc_bytes :: "bytes \<Rightarrow> bytes" where
  "enc_bytes val = enc_uintVar (of_nat (length val)) @ val"

lemma of_nat_less_exp:
  assumes "n < 2 ^ k" and "k < 64"
  shows "(of_nat n :: u64) < 2 ^ k"
  using assms by (simp add: word_less_exp_iff take_bit_of_nat take_bit_nat_eq_self)

lemma put_bytes_enc:
  assumes "length val < 2 ^ 61"
  shows "put_bytes buf val = Inr (buf @ enc_bytes val)"
  using of_nat_less_exp [OF assms]
  by (simp add: put_bytes_def mk_uintVar_ok put_uintVar_enc push_bytes_def enc_bytes_def)

lemma pop_front_ok:
  "unat len \<le> length buf \<Longrightarrow> pop_front len buf = Inr (take (unat len) buf, drop (unat len) buf)"
  by (auto simp: pop_front_def)

lemma pop_front_iff:
  "pop_front len buf =
     (if unat len \<le> length buf then Inr (take (unat len) buf, drop (unat len) buf)
      else Inl OutOfRangeException)"
  by (auto simp: pop_front_def)

lemma unat_ucast_length:
  assumes "n < 2 ^ 60"
  shows "unat (ucast (of_nat n :: u64) :: u16) = n mod 2 ^ 16"
  by (simp add: unsigned_ucast_eq unsigned_of_nat take_bit_eq_mod mod_mod_cancel)

lemma get_bytes_enc:
  assumes "length val < 2 ^ 60"
  shows "get_bytes (enc_bytes val @ rest) =
           Inr (take (length val mod 2 ^ 16) val, drop (length val mod 2 ^ 16) val @ rest)"
proof -
  let ?n = "length val mod 2 ^ 16"
  have le: "?n \<le> length val" by (rule mod_less_eq_dividend)
  have "get_uintVar (enc_uintVar (of_nat (length val)) @ val @ rest) = Inr (of_nat (length val), val @ rest)"
    by (rule uintVar.get_enc) (rule of_nat_less_exp [OF assms], simp)
  then show ?thesis
    unfolding get_bytes_def enc_bytes_def append_assoc
    using le unat_ucast_length [OF assms]
    by (simp add: dbind_Inr pop_front_ok)
qed

interpretation vec: wire put_bytes get_bytes enc_bytes "\<lambda>val. length val < 2 ^ 16"
proof
  fix val :: bytes
  assume l: "length val < 2 ^ 16"
  show "put_bytes buf val = Inr (buf @ enc_bytes val)" for buf
    by (rule put_bytes_enc) (rule less_trans [OF l], simp)
  show "get_bytes (enc_bytes val @ rest) = Inr (val, rest)" for rest
    using get_bytes_enc [OF less_trans [OF l], of rest] l by simp
qed

section \<open>Outcomes of reading\<close>

lemma get_uint_outcome:
  "0 < n \<Longrightarrow> get_uint swap n buf =
     (if length buf < n then Inl ReadException
      else Inr (swap (of_le_bytes (take n buf)), drop n buf))"
  by (auto simp: get_uint_def mb_empty_def)

lemma of_le_bytes_mask:
  assumes "m \<le> 8"
  shows "of_le_bytes (bs @ [b AND mask m]) =
    (take_bit (8 * length bs + m) (of_le_bytes (bs @ [b])) :: 'a::len word)"
proof (induction bs)
  case Nil
  show ?case using assms by (simp, intro bit_word_eqI) (auto simp: bit_simps)
next
  case (Cons c bs)
  have "take_bit (8 + k) (ucast c OR push_bit 8 w) = (ucast c OR push_bit 8 (take_bit k w) :: 'a word)" for k w
    by (rule bit_word_eqI) (auto simp: bit_simps dest: bit_imp_le_length)
  with Cons show ?case by (simp add: add.assoc)
qed

lemma narrow_uintVar:
  assumes "k \<le> 60"
  shows "mk_uintVar (take_bit k v) = Inr (take_bit k v)"
proof -
  have "take_bit k v < 2 ^ 61" using assms by (subst word_less_exp_iff) (simp_all add: min_def)
  then show ?thesis by (rule mk_uintVar_ok)
qed

text \<open>The first byte fixes how many bytes are read and how many bits of them are the value.\<close>

definition uintVar_need :: "u8 \<Rightarrow> nat" where
  "uintVar_need first =
     (if first AND 0x80 = 0 then 1 else if first AND 0xC0 = 0x80 then 2
      else if first AND 0xE0 = 0xC0 then 4 else 8)"

definition uintVar_bits :: "u8 \<Rightarrow> nat" where
  "uintVar_bits first =
     (if first AND 0x80 = 0 then 7 else if first AND 0xC0 = 0x80 then 14
      else if first AND 0xE0 = 0xC0 then 29 else 60)"

lemma be_value1: "mk_uintVar (ucast (b0 AND 0x7F :: u8)) = Inr (take_bit 7 (of_le_bytes [b0]))"
  using of_le_bytes_mask [where ?'a = 64, of 7 "[]" b0] narrow_uintVar [of 7 "of_le_bytes [b0]"]
  by (simp add: byte_mask_literals)

lemma be_value2:
  "mk_uintVar (ucast (push_bit 8 ((ucast b1 :: u16) AND 0x3F) + (ucast b0 :: u16)))
     = Inr (take_bit 14 (of_le_bytes [b0, b1]))"
proof -
  have "ucast (of_le_bytes [b0, b1 AND 0x3F] :: u16) = (of_le_bytes [b0, b1 AND 0x3F] :: u64)"
    by (rule ucast_of_le_bytes) simp
  also have "\<dots> = take_bit 14 (of_le_bytes [b0, b1])"
    using of_le_bytes_mask [where ?'a = 64, of 6 "[b0]" b1]
    by (simp add: byte_mask_literals del: of_le_bytes.simps)
  finally show ?thesis by (simp add: ucast_and_3F sum2 [OF refl] narrow_uintVar del: of_le_bytes.simps)
qed

lemma be_value4:
  "mk_uintVar (ucast (push_bit 24 (ucast (b3 AND 0x1F) :: u32) + push_bit 16 (ucast b2) +
     push_bit 8 (ucast b1) + ucast b0)) = Inr (take_bit 29 (of_le_bytes [b0, b1, b2, b3]))"
proof -
  have "ucast (of_le_bytes [b0, b1, b2, b3 AND 0x1F] :: u32) = (of_le_bytes [b0, b1, b2, b3 AND 0x1F] :: u64)"
    by (rule ucast_of_le_bytes) simp
  also have "\<dots> = take_bit 29 (of_le_bytes [b0, b1, b2, b3])"
    using of_le_bytes_mask [where ?'a = 64, of 5 "[b0, b1, b2]" b3]
    by (simp add: byte_mask_literals del: of_le_bytes.simps)
  finally show ?thesis by (simp add: sum4 narrow_uintVar del: of_le_bytes.simps)
qed

lemma be_value8:
  "mk_uintVar (push_bit 56 (ucast (b7 AND 0x0F)) + push_bit 48 (ucast b6) + push_bit 40 (ucast b5) +
     push_bit 32 (ucast b4) + push_bit 24 (ucast b3) + push_bit 16 (ucast b2) +
     push_bit 8 (ucast b1) + ucast b0)
   = Inr (take_bit 60 (of_le_bytes [b0, b1, b2, b3, b4, b5, b6, b7]))"
  using of_le_bytes_mask [where ?'a = 64, of 4 "[b0, b1, b2, b3, b4, b5, b6]" b7]
  by (simp add: sum8 byte_mask_literals narrow_uintVar del: of_le_bytes.simps)

lemma list_split4:
  obtains "length xs < 4" | a b c d ys where "xs = a # b # c # d # ys"
  by (metis One_nat_def Suc_1 Suc_le_length_iff not_less numeral_3_eq_3 numeral_eq_Suc pred_numeral_simps(2) semiring_norm(26,27))

lemma short_list4: "length xs < 4 \<longleftrightarrow> xs = [] \<or> (\<exists>a. xs = [a]) \<or> (\<exists>a b. xs = [a, b]) \<or> (\<exists>a b c. xs = [a, b, c])"
  by (auto simp: numeral_eq_Suc less_Suc_eq length_Suc_conv)

lemma get_uintVar_outcome:
  assumes "buf \<noteq> []"
  shows "get_uintVar buf =
     (if length buf < uintVar_need (hd buf) then Inl ReadException
      else Inr (take_bit (uintVar_bits (hd buf)) (of_le_bytes (rev (take (uintVar_need (hd buf)) buf))),
                drop (uintVar_need (hd buf)) buf))"
proof -
  let ?b = "hd buf"
  note defs = get_uintVar_def front_def dbind_def uintVar_need_def uintVar_bits_def Let_def
  consider "?b AND 0x80 = 0" | "?b AND 0x80 \<noteq> 0" "?b AND 0xC0 = 0x80"
    | "?b AND 0x80 \<noteq> 0" "?b AND 0xC0 \<noteq> 0x80" "?b AND 0xE0 = 0xC0"
    | "?b AND 0x80 \<noteq> 0" "?b AND 0xC0 \<noteq> 0x80" "?b AND 0xE0 \<noteq> 0xC0" by blast
  then show ?thesis
  proof cases
    case 1
    with assms show ?thesis
      by (cases buf) (simp_all add: defs be_value1 del: of_le_bytes.simps)
  next
    case 2
    with assms show ?thesis
      by (cases buf; cases "tl buf")
        (simp_all add: defs be_value2 del: of_le_bytes.simps push_bit_and)
  next
    case 3
    with assms show ?thesis
      by (cases buf rule: list_split4)
        (auto simp: short_list4 defs be_value4 simp del: of_le_bytes.simps)
  next
    case 4
    show ?thesis
    proof (cases "length buf < 8")
      case True
      then have "length (tl (tl (tl (tl buf)))) < 4" by simp
      with 4 True assms show ?thesis
      by (cases buf rule: list_split4) (auto simp: short_list4 defs be_value8 simp del: of_le_bytes.simps)
    next
      case False
      then obtain a b c d e f g h ys where "buf = a # b # c # d # e # f # g # h # ys"
        by (auto simp: not_less numeral_eq_Suc Suc_le_length_iff)
      with 4 show ?thesis by (simp add: defs be_value8 del: of_le_bytes.simps)
    qed
  qed
qed

section \<open>Properties\<close>

text \<open>the fixed-width integer operators put the value on the wire most significant byte
  first, in exactly its size, and reading it back returns the value and leaves the bytes that
  follow; a buffer with fewer bytes raises \<^verbatim>\<open>ReadException\<close> and nothing else.\<close>

lemma uint_wire:
  "put_u8 buf a = Inr (buf @ [a]) \<and> get_u8 (a # rest) = Inr (a, rest)
   \<and> put_u16 buf b = Inr (buf @ rev (le_bytes 2 b)) \<and> get_u16 (rev (le_bytes 2 b) @ rest) = Inr (b, rest)
   \<and> put_u32 buf c = Inr (buf @ rev (le_bytes 4 c)) \<and> get_u32 (rev (le_bytes 4 c) @ rest) = Inr (c, rest)
   \<and> put_u64 buf d = Inr (buf @ rev (le_bytes 8 d)) \<and> get_u64 (rev (le_bytes 8 d) @ rest) = Inr (d, rest)
   \<and> (get_u8 buf = Inl e \<longleftrightarrow> e = ReadException \<and> length buf < 1)
   \<and> (get_u16 buf = Inl e \<longleftrightarrow> e = ReadException \<and> length buf < 2)
   \<and> (get_u32 buf = Inl e \<longleftrightarrow> e = ReadException \<and> length buf < 4)
   \<and> (get_u64 buf = Inl e \<longleftrightarrow> e = ReadException \<and> length buf < 8)"
proof -
  have e: "get_u8 buf = Inl e \<longleftrightarrow> e = ReadException \<and> length buf < 1" by (cases buf) auto
  have "get_u16 buf = Inl e \<longleftrightarrow> e = ReadException \<and> length buf < 2"
    "get_u32 buf = Inl e \<longleftrightarrow> e = ReadException \<and> length buf < 4"
    "get_u64 buf = Inl e \<longleftrightarrow> e = ReadException \<and> length buf < 8"
    by (auto simp: get_u16_def get_u32_def get_u64_def get_uint_outcome)
  with e show ?thesis
    using u16.put_enc u16.get_enc u32.put_enc u32.get_enc u64.put_enc u64.get_enc
    by (simp add: put_u8_def push_u8_def enc_uint_def)
qed

text \<open>C22. a variable-length integer is written in the 1, 2, 4 or 8 bytes its size calls for, and
  what is read back is its low 60 bits: the round trip is exact below \<open>2 ^ 60\<close>, and the
  values of \<open>[2 ^ 60, 2 ^ 61)\<close>, which the constructor accepts, lose bit 60.\<close>

theorem uintVar_roundtrip:
  "\<exists>e. put_uintVar buf v = Inr (buf @ e) \<and> length e = uintVar_length v
      \<and> get_uintVar (e @ rest) = Inr (take_bit 60 v, rest)
      \<and> (get_uintVar (e @ rest) = Inr (v, rest) \<longleftrightarrow> v < 2 ^ 60)"
proof (intro exI conjI)
  show "put_uintVar buf v = Inr (buf @ enc_uintVar v)" by (rule put_uintVar_enc)
  show "get_uintVar (enc_uintVar v @ rest) = Inr (take_bit 60 v, rest)" by (rule get_uintVar_enc)
  then show "get_uintVar (enc_uintVar v @ rest) = Inr (v, rest) \<longleftrightarrow> v < 2 ^ 60"
    using word_less_exp_iff [of 60 v] by simp
qed simp

text \<open>C32. what reading a variable-length integer does on every buffer. The first byte fixes the
  number of bytes read and the number of value bits; too few bytes raise \<^verbatim>\<open>ReadException\<close>;
  the value is the big-endian one without the tag bits, and the \<^verbatim>\<open>runtime_error\<close> of the range
  check never occurs. On an empty buffer \<^verbatim>\<open>front()\<close> is undefined.\<close>

theorem uintVar_decode_outcome:
  "get_uintVar buf =
     (if buf = [] then Inl undefined_behaviour
      else if length buf < uintVar_need (hd buf) then Inl ReadException
      else Inr (take_bit (uintVar_bits (hd buf)) (of_le_bytes (rev (take (uintVar_need (hd buf)) buf))),
                drop (uintVar_need (hd buf)) buf))"
  using get_uintVar_outcome [of buf] by (simp add: get_uintVar_def front_def)

text \<open>a byte vector is written behind its length. Reading it back passes the length to a
  16-bit parameter: it returns the vector when it is shorter than 65536 bytes, and of a longer
  one only as many bytes as the length modulo 65536, the rest staying in the buffer.\<close>

lemma bytes_roundtrip:
  assumes "length val < 2 ^ 60"
  shows "\<exists>e. put_bytes buf val = Inr (buf @ e)
    \<and> length e = uintVar_length (of_nat (length val)) + length val
    \<and> get_bytes (e @ rest) =
        Inr (take (length val mod 65536) val, drop (length val mod 65536) val @ rest)
    \<and> (get_bytes (e @ rest) = Inr (val, rest) \<longleftrightarrow> length val < 65536)"
proof (intro exI conjI)
  show "put_bytes buf val = Inr (buf @ enc_bytes val)"
    using assms by (intro put_bytes_enc) simp
  show "length (enc_bytes val) = uintVar_length (of_nat (length val)) + length val"
    by (simp add: enc_bytes_def)
  show r: "get_bytes (enc_bytes val @ rest) =
      Inr (take (length val mod 65536) val, drop (length val mod 65536) val @ rest)"
    using get_bytes_enc [OF assms] by simp
  have "take (length val mod 65536) val = val \<longleftrightarrow> length val < 65536"
  proof
    assume "take (length val mod 65536) val = val"
    then have "length val mod 65536 = length val"
      using arg_cong [of _ _ length] by fastforce
    then show "length val < 65536" by simp
  qed simp
  then show "get_bytes (enc_bytes val @ rest) = Inr (val, rest) \<longleftrightarrow> length val < 65536"
    unfolding r by auto
qed

lemma bytes_roundtrip_witness:
  "\<exists>e. put_bytes [7] [1, 2, 3] = Inr ([7] @ e)
    \<and> length e = uintVar_length (of_nat (length [1, 2, 3 :: u8])) + length [1, 2, 3 :: u8]
    \<and> get_bytes (e @ [9]) =
        Inr (take (length [1, 2, 3 :: u8] mod 65536) [1, 2, 3],
             drop (length [1, 2, 3 :: u8] mod 65536) [1, 2, 3] @ [9])
    \<and> (get_bytes (e @ [9]) = Inr ([1, 2, 3], [9]) \<longleftrightarrow> length [1, 2, 3 :: u8] < 65536)"
  by (rule bytes_roundtrip) simp

end
