(* ===== verification/Encode.thy ===== *)
theory Encode
  imports Message_Buffer
begin

text \<open>
  The protocol messages and their stream operators (\<^verbatim>\<open>include/quicr/encode.h\<close>,
  \<^verbatim>\<open>include/quicr/quicr_common.h\<close>, \<^verbatim>\<open>src/encode.cpp\<close>). Each struct is a record, each pair of
  operators a \<open>put_\<close> and a \<open>get_\<close> function; the copying and the moving \<open>operator<<\<close> of a
  message write the same bytes and share one definition. The wire format of each message
  is its \<open>enc_\<close> function, and every message is an instance of the locale \<open>wire\<close>. What the
  decoders of the control messages do on arbitrary bytes from the network is given field by field.
\<close>

unbundle bit_operations_syntax

section \<open>Enumerations\<close>

text \<open>
  A scoped enumeration can hold every value of its underlying type, and the decoders cast any
  byte they read. The last constructor of each datatype stands for the values without an
  enumerator; \<open>_code\<close> is the cast to \<^verbatim>\<open>uint8_t\<close> and \<open>_cast\<close> the cast from it.
\<close>

datatype MessageType =
    MT_Unknown | MT_Subscribe | MT_SubscribeResponse | MT_SubscribeEnd | MT_Unsubscribe
  | MT_Publish | MT_PublishIntent | MT_PublishIntentResponse | MT_PublishIntentEnd
  | MT_other u8

datatype MediaType = Manifest | Advertisement | Text | RealtimeMedia | MediaType_other u8

datatype Response = Response_Ok | Response_Expired | Response_Fail | Response_Redirect | Response_other u8

datatype SubscribeIntent = immediate | wait_up | sync_up | SubscribeIntent_other u8

datatype SubscribeStatus =
    Status_Ok | Status_Expired | Status_Redirect | Status_FailedError | Status_FailedAuthz
  | Status_TimeOut | Status_ConnectionClosed | Status_other u8

fun MessageType_code :: "MessageType \<Rightarrow> u8" where
  "MessageType_code MT_Unknown = 0"
| "MessageType_code MT_Subscribe = 1"
| "MessageType_code MT_SubscribeResponse = 2"
| "MessageType_code MT_SubscribeEnd = 3"
| "MessageType_code MT_Unsubscribe = 4"
| "MessageType_code MT_Publish = 5"
| "MessageType_code MT_PublishIntent = 6"
| "MessageType_code MT_PublishIntentResponse = 7"
| "MessageType_code MT_PublishIntentEnd = 8"
| "MessageType_code (MT_other b) = b"

definition MessageType_cast :: "u8 \<Rightarrow> MessageType" where
  "MessageType_cast b =
     (if b = 0 then MT_Unknown else if b = 1 then MT_Subscribe
      else if b = 2 then MT_SubscribeResponse else if b = 3 then MT_SubscribeEnd
      else if b = 4 then MT_Unsubscribe else if b = 5 then MT_Publish
      else if b = 6 then MT_PublishIntent else if b = 7 then MT_PublishIntentResponse
      else if b = 8 then MT_PublishIntentEnd else MT_other b)"

fun MediaType_code :: "MediaType \<Rightarrow> u8" where
  "MediaType_code Manifest = 0"
| "MediaType_code Advertisement = 1"
| "MediaType_code Text = 2"
| "MediaType_code RealtimeMedia = 3"
| "MediaType_code (MediaType_other b) = b"

definition MediaType_cast :: "u8 \<Rightarrow> MediaType" where
  "MediaType_cast b =
     (if b = 0 then Manifest else if b = 1 then Advertisement else if b = 2 then Text
      else if b = 3 then RealtimeMedia else MediaType_other b)"

fun Response_code :: "Response \<Rightarrow> u8" where
  "Response_code Response_Ok = 0"
| "Response_code Response_Expired = 1"
| "Response_code Response_Fail = 2"
| "Response_code Response_Redirect = 3"
| "Response_code (Response_other b) = b"

definition Response_cast :: "u8 \<Rightarrow> Response" where
  "Response_cast b =
     (if b = 0 then Response_Ok else if b = 1 then Response_Expired else if b = 2 then Response_Fail
      else if b = 3 then Response_Redirect else Response_other b)"

fun SubscribeIntent_code :: "SubscribeIntent \<Rightarrow> u8" where
  "SubscribeIntent_code immediate = 0"
| "SubscribeIntent_code wait_up = 1"
| "SubscribeIntent_code sync_up = 2"
| "SubscribeIntent_code (SubscribeIntent_other b) = b"

definition SubscribeIntent_cast :: "u8 \<Rightarrow> SubscribeIntent" where
  "SubscribeIntent_cast b =
     (if b = 0 then immediate else if b = 1 then wait_up else if b = 2 then sync_up
      else SubscribeIntent_other b)"

fun SubscribeStatus_code :: "SubscribeStatus \<Rightarrow> u8" where
  "SubscribeStatus_code Status_Ok = 0"
| "SubscribeStatus_code Status_Expired = 1"
| "SubscribeStatus_code Status_Redirect = 2"
| "SubscribeStatus_code Status_FailedError = 3"
| "SubscribeStatus_code Status_FailedAuthz = 4"
| "SubscribeStatus_code Status_TimeOut = 5"
| "SubscribeStatus_code Status_ConnectionClosed = 6"
| "SubscribeStatus_code (Status_other b) = b"

definition SubscribeStatus_cast :: "u8 \<Rightarrow> SubscribeStatus" where
  "SubscribeStatus_cast b =
     (if b = 0 then Status_Ok else if b = 1 then Status_Expired else if b = 2 then Status_Redirect
      else if b = 3 then Status_FailedError else if b = 4 then Status_FailedAuthz
      else if b = 5 then Status_TimeOut else if b = 6 then Status_ConnectionClosed
      else Status_other b)"

section \<open>Messages\<close>

text \<open>\<open>version\<close> is not on the wire and no code reads it.\<close>

record Subscribe =
  s_version :: u8
  s_transaction_id :: u64
  s_namespace :: Namespace
  s_intent :: SubscribeIntent

record Unsubscribe =
  u_version :: u8
  u_namespace :: Namespace

record SubscribeResponse =
  sr_namespace :: Namespace
  sr_response :: SubscribeStatus
  sr_transaction_id :: u64

record SubscribeEnd =
  se_namespace :: Namespace
  se_reason :: SubscribeStatus

record PublishIntent =
  pi_message_type :: MessageType
  pi_transaction_id :: u64
  pi_namespace :: Namespace
  pi_payload :: bytes
  pi_media_id :: uintVar_t
  pi_datagram_capable :: uintVar_t

record PublishIntentResponse =
  pir_message_type :: MessageType
  pir_namespace :: Namespace
  pir_response :: Response
  pir_transaction_id :: u64

record Header =
  h_media_id :: uintVar_t
  h_name :: Name
  h_group_id :: uintVar_t
  h_object_id :: uintVar_t
  h_offset_and_fin :: uintVar_t
  h_flags :: u8

record PublishDatagram =
  pd_header :: Header
  pd_media_type :: MediaType
  pd_media_data_length :: uintVar_t
  pd_media_data :: bytes

record PublishStream =
  ps_media_data_length :: uintVar_t
  ps_media_data :: bytes

record PublishIntentEnd =
  pie_message_type :: MessageType
  pie_namespace :: Namespace
  pie_payload :: bytes

section \<open>Names and namespaces\<close>

text \<open>The loops count \<open>i\<close> down from \<^verbatim>\<open>sizeof(quicr::Name) - 1\<close>.\<close>

fun put_Name_loop :: "nat \<Rightarrow> Name \<Rightarrow> bytes \<Rightarrow> bytes res" where
  "put_Name_loop 0 val msg = Inr msg"
| "put_Name_loop (Suc i) val msg =
     rbind (Name_index val i) (\<lambda>b. rbind (put_u8 msg b) (put_Name_loop i val))"

definition put_Name :: "bytes \<Rightarrow> Name \<Rightarrow> bytes res" where
  "put_Name msg val = put_Name_loop sizeof_Name val msg"

fun get_Name_loop :: "nat \<Rightarrow> bytes \<Rightarrow> bytes decoder" where
  "get_Name_loop 0 bs = dret bs"
| "get_Name_loop (Suc i) bs = dbind get_u8 (\<lambda>b. get_Name_loop i (bs[i := b]))"

definition get_Name :: "Name decoder" where
  "get_Name =
     dbind (get_Name_loop sizeof_Name (replicate sizeof_Name 0)) (\<lambda>bs.
     dlift (Name_of_ptr bs sizeof_Name))"

definition put_Namespace :: "bytes \<Rightarrow> Namespace \<Rightarrow> bytes res" where
  "put_Namespace msg val = rbind (put_Name msg (ns_name val)) (\<lambda>msg. put_u8 msg (sig_bits val))"

definition get_Namespace :: "Namespace decoder" where
  "get_Namespace =
     dbind get_Name (\<lambda>name_mask.
     dbind get_u8 (\<lambda>bits.
     dlift (mk_Namespace name_mask bits)))"

section \<open>Subscribe messages\<close>

definition put_Subscribe :: "bytes \<Rightarrow> Subscribe \<Rightarrow> bytes res" where
  "put_Subscribe buffer msg =
     rbind (put_u8 buffer (MessageType_code MT_Subscribe)) (\<lambda>buffer.
     rbind (put_u64 buffer (s_transaction_id msg)) (\<lambda>buffer.
     rbind (put_Namespace buffer (s_namespace msg)) (\<lambda>buffer.
     put_u8 buffer (SubscribeIntent_code (s_intent msg)))))"

text \<open>\<open>version\<close> is what the field holds before the message is read into the struct.\<close>

definition get_Subscribe :: "u8 \<Rightarrow> Subscribe decoder" where
  "get_Subscribe version =
     dbind get_u8 (\<lambda>msg_type.
     if msg_type \<noteq> MessageType_code MT_Subscribe then draise MessageTypeException
     else
       dbind get_u64 (\<lambda>tid.
       dbind get_Namespace (\<lambda>ns.
       dbind get_u8 (\<lambda>intent.
       dret \<lparr>s_version = version, s_transaction_id = tid, s_namespace = ns,
              s_intent = SubscribeIntent_cast intent\<rparr>))))"

definition put_Unsubscribe :: "bytes \<Rightarrow> Unsubscribe \<Rightarrow> bytes res" where
  "put_Unsubscribe buffer msg =
     rbind (put_u8 buffer (MessageType_code MT_Unsubscribe)) (\<lambda>buffer.
     put_Namespace buffer (u_namespace msg))"

definition get_Unsubscribe :: "u8 \<Rightarrow> Unsubscribe decoder" where
  "get_Unsubscribe version =
     dbind get_u8 (\<lambda>msg_type.
     if msg_type \<noteq> MessageType_code MT_Unsubscribe then draise MessageTypeException
     else
       dbind get_Namespace (\<lambda>ns.
       dret \<lparr>u_version = version, u_namespace = ns\<rparr>))"

definition put_SubscribeResponse :: "bytes \<Rightarrow> SubscribeResponse \<Rightarrow> bytes res" where
  "put_SubscribeResponse buffer msg =
     rbind (put_u8 buffer (MessageType_code MT_SubscribeResponse)) (\<lambda>buffer.
     rbind (put_u8 buffer (SubscribeStatus_code (sr_response msg))) (\<lambda>buffer.
     rbind (put_u64 buffer (sr_transaction_id msg)) (\<lambda>buffer.
     put_Namespace buffer (sr_namespace msg))))"

definition get_SubscribeResponse :: "SubscribeResponse decoder" where
  "get_SubscribeResponse =
     dbind get_u8 (\<lambda>msg_type.
     if msg_type \<noteq> MessageType_code MT_SubscribeResponse then draise MessageTypeException
     else
       dbind get_u8 (\<lambda>response.
       dbind get_u64 (\<lambda>tid.
       dbind get_Namespace (\<lambda>ns.
       dret \<lparr>sr_namespace = ns, sr_response = SubscribeStatus_cast response,
              sr_transaction_id = tid\<rparr>))))"

definition put_SubscribeEnd :: "bytes \<Rightarrow> SubscribeEnd \<Rightarrow> bytes res" where
  "put_SubscribeEnd buffer msg =
     rbind (put_u8 buffer (MessageType_code MT_SubscribeEnd)) (\<lambda>buffer.
     rbind (put_u8 buffer (SubscribeStatus_code (se_reason msg))) (\<lambda>buffer.
     put_Namespace buffer (se_namespace msg)))"

definition get_SubscribeEnd :: "SubscribeEnd decoder" where
  "get_SubscribeEnd =
     dbind get_u8 (\<lambda>msg_type.
     if msg_type \<noteq> MessageType_code MT_SubscribeEnd then draise MessageTypeException
     else
       dbind get_u8 (\<lambda>reason.
       dbind get_Namespace (\<lambda>ns.
       dret \<lparr>se_namespace = ns, se_reason = SubscribeStatus_cast reason\<rparr>)))"

section \<open>Publish messages\<close>

definition put_PublishIntent :: "bytes \<Rightarrow> PublishIntent \<Rightarrow> bytes res" where
  "put_PublishIntent buffer msg =
     rbind (put_u8 buffer (MessageType_code (pi_message_type msg))) (\<lambda>buffer.
     rbind (put_u64 buffer (pi_transaction_id msg)) (\<lambda>buffer.
     rbind (put_Namespace buffer (pi_namespace msg)) (\<lambda>buffer.
     rbind (put_bytes buffer (pi_payload msg)) (\<lambda>buffer.
     rbind (put_uintVar buffer (pi_media_id msg)) (\<lambda>buffer.
     put_uintVar buffer (pi_datagram_capable msg))))))"

definition get_PublishIntent :: "PublishIntent decoder" where
  "get_PublishIntent =
     dbind get_u8 (\<lambda>msg_type.
     dbind get_u64 (\<lambda>tid.
     dbind get_Namespace (\<lambda>ns.
     dbind get_bytes (\<lambda>payload.
     dbind get_uintVar (\<lambda>media_id.
     dbind get_uintVar (\<lambda>datagram_capable.
     dret \<lparr>pi_message_type = MessageType_cast msg_type, pi_transaction_id = tid,
            pi_namespace = ns, pi_payload = payload, pi_media_id = media_id,
            pi_datagram_capable = datagram_capable\<rparr>))))))"

definition put_PublishIntentResponse :: "bytes \<Rightarrow> PublishIntentResponse \<Rightarrow> bytes res" where
  "put_PublishIntentResponse buffer msg =
     rbind (put_u8 buffer (MessageType_code (pir_message_type msg))) (\<lambda>buffer.
     rbind (put_Namespace buffer (pir_namespace msg)) (\<lambda>buffer.
     rbind (put_u8 buffer (Response_code (pir_response msg))) (\<lambda>buffer.
     put_u64 buffer (pir_transaction_id msg))))"

definition get_PublishIntentResponse :: "PublishIntentResponse decoder" where
  "get_PublishIntentResponse =
     dbind get_u8 (\<lambda>msg_type.
     dbind get_Namespace (\<lambda>ns.
     dbind get_u8 (\<lambda>response.
     dbind get_u64 (\<lambda>tid.
     dret \<lparr>pir_message_type = MessageType_cast msg_type, pir_namespace = ns,
            pir_response = Response_cast response, pir_transaction_id = tid\<rparr>))))"

definition put_Header :: "bytes \<Rightarrow> Header \<Rightarrow> bytes res" where
  "put_Header buffer msg =
     rbind (put_Name buffer (h_name msg)) (\<lambda>buffer.
     rbind (put_uintVar buffer (h_media_id msg)) (\<lambda>buffer.
     rbind (put_uintVar buffer (h_group_id msg)) (\<lambda>buffer.
     rbind (put_uintVar buffer (h_object_id msg)) (\<lambda>buffer.
     rbind (put_uintVar buffer (h_offset_and_fin msg)) (\<lambda>buffer.
     put_u8 buffer (h_flags msg))))))"

definition get_Header :: "Header decoder" where
  "get_Header =
     dbind get_Name (\<lambda>name.
     dbind get_uintVar (\<lambda>media_id.
     dbind get_uintVar (\<lambda>group_id.
     dbind get_uintVar (\<lambda>object_id.
     dbind get_uintVar (\<lambda>offset_and_fin.
     dbind get_u8 (\<lambda>flags.
     dret \<lparr>h_media_id = media_id, h_name = name, h_group_id = group_id, h_object_id = object_id,
            h_offset_and_fin = offset_and_fin, h_flags = flags\<rparr>))))))"

definition put_PublishDatagram :: "bytes \<Rightarrow> PublishDatagram \<Rightarrow> bytes res" where
  "put_PublishDatagram buffer msg =
     rbind (put_u8 buffer (MessageType_code MT_Publish)) (\<lambda>buffer.
     rbind (put_Header buffer (pd_header msg)) (\<lambda>buffer.
     rbind (put_u8 buffer (MediaType_code (pd_media_type msg))) (\<lambda>buffer.
     rbind (put_uintVar buffer (pd_media_data_length msg)) (\<lambda>buffer.
     put_bytes buffer (pd_media_data msg)))))"

definition get_PublishDatagram :: "PublishDatagram decoder" where
  "get_PublishDatagram =
     dbind get_u8 (\<lambda>msg_type.
     if msg_type \<noteq> MessageType_code MT_Publish then draise MessageTypeException
     else
       dbind get_Header (\<lambda>header.
       dbind get_u8 (\<lambda>media_type.
       dbind get_uintVar (\<lambda>media_data_length.
       dbind get_bytes (\<lambda>media_data.
       if length media_data \<noteq> unat media_data_length then draise LengthException
       else dret \<lparr>pd_header = header, pd_media_type = MediaType_cast media_type,
                   pd_media_data_length = media_data_length, pd_media_data = media_data\<rparr>)))))"

definition put_PublishStream :: "bytes \<Rightarrow> PublishStream \<Rightarrow> bytes res" where
  "put_PublishStream buffer msg =
     rbind (put_uintVar buffer (ps_media_data_length msg)) (\<lambda>buffer.
     put_bytes buffer (ps_media_data msg))"

definition get_PublishStream :: "PublishStream decoder" where
  "get_PublishStream =
     dbind get_uintVar (\<lambda>media_data_length.
     dbind get_bytes (\<lambda>media_data.
     if length media_data \<noteq> unat media_data_length then draise LengthException
     else dret \<lparr>ps_media_data_length = media_data_length, ps_media_data = media_data\<rparr>))"

definition put_PublishIntentEnd :: "bytes \<Rightarrow> PublishIntentEnd \<Rightarrow> bytes res" where
  "put_PublishIntentEnd buffer msg =
     rbind (put_u8 buffer (MessageType_code (pie_message_type msg))) (\<lambda>buffer.
     rbind (put_Namespace buffer (pie_namespace msg)) (\<lambda>buffer.
     put_bytes buffer (pie_payload msg)))"

definition get_PublishIntentEnd :: "PublishIntentEnd decoder" where
  "get_PublishIntentEnd =
     dbind get_u8 (\<lambda>msg_type.
     dbind get_Namespace (\<lambda>ns.
     dbind get_bytes (\<lambda>payload.
     dret \<lparr>pie_message_type = MessageType_cast msg_type, pie_namespace = ns,
            pie_payload = payload\<rparr>)))"

section \<open>Casts of enumerations\<close>

text \<open>Every byte survives the cast to the enumeration and back; an enumerator survives the other
  way round, and so does an unnamed value that is not the code of an enumerator.\<close>

locale enum_code =
  fixes code :: "'e \<Rightarrow> u8"
    and cast :: "u8 \<Rightarrow> 'e"
  assumes code_cast: "code (cast b) = b"
begin

definition named :: "'e \<Rightarrow> bool" where
  "named e \<longleftrightarrow> cast (code e) = e"

lemma named_cast: "named (cast b)"
  by (simp add: named_def code_cast)

lemma named_iff: "named e \<longleftrightarrow> (\<exists>b. e = cast b)"
  by (metis named_def named_cast)

lemma code_inj: "named e \<Longrightarrow> named f \<Longrightarrow> code e = code f \<Longrightarrow> e = f"
  by (metis named_def)

end

interpretation message_type: enum_code MessageType_code MessageType_cast
  by unfold_locales (simp add: MessageType_cast_def)

interpretation media_type: enum_code MediaType_code MediaType_cast
  by unfold_locales (simp add: MediaType_cast_def)

interpretation response: enum_code Response_code Response_cast
  by unfold_locales (simp add: Response_cast_def)

interpretation intent: enum_code SubscribeIntent_code SubscribeIntent_cast
  by unfold_locales (simp add: SubscribeIntent_cast_def)

interpretation status: enum_code SubscribeStatus_code SubscribeStatus_cast
  by unfold_locales (simp add: SubscribeStatus_cast_def)

lemmas cast_code [codec_simps] = message_type.named_def [THEN iffD1] media_type.named_def [THEN iffD1]
  response.named_def [THEN iffD1] intent.named_def [THEN iffD1] status.named_def [THEN iffD1]

section \<open>Names and namespaces on the wire\<close>

definition enc_Name :: "Name \<Rightarrow> bytes" where
  "enc_Name n = rev (le_bytes 16 (name_abs n))"

definition enc_Namespace :: "Namespace \<Rightarrow> bytes" where
  "enc_Namespace ns = enc_Name (ns_name ns) @ enc_u8 (sig_bits ns)"

lemma length_enc_Name [simp]: "length (enc_Name n) = 16"
  by (simp add: enc_Name_def)

lemma length_enc_Namespace [simp]: "length (enc_Namespace ns) = 17"
  by (simp add: enc_Namespace_def enc_u8_def)

lemma put_Name_loop_eq:
  "i \<le> 16 \<Longrightarrow> put_Name_loop i n msg = Inr (msg @ rev (le_bytes i (name_abs n)))"
proof (induction i arbitrary: msg)
  case 0
  show ?case by (simp add: le_bytes_def)
next
  case (Suc i)
  then have "Name_index n i = Inr (byte_at (name_abs n) i)" by (simp add: Name_index_ok)
  with Suc show ?case by (simp add: le_bytes_def put_u8_def push_u8_def)
qed

lemma get_Name_loop_eq:
  assumes "length bs = i" and "i \<le> length arr"
  shows "get_Name_loop i arr (bs @ rest) = Inr (rev bs @ drop i arr, rest)"
  using assms
proof (induction i arbitrary: bs arr)
  case 0
  then show ?case by simp
next
  case (Suc i)
  then obtain b cs where bs: "bs = b # cs" and cs: "length cs = i" by (cases bs) auto
  with Suc.prems have "drop i (arr[i := b]) = b # drop (Suc i) arr"
    by (simp add: drop_update_swap Cons_nth_drop_Suc [symmetric] less_eq_Suc_le)
  with Suc cs bs show ?case by (simp add: dbind_def)
qed

lemma get_Name_loop_short:
  assumes "length buf < i"
  shows "get_Name_loop i arr buf = Inl ReadException"
  using assms
proof (induction i arbitrary: buf arr)
  case (Suc i)
  then show ?case by (cases buf) (simp_all add: dbind_def)
qed simp

interpretation name_wire: wire put_Name get_Name enc_Name "\<lambda>_. True"
proof
  show "put_Name buf n = Inr (buf @ enc_Name n)" for buf n
    by (simp add: put_Name_def enc_Name_def put_Name_loop_eq sizeof_Name_def)
  show "get_Name (enc_Name n @ rest) = Inr (n, rest)" for n rest
    using get_Name_loop_eq [of "enc_Name n" 16 "replicate 16 0" rest]
    by (simp add: get_Name_def sizeof_Name_def dbind_def enc_Name_def Name_of_ptr_le_bytes)
qed

lemma get_Name_outcome:
  "get_Name buf =
     (if length buf < 16 then Inl ReadException
      else Inr (name_of_word (of_le_bytes (rev (take 16 buf))), drop 16 buf))"
proof (cases "length buf < 16")
  case True
  then show ?thesis by (simp add: get_Name_def sizeof_Name_def dbind_def get_Name_loop_short)
next
  case False
  then have "get_Name_loop 16 (replicate 16 0) (take 16 buf @ drop 16 buf) = Inr (rev (take 16 buf), drop 16 buf)"
    by (subst get_Name_loop_eq) simp_all
  with False show ?thesis
    by (simp add: get_Name_def sizeof_Name_def dbind_def Name_of_ptr_cases)
qed

lemmas [codec_simps] =
  u8.rbind_put [simplified] u16.rbind_put [simplified] u64.rbind_put [simplified]
  name_wire.rbind_put [simplified] uintVar.rbind_put vec.rbind_put
  u8.put_enc [simplified] u64.put_enc [simplified] name_wire.put_enc [simplified] uintVar.put_enc vec.put_enc
  u8.dbind_enc [simplified] u64.dbind_enc [simplified] name_wire.dbind_enc [simplified]
  uintVar.dbind_enc vec.dbind_enc
  u8.dbind_enc [where rest = "[]", simplified] u64.dbind_enc [where rest = "[]", simplified]

interpretation ns_wire: wire put_Namespace get_Namespace enc_Namespace ns_wf
  by unfold_locales
    (simp_all add: put_Namespace_def get_Namespace_def enc_Namespace_def codec_simps mk_Namespace_self)

lemmas [codec_simps] = ns_wire.rbind_put ns_wire.put_enc ns_wire.dbind_enc
section \<open>Messages on the wire\<close>

definition enc_type :: "MessageType \<Rightarrow> bytes" where
  "enc_type t = enc_u8 (MessageType_code t)"

definition enc_Subscribe :: "Subscribe \<Rightarrow> bytes" where
  "enc_Subscribe msg = enc_type MT_Subscribe @ enc_uint 8 (s_transaction_id msg) @
     enc_Namespace (s_namespace msg) @ enc_u8 (SubscribeIntent_code (s_intent msg))"

definition enc_Unsubscribe :: "Unsubscribe \<Rightarrow> bytes" where
  "enc_Unsubscribe msg = enc_type MT_Unsubscribe @ enc_Namespace (u_namespace msg)"

definition enc_SubscribeResponse :: "SubscribeResponse \<Rightarrow> bytes" where
  "enc_SubscribeResponse msg = enc_type MT_SubscribeResponse @
     enc_u8 (SubscribeStatus_code (sr_response msg)) @ enc_uint 8 (sr_transaction_id msg) @
     enc_Namespace (sr_namespace msg)"

definition enc_SubscribeEnd :: "SubscribeEnd \<Rightarrow> bytes" where
  "enc_SubscribeEnd msg = enc_type MT_SubscribeEnd @ enc_u8 (SubscribeStatus_code (se_reason msg)) @
     enc_Namespace (se_namespace msg)"

definition enc_PublishIntent :: "PublishIntent \<Rightarrow> bytes" where
  "enc_PublishIntent msg = enc_type (pi_message_type msg) @ enc_uint 8 (pi_transaction_id msg) @
     enc_Namespace (pi_namespace msg) @ enc_bytes (pi_payload msg) @
     enc_uintVar (pi_media_id msg) @ enc_uintVar (pi_datagram_capable msg)"

definition enc_PublishIntentResponse :: "PublishIntentResponse \<Rightarrow> bytes" where
  "enc_PublishIntentResponse msg = enc_type (pir_message_type msg) @
     enc_Namespace (pir_namespace msg) @ enc_u8 (Response_code (pir_response msg)) @
     enc_uint 8 (pir_transaction_id msg)"

definition enc_Header :: "Header \<Rightarrow> bytes" where
  "enc_Header msg = enc_Name (h_name msg) @ enc_uintVar (h_media_id msg) @
     enc_uintVar (h_group_id msg) @ enc_uintVar (h_object_id msg) @
     enc_uintVar (h_offset_and_fin msg) @ enc_u8 (h_flags msg)"

definition enc_PublishDatagram :: "PublishDatagram \<Rightarrow> bytes" where
  "enc_PublishDatagram msg = enc_type MT_Publish @ enc_Header (pd_header msg) @
     enc_u8 (MediaType_code (pd_media_type msg)) @ enc_uintVar (pd_media_data_length msg) @
     enc_bytes (pd_media_data msg)"

definition enc_PublishStream :: "PublishStream \<Rightarrow> bytes" where
  "enc_PublishStream msg = enc_uintVar (ps_media_data_length msg) @ enc_bytes (ps_media_data msg)"

definition enc_PublishIntentEnd :: "PublishIntentEnd \<Rightarrow> bytes" where
  "enc_PublishIntentEnd msg = enc_type (pie_message_type msg) @ enc_Namespace (pie_namespace msg) @
     enc_bytes (pie_payload msg)"

text \<open>The messages the formats carry without loss: namespaces as the constructor builds them,
  variable-length fields below \<open>2 ^ 60\<close>, vectors below 65536 bytes whose announced length is theirs.\<close>

definition uintVar_ok :: "uintVar_t \<Rightarrow> bool" where
  "uintVar_ok v \<longleftrightarrow> v < 2 ^ 60"

definition vec_ok :: "bytes \<Rightarrow> bool" where
  "vec_ok d \<longleftrightarrow> length d < 2 ^ 16"

definition Subscribe_ok :: "u8 \<Rightarrow> Subscribe \<Rightarrow> bool" where
  "Subscribe_ok version msg \<longleftrightarrow>
     s_version msg = version \<and> ns_wf (s_namespace msg) \<and> intent.named (s_intent msg)"

definition Unsubscribe_ok :: "u8 \<Rightarrow> Unsubscribe \<Rightarrow> bool" where
  "Unsubscribe_ok version msg \<longleftrightarrow> u_version msg = version \<and> ns_wf (u_namespace msg)"

definition SubscribeResponse_ok :: "SubscribeResponse \<Rightarrow> bool" where
  "SubscribeResponse_ok msg \<longleftrightarrow> ns_wf (sr_namespace msg) \<and> status.named (sr_response msg)"

definition SubscribeEnd_ok :: "SubscribeEnd \<Rightarrow> bool" where
  "SubscribeEnd_ok msg \<longleftrightarrow> ns_wf (se_namespace msg) \<and> status.named (se_reason msg)"

definition PublishIntent_ok :: "PublishIntent \<Rightarrow> bool" where
  "PublishIntent_ok msg \<longleftrightarrow>
     message_type.named (pi_message_type msg) \<and> ns_wf (pi_namespace msg) \<and>
     vec_ok (pi_payload msg) \<and> uintVar_ok (pi_media_id msg) \<and> uintVar_ok (pi_datagram_capable msg)"

definition PublishIntentResponse_ok :: "PublishIntentResponse \<Rightarrow> bool" where
  "PublishIntentResponse_ok msg \<longleftrightarrow>
     message_type.named (pir_message_type msg) \<and> ns_wf (pir_namespace msg) \<and>
     response.named (pir_response msg)"

definition Header_ok :: "Header \<Rightarrow> bool" where
  "Header_ok msg \<longleftrightarrow> uintVar_ok (h_media_id msg) \<and> uintVar_ok (h_group_id msg) \<and>
     uintVar_ok (h_object_id msg) \<and> uintVar_ok (h_offset_and_fin msg)"

definition PublishDatagram_ok :: "PublishDatagram \<Rightarrow> bool" where
  "PublishDatagram_ok msg \<longleftrightarrow>
     Header_ok (pd_header msg) \<and> media_type.named (pd_media_type msg) \<and> vec_ok (pd_media_data msg) \<and>
     uintVar_ok (pd_media_data_length msg) \<and>
     length (pd_media_data msg) = unat (pd_media_data_length msg)"

definition PublishStream_ok :: "PublishStream \<Rightarrow> bool" where
  "PublishStream_ok msg \<longleftrightarrow> vec_ok (ps_media_data msg) \<and> uintVar_ok (ps_media_data_length msg) \<and>
     length (ps_media_data msg) = unat (ps_media_data_length msg)"

definition PublishIntentEnd_ok :: "PublishIntentEnd \<Rightarrow> bool" where
  "PublishIntentEnd_ok msg \<longleftrightarrow>
     message_type.named (pie_message_type msg) \<and> ns_wf (pie_namespace msg) \<and> vec_ok (pie_payload msg)"

lemmas message_oks = uintVar_ok_def vec_ok_def Subscribe_ok_def Unsubscribe_ok_def
  SubscribeResponse_ok_def SubscribeEnd_ok_def PublishIntent_ok_def PublishIntentResponse_ok_def
  Header_ok_def PublishDatagram_ok_def PublishStream_ok_def PublishIntentEnd_ok_def

lemmas [codec_simps] = enc_type_def

interpretation subscribe: wire put_Subscribe "get_Subscribe version" enc_Subscribe "Subscribe_ok version" for version
  by unfold_locales
    (simp_all add: put_Subscribe_def get_Subscribe_def enc_Subscribe_def message_oks codec_simps)

interpretation unsubscribe: wire put_Unsubscribe "get_Unsubscribe version" enc_Unsubscribe "Unsubscribe_ok version" for version
  by unfold_locales
    (simp_all add: put_Unsubscribe_def get_Unsubscribe_def enc_Unsubscribe_def message_oks codec_simps)

interpretation subscribe_response: wire put_SubscribeResponse get_SubscribeResponse enc_SubscribeResponse
  SubscribeResponse_ok
  by unfold_locales
    (simp_all add: put_SubscribeResponse_def get_SubscribeResponse_def enc_SubscribeResponse_def
      message_oks codec_simps)

interpretation subscribe_end: wire put_SubscribeEnd get_SubscribeEnd enc_SubscribeEnd SubscribeEnd_ok
  by unfold_locales
    (simp_all add: put_SubscribeEnd_def get_SubscribeEnd_def enc_SubscribeEnd_def message_oks codec_simps)

interpretation publish_intent: wire put_PublishIntent get_PublishIntent enc_PublishIntent PublishIntent_ok
  by unfold_locales
    (simp_all add: put_PublishIntent_def get_PublishIntent_def enc_PublishIntent_def
      message_oks codec_simps)

interpretation publish_intent_response: wire put_PublishIntentResponse get_PublishIntentResponse
  enc_PublishIntentResponse PublishIntentResponse_ok
  by unfold_locales
    (simp_all add: put_PublishIntentResponse_def get_PublishIntentResponse_def
      enc_PublishIntentResponse_def message_oks codec_simps)

interpretation header: wire put_Header get_Header enc_Header Header_ok
  by unfold_locales
    (simp_all add: put_Header_def get_Header_def enc_Header_def message_oks codec_simps)

lemmas [codec_simps] = header.rbind_put header.dbind_enc

interpretation publish_datagram: wire put_PublishDatagram get_PublishDatagram enc_PublishDatagram
  PublishDatagram_ok
  by unfold_locales
    (simp_all add: put_PublishDatagram_def get_PublishDatagram_def enc_PublishDatagram_def
      PublishDatagram_ok_def vec_ok_def uintVar_ok_def codec_simps)

interpretation publish_stream: wire put_PublishStream get_PublishStream enc_PublishStream PublishStream_ok
  by unfold_locales
    (simp_all add: put_PublishStream_def get_PublishStream_def enc_PublishStream_def message_oks codec_simps)

interpretation publish_intent_end: wire put_PublishIntentEnd get_PublishIntentEnd enc_PublishIntentEnd
  PublishIntentEnd_ok
  by unfold_locales
    (simp_all add: put_PublishIntentEnd_def get_PublishIntentEnd_def enc_PublishIntentEnd_def
      message_oks codec_simps)

section \<open>Decoding arbitrary bytes\<close>

text \<open>The fields of a message, by their place in the buffer; numbers and names are written with the
  most significant byte first. The reading functions work on what is left of the buffer.\<close>

definition u64_at :: "nat \<Rightarrow> bytes \<Rightarrow> u64" where
  "u64_at i buf = of_le_bytes (rev (take 8 (drop i buf)))"

definition name_at :: "nat \<Rightarrow> bytes \<Rightarrow> Name" where
  "name_at i buf = name_of_word (of_le_bytes (rev (take 16 (drop i buf))))"

lemma get_u8_drop:
  "get_u8 (drop i buf) =
     (if length buf < i + 1 then Inl ReadException else Inr (buf ! i, drop (i + 1) buf))"
  by (auto simp: Cons_nth_drop_Suc [symmetric])

lemma get_uintVar_Nil: "get_uintVar [] = Inl undefined_behaviour"
  by (simp add: get_uintVar_def front_def)

lemma dbind_u8_Cons: "dbind get_u8 f (b # buf) = f b buf"
  by (simp add: dbind_def)

lemma swap_of_le_bytes: "length bs = 8 \<Longrightarrow> swap_bytes64 (of_le_bytes bs) = of_le_bytes (rev bs)"
proof -
  assume l: "length bs = 8"
  have "le_bytes 8 (swap_bytes64 (of_le_bytes bs)) = rev bs"
    using l by (simp add: le_bytes_swap64 le_bytes_of_le_bytes)
  then have "of_le_bytes (le_bytes 8 (swap_bytes64 (of_le_bytes bs))) = (of_le_bytes (rev bs) :: u64)"
    by simp
  then show ?thesis by (simp add: of_le_bytes_le_bytes)
qed

lemma get_u64_drop:
  "get_u64 (drop i buf) =
     (if length buf < i + 8 then Inl ReadException else Inr (u64_at i buf, drop (i + 8) buf))"
  by (auto simp: get_u64_def get_uint_outcome swap_of_le_bytes u64_at_def add.commute)

lemma get_Namespace_drop:
  "get_Namespace (drop i buf) =
     (if length buf < i + 17 then Inl ReadException
      else if 128 \<le> buf ! (i + 16) then Inl undefined_behaviour
      else rbind (mk_Namespace (name_at i buf) (buf ! (i + 16))) (\<lambda>ns. Inr (ns, drop (i + 17) buf)))"
  using get_u8_drop [of "i + 16" buf]
  by (auto simp: get_Namespace_def dbind_def get_Name_outcome mk_Namespace_ok mk_Namespace_ub name_at_def not_le add.commute)

lemmas get_drop = get_u8_drop get_u8_drop [of 0, unfolded drop_0] get_u64_drop get_Namespace_drop

section \<open>Properties\<close>

text \<open>C19. The control messages are read back from their bytes as they were written, and the
  bytes that follow are left in place.\<close>

theorem control_messages_roundtrip:
  assumes "Subscribe_ok v s" and "Unsubscribe_ok v u" and "SubscribeResponse_ok sr"
    and "SubscribeEnd_ok se" and "PublishIntentResponse_ok pir"
  shows "(\<exists>e. put_Subscribe buf s = Inr (buf @ e) \<and> get_Subscribe v (e @ rest) = Inr (s, rest)) \<and>
    (\<exists>e. put_Unsubscribe buf u = Inr (buf @ e) \<and> get_Unsubscribe v (e @ rest) = Inr (u, rest)) \<and>
    (\<exists>e. put_SubscribeResponse buf sr = Inr (buf @ e) \<and> get_SubscribeResponse (e @ rest) = Inr (sr, rest)) \<and>
    (\<exists>e. put_SubscribeEnd buf se = Inr (buf @ e) \<and> get_SubscribeEnd (e @ rest) = Inr (se, rest)) \<and>
    (\<exists>e. put_PublishIntentResponse buf pir = Inr (buf @ e) \<and>
         get_PublishIntentResponse (e @ rest) = Inr (pir, rest))"
  using assms
  by (intro conjI exI [where x = "enc_Subscribe s"] exI [where x = "enc_Unsubscribe u"]
      exI [where x = "enc_SubscribeResponse sr"] exI [where x = "enc_SubscribeEnd se"]
      exI [where x = "enc_PublishIntentResponse pir"])
    (simp_all add: subscribe.put_enc subscribe.get_enc unsubscribe.put_enc unsubscribe.get_enc
      subscribe_response.put_enc subscribe_response.get_enc subscribe_end.put_enc
      subscribe_end.get_enc publish_intent_response.put_enc publish_intent_response.get_enc)

definition sample_ns :: Namespace where
  "sample_ns = \<lparr>ns_name = Name 0x1234567800000000 0, sig_bits = 32\<rparr>"

lemma sample_ns_wf: "ns_wf sample_ns"
  by (rule mk_Namespace_wf [of "Name 0x1234567800000000 5" 32])
     (simp add: sample_ns_def mk_Namespace_def prefix_mask_def Name_shr_def Name_shr_assign_def
       shr64_def shl64_def Name_not_def zero_name_def Name_and_def sizeof_Name_def mask_numeral)

theorem control_messages_roundtrip_witness:
  "let s = \<lparr>s_version = 1, s_transaction_id = 7, s_namespace = sample_ns, s_intent = sync_up\<rparr>;
       u = \<lparr>u_version = 1, u_namespace = sample_ns\<rparr>;
       sr = \<lparr>sr_namespace = sample_ns, sr_response = Status_TimeOut, sr_transaction_id = 9\<rparr>;
       se = \<lparr>se_namespace = sample_ns, se_reason = Status_ConnectionClosed\<rparr>;
       pir = \<lparr>pir_message_type = MT_PublishIntentResponse, pir_namespace = sample_ns,
              pir_response = Response_Redirect, pir_transaction_id = 3\<rparr>
   in (\<exists>e. put_Subscribe [9] s = Inr ([9] @ e) \<and> get_Subscribe 1 (e @ [8]) = Inr (s, [8])) \<and>
    (\<exists>e. put_Unsubscribe [9] u = Inr ([9] @ e) \<and> get_Unsubscribe 1 (e @ [8]) = Inr (u, [8])) \<and>
    (\<exists>e. put_SubscribeResponse [9] sr = Inr ([9] @ e) \<and> get_SubscribeResponse (e @ [8]) = Inr (sr, [8])) \<and>
    (\<exists>e. put_SubscribeEnd [9] se = Inr ([9] @ e) \<and> get_SubscribeEnd (e @ [8]) = Inr (se, [8])) \<and>
    (\<exists>e. put_PublishIntentResponse [9] pir = Inr ([9] @ e) \<and>
         get_PublishIntentResponse (e @ [8]) = Inr (pir, [8]))"
  unfolding Let_def
  by (rule control_messages_roundtrip)
    (simp_all add: message_oks sample_ns_wf intent.named_def status.named_def response.named_def
      message_type.named_def SubscribeIntent_cast_def SubscribeStatus_cast_def Response_cast_def
      MessageType_cast_def)

text \<open>C18. The publish messages are read back from their bytes as they were written, provided the
  variable-length fields are below \<open>2 ^ 60\<close>, the vectors below 65536 bytes and the announced
  length of the media data is the length of the media data.\<close>

theorem publish_messages_roundtrip:
  assumes "PublishIntent_ok i" and "Header_ok h" and "PublishDatagram_ok d"
    and "PublishStream_ok s" and "PublishIntentEnd_ok n"
  shows "(\<exists>e. put_PublishIntent buf i = Inr (buf @ e) \<and> get_PublishIntent (e @ rest) = Inr (i, rest)) \<and>
    (\<exists>e. put_Header buf h = Inr (buf @ e) \<and> get_Header (e @ rest) = Inr (h, rest)) \<and>
    (\<exists>e. put_PublishDatagram buf d = Inr (buf @ e) \<and> get_PublishDatagram (e @ rest) = Inr (d, rest)) \<and>
    (\<exists>e. put_PublishStream buf s = Inr (buf @ e) \<and> get_PublishStream (e @ rest) = Inr (s, rest)) \<and>
    (\<exists>e. put_PublishIntentEnd buf n = Inr (buf @ e) \<and> get_PublishIntentEnd (e @ rest) = Inr (n, rest))"
  using assms
  by (intro conjI exI [where x = "enc_PublishIntent i"] exI [where x = "enc_Header h"]
      exI [where x = "enc_PublishDatagram d"] exI [where x = "enc_PublishStream s"]
      exI [where x = "enc_PublishIntentEnd n"])
    (simp_all add: publish_intent.put_enc publish_intent.get_enc header.put_enc header.get_enc
      publish_datagram.put_enc publish_datagram.get_enc publish_stream.put_enc
      publish_stream.get_enc publish_intent_end.put_enc publish_intent_end.get_enc)

theorem publish_messages_roundtrip_witness:
  "let i = \<lparr>pi_message_type = MT_PublishIntent, pi_transaction_id = 5, pi_namespace = sample_ns,
            pi_payload = [1, 2], pi_media_id = 300, pi_datagram_capable = 1\<rparr>;
       h = \<lparr>h_media_id = 1, h_name = Name 1 2, h_group_id = 200, h_object_id = 70000,
            h_offset_and_fin = 2401, h_flags = 0\<rparr>;
       d = \<lparr>pd_header = h, pd_media_type = RealtimeMedia, pd_media_data_length = 3,
            pd_media_data = [4, 5, 6]\<rparr>;
       s = \<lparr>ps_media_data_length = 1, ps_media_data = [7]\<rparr>;
       n = \<lparr>pie_message_type = MT_PublishIntentEnd, pie_namespace = sample_ns, pie_payload = []\<rparr>
   in (\<exists>e. put_PublishIntent [] i = Inr ([] @ e) \<and> get_PublishIntent (e @ [1]) = Inr (i, [1])) \<and>
    (\<exists>e. put_Header [] h = Inr ([] @ e) \<and> get_Header (e @ [1]) = Inr (h, [1])) \<and>
    (\<exists>e. put_PublishDatagram [] d = Inr ([] @ e) \<and> get_PublishDatagram (e @ [1]) = Inr (d, [1])) \<and>
    (\<exists>e. put_PublishStream [] s = Inr ([] @ e) \<and> get_PublishStream (e @ [1]) = Inr (s, [1])) \<and>
    (\<exists>e. put_PublishIntentEnd [] n = Inr ([] @ e) \<and> get_PublishIntentEnd (e @ [1]) = Inr (n, [1]))"
  unfolding Let_def
  by (rule publish_messages_roundtrip)
    (simp_all add: message_oks sample_ns_wf media_type.named_def message_type.named_def
      MediaType_cast_def MessageType_cast_def)

text \<open>A decoder that checks the type byte rejects every other type, whatever follows, and the
  publish decoders reject media data whose length is not the announced one.\<close>

lemma decoders_reject:
  "(t \<noteq> 1 \<longrightarrow> get_Subscribe v (t # rest) = Inl MessageTypeException) \<and>
   (t \<noteq> 4 \<longrightarrow> get_Unsubscribe v (t # rest) = Inl MessageTypeException) \<and>
   (t \<noteq> 2 \<longrightarrow> get_SubscribeResponse (t # rest) = Inl MessageTypeException) \<and>
   (t \<noteq> 3 \<longrightarrow> get_SubscribeEnd (t # rest) = Inl MessageTypeException) \<and>
   (t \<noteq> 5 \<longrightarrow> get_PublishDatagram (t # rest) = Inl MessageTypeException) \<and>
   (Header_ok h \<and> uintVar_ok n \<and> vec_ok d \<and> unat n \<noteq> length d \<longrightarrow>
      get_PublishDatagram (enc_PublishDatagram \<lparr>pd_header = h, pd_media_type = m,
        pd_media_data_length = n, pd_media_data = d\<rparr> @ rest) = Inl LengthException \<and>
      get_PublishStream (enc_PublishStream \<lparr>ps_media_data_length = n, ps_media_data = d\<rparr> @ rest)
        = Inl LengthException)"
proof -
  have "get_PublishDatagram (enc_PublishDatagram \<lparr>pd_header = h, pd_media_type = m,
        pd_media_data_length = n, pd_media_data = d\<rparr> @ rest) = Inl LengthException \<and>
      get_PublishStream (enc_PublishStream \<lparr>ps_media_data_length = n, ps_media_data = d\<rparr> @ rest)
        = Inl LengthException"
    if "Header_ok h" "uintVar_ok n" "vec_ok d" "unat n \<noteq> length d"
    using that
    by (simp add: get_PublishDatagram_def enc_PublishDatagram_def get_PublishStream_def
        enc_PublishStream_def uintVar_ok_def vec_ok_def codec_simps)
  then show ?thesis
    by (auto simp: get_Subscribe_def get_Unsubscribe_def get_SubscribeResponse_def
        get_SubscribeEnd_def get_PublishDatagram_def dbind_def)
qed

lemma decoders_reject_witness:
  "get_Subscribe 0 [7, 1] = Inl MessageTypeException \<and>
   get_PublishStream (enc_PublishStream \<lparr>ps_media_data_length = 2, ps_media_data = [1]\<rparr> @ [3])
     = Inl LengthException"
  using decoders_reject [of 7 0 "[1]" "\<lparr>h_media_id = 1, h_name = Name 1 2, h_group_id = 2,
    h_object_id = 3, h_offset_and_fin = 1, h_flags = 0\<rparr>" 2 "[1]" Text]
    decoders_reject [of 7 0 "[3]" "\<lparr>h_media_id = 1, h_name = Name 1 2, h_group_id = 2,
    h_object_id = 3, h_offset_and_fin = 1, h_flags = 0\<rparr>" 2 "[1]" Text]
  by (simp add: message_oks)

text \<open>C31. What decoding a control message does on every buffer, byte by byte: which message and which rest
  it returns, and which error otherwise. The first byte is compared with the type, except in the answer to
  a publish intent, and every field is checked to be there. A message that announces a namespace of 128 or more significant bits reaches
  the undefined shift of the namespace constructor; every other malformed one ends in a read exception.\<close>

theorem control_decode_outcome:
  "get_Subscribe v buf =
     (if buf = [] then Inl ReadException
      else if buf ! 0 \<noteq> 1 then Inl MessageTypeException
      else if length buf < 26 then Inl ReadException
      else if 128 \<le> buf ! 25 then Inl undefined_behaviour
      else if length buf < 27 then Inl ReadException
      else rbind (mk_Namespace (name_at 9 buf) (buf ! 25)) (\<lambda>ns.
        Inr (\<lparr>s_version = v, s_transaction_id = u64_at 1 buf, s_namespace = ns,
          s_intent = SubscribeIntent_cast (buf ! 26)\<rparr>, drop 27 buf))) \<and>
   get_Unsubscribe v buf =
     (if buf = [] then Inl ReadException
      else if buf ! 0 \<noteq> 4 then Inl MessageTypeException
      else if length buf < 18 then Inl ReadException
      else if 128 \<le> buf ! 17 then Inl undefined_behaviour
      else rbind (mk_Namespace (name_at 1 buf) (buf ! 17)) (\<lambda>ns.
        Inr (\<lparr>u_version = v, u_namespace = ns\<rparr>, drop 18 buf))) \<and>
   get_SubscribeResponse buf =
     (if buf = [] then Inl ReadException
      else if buf ! 0 \<noteq> 2 then Inl MessageTypeException
      else if length buf < 27 then Inl ReadException
      else if 128 \<le> buf ! 26 then Inl undefined_behaviour
      else rbind (mk_Namespace (name_at 10 buf) (buf ! 26)) (\<lambda>ns.
        Inr (\<lparr>sr_namespace = ns, sr_response = SubscribeStatus_cast (buf ! 1),
          sr_transaction_id = u64_at 2 buf\<rparr>, drop 27 buf))) \<and>
   get_SubscribeEnd buf =
     (if buf = [] then Inl ReadException
      else if buf ! 0 \<noteq> 3 then Inl MessageTypeException
      else if length buf < 19 then Inl ReadException
      else if 128 \<le> buf ! 18 then Inl undefined_behaviour
      else rbind (mk_Namespace (name_at 2 buf) (buf ! 18)) (\<lambda>ns.
        Inr (\<lparr>se_namespace = ns, se_reason = SubscribeStatus_cast (buf ! 1)\<rparr>, drop 19 buf))) \<and>
   get_PublishIntentResponse buf =
     (if length buf < 18 then Inl ReadException
      else if 128 \<le> buf ! 17 then Inl undefined_behaviour
      else if length buf < 27 then Inl ReadException
      else rbind (mk_Namespace (name_at 1 buf) (buf ! 17)) (\<lambda>ns.
        Inr (\<lparr>pir_message_type = MessageType_cast (buf ! 0), pir_namespace = ns,
          pir_response = Response_cast (buf ! 18), pir_transaction_id = u64_at 19 buf\<rparr>, drop 27 buf)))"
  by (intro conjI)
    (auto simp: get_Subscribe_def get_Unsubscribe_def get_SubscribeResponse_def get_SubscribeEnd_def
      get_PublishIntentResponse_def dbind_def dret_def get_drop mk_Namespace_ok numeral_2_eq_2)

end
