(* ===== verification/Transport.thy ===== *)
theory Transport
  imports Encode
begin

text \<open>
  What the client and the server share besides the messages: the result structs of
  \<^verbatim>\<open>include/quicr/quicr_common.h\<close> and the vocabulary of the transport library, which is a
  separate repository. Of the transport only what the sources name appears: context and stream
  ids are 64-bit numbers, and \<^verbatim>\<open>TransportStatus\<close> is compared with three enumerators. Its
  behaviour is a parameter of the operations that call it: whether \<^verbatim>\<open>enqueue\<close> returns
  \<^verbatim>\<open>TransportError::None\<close> and what each \<^verbatim>\<open>dequeue\<close> returns.
\<close>

type_synonym TransportContextId = u64
type_synonym StreamId = u64

datatype TransportStatus = TS_Ready | TS_Connecting | TS_Disconnected | TS_other nat

definition MAX_TRANSPORT_DATA_SIZE :: nat where
  "MAX_TRANSPORT_DATA_SIZE = 1200"

datatype Protocol = UDP | QUIC

record RelayInfo =
  hostname :: string
  port :: u16
  proto :: Protocol

datatype TransportProtocol = TP_UDP | TP_QUIC

record TransportRemote =
  host_or_ip :: string
  remote_port :: u16
  remote_proto :: TransportProtocol

record SubscribeResult =
  sres_status :: SubscribeStatus
  reason_string :: string
  subscriber_expiry_interval :: "u64 option"
  sres_redirectInfo :: RelayInfo

record PublishIntentResult =
  pres_status :: Response
  pres_redirectInfo :: RelayInfo
  reassignedName :: Name

definition empty_RelayInfo :: RelayInfo where
  "empty_RelayInfo = \<lparr>hostname = [], port = 0, proto = UDP\<rparr>"

text \<open>The designated initialisers \<^verbatim>\<open>{ .status = s }\<close>: every other member is value-initialised.\<close>

definition SubscribeResult_of :: "SubscribeStatus \<Rightarrow> SubscribeResult" where
  "SubscribeResult_of s = \<lparr>sres_status = s, reason_string = [],
     subscriber_expiry_interval = None, sres_redirectInfo = empty_RelayInfo\<rparr>"

definition PublishIntentResult_of :: "Response \<Rightarrow> PublishIntentResult" where
  "PublishIntentResult_of r = \<lparr>pres_status = r, pres_redirectInfo = empty_RelayInfo,
     reassignedName = zero_name\<rparr>"

text \<open>\<^verbatim>\<open>on_recv_notify\<close> takes at most 150 messages off the queue and stops at the first one
  that is missing or that the handler throws on. \<open>dequeue i\<close> is what the \<open>i\<close>-th call returns.\<close>

fun recv_loop :: "nat \<Rightarrow> (nat \<Rightarrow> bytes option) \<Rightarrow> nat \<Rightarrow> (bytes \<Rightarrow> ('s, unit) op) \<Rightarrow> ('s, unit) op" where
  "recv_loop 0 dequeue i handle = op_return ()"
| "recv_loop (Suc n) dequeue i handle =
     (case dequeue i of
        None \<Rightarrow> op_return ()
      | Some data \<Rightarrow>
          op_bind (op_catch (op_bind (handle data) (\<lambda>_. op_return True)) (\<lambda>e. op_return False)) (\<lambda>go_on.
          if go_on then recv_loop n dequeue (Suc i) handle else op_return ()))"

definition RECV_LIMIT :: nat where
  "RECV_LIMIT = 150"

lemma keeps_recv_loop [keeps_intros]:
  assumes "\<And>data. op_keeps I (handle data)"
  shows "op_keeps I (recv_loop n dequeue i handle)"
  by (induction n arbitrary: i) (auto intro!: keeps_intros assms split: option.splits)

text \<open>Apart from undefined behaviour nothing escapes from the loop.\<close>

lemma recv_loop_outcome:
  "fst (recv_loop n dequeue i handle s) = Inr () \<or>
   fst (recv_loop n dequeue i handle s) = Inl undefined_behaviour"
proof (induction n arbitrary: i s)
  case 0
  show ?case by (simp add: op_run)
next
  case (Suc n)
  show ?case
  proof (cases "dequeue i")
    case None
    then show ?thesis by (simp add: op_run)
  next
    case (Some d)
    obtain r t where h: "handle d s = (r, t)" by (cases "handle d s")
    with Some Suc show ?thesis
      by (cases r) (auto simp: op_bind_def op_catch_def op_run is_std_exception_def)
  qed
qed

lemma recv_loop_step:
  "dequeue i = Some d \<Longrightarrow> handle d s = (Inr (), t) \<Longrightarrow>
     recv_loop (Suc n) dequeue i handle s = recv_loop n dequeue (Suc i) handle t"
  by (simp add: op_bind_def op_catch_def op_run)

lemma recv_loop_stop:
  "dequeue i = Some d \<Longrightarrow> handle d s = (Inl e, t) \<Longrightarrow> is_std_exception e \<Longrightarrow>
     recv_loop (Suc n) dequeue i handle s = (Inr (), t)"
  by (simp add: op_bind_def op_catch_def op_run)

end
