(* ===== verification/Quicr_Client.thy ===== *)
theory Quicr_Client
  imports Transport
begin

text \<open>
  \<^verbatim>\<open>quicr::QuicRClient\<close> and its transport delegate (\<^verbatim>\<open>include/quicr/quicr_client.h\<close>,
  \<^verbatim>\<open>src/quicr_client.cpp\<close>). The record \<open>Client\<close> has the members of the class and the two
  static variables of the reassembly code, \<^verbatim>\<open>fragments\<close> and \<^verbatim>\<open>cindex\<close>; every method is
  an operation on it. The static variables belong to the process and all its clients share them: a
  \<open>Client\<close> is a process with one client in it, and two clients of one process are not modelled. Calls of the transport and of the application's delegates are appended
  to \<open>events\<close> in the order they happen.

  Parameters, in the record \<open>client_env\<close>: whether the transport accepts a message
  (\<open>accepts\<close>, which may depend on everything that happened before), whether a weak pointer
  to a delegate can still be locked (\<open>alive\<close>, constant during one operation: each call of an operation
  has its own \<open>client_env\<close>), and what a delegate leaves in the buffer it
  is handed as an rvalue (\<open>leaves\<close>). A delegate is identified by a number. Transaction ids are
  drawn at random and are arguments. The operations are the critical sections, one after the other;
  the mutex is the subject of \<^verbatim>\<open>Client_Mutex\<close>, the sleeps that pace UDP of \<^verbatim>\<open>Pacing\<close>. Log output is not
  modelled.
\<close>

unbundle bit_operations_syntax

section \<open>State\<close>

type_synonym delegate = nat

datatype ClientStatus =
    READY | CONNECTING | RELAY_HOST_INVALID | RELAY_PORT_INVALID | RELAY_NOT_CONNECTED
  | TRANSPORT_ERROR | UNAUTHORIZED | TERMINATED

datatype context_state = State_Unknown | State_Pending | State_Ready

record SubscribeContext =
  sc_state :: context_state
  sc_transport_context_id :: TransportContextId
  sc_transport_stream_id :: StreamId
  sc_transaction_id :: u64

record PublishContext =
  pc_state :: context_state
  pc_transport_context_id :: TransportContextId
  pc_transport_stream_id :: StreamId
  pc_group_id :: u64
  pc_object_id :: u64
  pc_offset :: u64

datatype client_event =
    Enqueue TransportContextId StreamId bytes
  | OnSubscribeResponse delegate Namespace SubscribeResult
  | OnSubscriptionEnded delegate Namespace SubscribeStatus
  | OnSubscribedObject delegate Name u8 u16 bool bytes
  | OnPublishIntentResponse delegate Namespace PublishIntentResult

type_synonym frag_map = "(int \<times> bytes) list"
type_synonym frag_buffer = "(Name \<times> frag_map) list"

record Client =
  client_status :: ClientStatus
  transport_context_id :: TransportContextId
  transport_stream_id :: StreamId
  sub_delegates :: "(Namespace \<times> delegate) list"
  pub_delegates :: "(Namespace \<times> delegate) list"
  subscribe_state :: "(Namespace \<times> SubscribeContext) list"
  publish_state :: "(Name \<times> PublishContext) list"
  MAX_FRAGMENT_NAMES_PENDING_PER_BUFFER :: u32
  MAX_FRAGMENT_BUFFERS :: u32
  fragments :: "(int \<times> frag_buffer) list"
  cindex :: u32
  events :: "client_event list"

record client_env =
  accepts :: "client_event list \<Rightarrow> TransportContextId \<Rightarrow> StreamId \<Rightarrow> bytes \<Rightarrow> bool"
  alive :: "delegate \<Rightarrow> bool"
  leaves :: "delegate \<Rightarrow> bytes \<Rightarrow> bytes"

type_synonym 'a client_op = "(Client, 'a) op"

abbreviation (input) int_lt :: "int \<Rightarrow> int \<Rightarrow> bool" where
  "int_lt \<equiv> (\<lambda>a b. a < b)"

interpretation int_order: strict_total_order int_lt
  by unfold_locales auto

text \<open>A client with the given context id; its constructor from a transport leaves the context id
  indeterminate and the stream id zero.\<close>

definition new_client :: "TransportContextId \<Rightarrow> StreamId \<Rightarrow> Client" where
  "new_client ctx stream =
     \<lparr>client_status = TERMINATED, transport_context_id = ctx, transport_stream_id = stream,
      sub_delegates = [], pub_delegates = [], subscribe_state = [], publish_state = [],
      MAX_FRAGMENT_NAMES_PENDING_PER_BUFFER = 5000, MAX_FRAGMENT_BUFFERS = 20,
      fragments = [], cindex = 1, events = []\<rparr>"

definition QuicRClient_of_transport :: "TransportContextId \<Rightarrow> Client" where
  "QuicRClient_of_transport indeterminate = new_client indeterminate 0"

text \<open>\<open>make_transport\<close> polls the status until it is no longer \<^verbatim>\<open>Connecting\<close>. \<open>status i\<close> is
  what the \<open>i\<close>-th call of \<^verbatim>\<open>transport->status()\<close> returns: the loop condition and the log line of
  each round call it once each. \<open>None\<close> is a connection that is never decided.\<close>

partial_function (option) poll_status :: "(nat \<Rightarrow> TransportStatus) \<Rightarrow> nat \<Rightarrow> nat option" where
  "poll_status status i =
     (if status i = TS_Connecting then poll_status status (i + 2) else Some (i + 1))"

definition make_transport ::
  "(nat \<Rightarrow> TransportStatus) \<Rightarrow> TransportContextId \<Rightarrow> StreamId \<Rightarrow> Client res option" where
  "make_transport status start_result stream_result =
     (case poll_status status 0 of
        None \<Rightarrow> None
      | Some i \<Rightarrow>
          Some (if status i \<noteq> TS_Ready then Inl runtime_error
                else Inr (new_client start_result stream_result)))"

definition client_status_of :: "Client \<Rightarrow> ClientStatus" where
  "client_status_of c = client_status c"

section \<open>Calls of the environment\<close>

definition enqueue :: "client_env \<Rightarrow> TransportContextId \<Rightarrow> StreamId \<Rightarrow> bytes \<Rightarrow> bool client_op" where
  "enqueue env ctx stream data =
     op_bind (op_get events) (\<lambda>before.
     op_bind (op_modify (\<lambda>c. c\<lparr>events := events c @ [Enqueue ctx stream data]\<rparr>)) (\<lambda>_.
     op_return (accepts env before ctx stream data)))"

definition callback :: "client_env \<Rightarrow> delegate \<Rightarrow> client_event \<Rightarrow> unit client_op" where
  "callback env d ev = op_when (alive env d) (op_modify (\<lambda>c. c\<lparr>events := events c @ [ev]\<rparr>))"

section \<open>Publish intents\<close>

definition publishIntent ::
  "client_env \<Rightarrow> u64 \<Rightarrow> delegate \<Rightarrow> Namespace \<Rightarrow> bytes \<Rightarrow> bool client_op" where
  "publishIntent env tid pub_delegate ns payload =
     op_bind (op_get pub_delegates) (\<lambda>ds.
     op_then (op_when (\<not> map_has Namespace_lt ns ds)
       (op_modify (\<lambda>c. c\<lparr>pub_delegates := map_set Namespace_lt ns pub_delegate (pub_delegates c)\<rparr>))) (
     op_bind (op_get transport_context_id) (\<lambda>ctx.
     op_bind (op_get transport_stream_id) (\<lambda>stream.
     op_bind (op_lift (mk_uintVar stream)) (\<lambda>media_id.
     op_bind (op_lift (mk_uintVar 1)) (\<lambda>datagram_capable.
     op_bind (op_lift (put_PublishIntent []
       \<lparr>pi_message_type = MT_PublishIntent, pi_transaction_id = tid, pi_namespace = ns,
        pi_payload = payload, pi_media_id = media_id,
        pi_datagram_capable = datagram_capable\<rparr>)) (\<lambda>msg.
     enqueue env ctx stream msg)))))))"

definition publishIntentEnd :: "client_env \<Rightarrow> Namespace \<Rightarrow> unit client_op" where
  "publishIntentEnd env ns =
     op_bind (op_get pub_delegates) (\<lambda>ds.
     if \<not> map_has Namespace_lt ns ds then op_return ()
     else
       op_then (op_modify (\<lambda>c. c\<lparr>pub_delegates := map_erase Namespace_lt ns (pub_delegates c)\<rparr>)) (
       op_bind (op_get transport_context_id) (\<lambda>ctx.
       op_bind (op_get transport_stream_id) (\<lambda>stream.
       op_bind (op_lift (put_PublishIntentEnd []
         \<lparr>pie_message_type = MT_PublishIntentEnd, pie_namespace = ns, pie_payload = []\<rparr>)) (\<lambda>msg.
       op_bind (enqueue env ctx stream msg) (\<lambda>_. op_return ()))))))"

section \<open>Subscriptions\<close>

definition subscribe ::
  "client_env \<Rightarrow> u64 \<Rightarrow> delegate \<Rightarrow> Namespace \<Rightarrow> SubscribeIntent \<Rightarrow> unit client_op" where
  "subscribe env tid subscriber_delegate ns intent =
     op_bind (op_get sub_delegates) (\<lambda>ds.
     op_then (op_when (\<not> map_has Namespace_lt ns ds)
       (op_modify (\<lambda>c. c\<lparr>sub_delegates := map_set Namespace_lt ns subscriber_delegate (sub_delegates c)\<rparr>))) (
     op_bind (op_lift (put_Subscribe []
       \<lparr>s_version = 1, s_transaction_id = tid, s_namespace = ns, s_intent = intent\<rparr>)) (\<lambda>msg.
     op_bind (op_get id) (\<lambda>c.
     let ctx = transport_context_id c; stream = transport_stream_id c in
     case map_find Namespace_lt ns (subscribe_state c) of
       None \<Rightarrow>
         op_then (op_modify (\<lambda>c. c\<lparr>subscribe_state := map_set Namespace_lt ns
           \<lparr>sc_state = State_Pending, sc_transport_context_id = ctx,
            sc_transport_stream_id = stream, sc_transaction_id = tid\<rparr> (subscribe_state c)\<rparr>)) (
         op_bind (enqueue env ctx stream msg) (\<lambda>_. op_return ()))
     | Some sctx \<Rightarrow>
         if sc_state sctx = State_Ready then op_return ()
         else op_bind (enqueue env ctx stream msg) (\<lambda>_. op_return ())))))"

definition removeSubscribeState_one ::
  "client_env \<Rightarrow> Namespace \<Rightarrow> SubscribeStatus \<Rightarrow> unit client_op" where
  "removeSubscribeState_one env ns reason =
     op_bind (op_get id) (\<lambda>c.
     op_then (op_when (map_has Namespace_lt ns (subscribe_state c))
       (op_modify (\<lambda>c. c\<lparr>subscribe_state := map_erase Namespace_lt ns (subscribe_state c)\<rparr>))) (
     case map_find Namespace_lt ns (sub_delegates c) of
       None \<Rightarrow> op_return ()
     | Some d \<Rightarrow>
         op_then (callback env d (OnSubscriptionEnded d ns reason))
           (op_modify (\<lambda>c. c\<lparr>sub_delegates := map_erase Namespace_lt ns (sub_delegates c)\<rparr>))))"

definition removeSubscribeState ::
  "client_env \<Rightarrow> bool \<Rightarrow> Namespace \<Rightarrow> SubscribeStatus \<Rightarrow> unit client_op" where
  "removeSubscribeState env all ns reason =
     (if all then
        op_bind (op_get (\<lambda>c. map fst (subscribe_state c))) (\<lambda>namespaces_to_remove.
        op_for namespaces_to_remove (\<lambda>ns. removeSubscribeState_one env ns reason))
      else removeSubscribeState_one env ns reason)"

definition unsubscribe :: "client_env \<Rightarrow> Namespace \<Rightarrow> unit client_op" where
  "unsubscribe env ns =
     op_bind (op_lift (put_Unsubscribe [] \<lparr>u_version = 1, u_namespace = ns\<rparr>)) (\<lambda>msg.
     op_bind (op_get id) (\<lambda>c.
     op_then (op_when (map_has Namespace_lt ns (subscribe_state c))
       (op_modify (\<lambda>c. c\<lparr>subscribe_state := map_erase Namespace_lt ns (subscribe_state c)\<rparr>))) (
     op_bind (enqueue env (transport_context_id c) (transport_stream_id c) msg) (\<lambda>_.
     op_return ()))))"

definition empty_Namespace :: Namespace where
  "empty_Namespace = \<lparr>ns_name = zero_name, sig_bits = 0\<rparr>"

definition client_destroy :: "client_env \<Rightarrow> unit client_op" where
  "client_destroy env = removeSubscribeState env True empty_Namespace Status_ConnectionClosed"

section \<open>Publishing an object\<close>

text \<open>The value of the \<^verbatim>\<open>int\<close> expressions \<open>offset << 1\<close> and \<open>(offset << 1) + 1\<close>, converted to
  \<^verbatim>\<open>uint64_t\<close> and assigned to a \<^verbatim>\<open>uintVar_t\<close>.\<close>

definition offset_field :: "int \<Rightarrow> bool \<Rightarrow> uintVar_t res" where
  "offset_field offset fin =
     mk_uintVar (word_of_int (to_int32 (push_bit 1 offset) + (if fin then 1 else 0)))"

definition send_fragment ::
  "client_env \<Rightarrow> StreamId \<Rightarrow> Header \<Rightarrow> uintVar_t \<Rightarrow> bytes \<Rightarrow> bool client_op" where
  "send_fragment env stream header offset_and_fin frag_data =
     op_bind (op_lift (mk_uintVar (of_nat (length frag_data)))) (\<lambda>len.
     op_bind (op_lift (put_PublishDatagram []
       \<lparr>pd_header = header\<lparr>h_offset_and_fin := offset_and_fin\<rparr>, pd_media_type = RealtimeMedia,
        pd_media_data_length = len, pd_media_data = frag_data\<rparr>)) (\<lambda>msg.
     op_bind (op_get transport_context_id) (\<lambda>ctx.
     enqueue env ctx stream msg)))"

text \<open>The \<^verbatim>\<open>while (frag_num-- > 0)\<close> loop: \<open>Suc frag_num\<close> rounds are left. It returns the offset it
  has reached, or nothing when a fragment was not accepted and the method returns.\<close>

fun fragment_loop ::
  "client_env \<Rightarrow> StreamId \<Rightarrow> Header \<Rightarrow> bytes \<Rightarrow> nat \<Rightarrow> int \<Rightarrow> nat \<Rightarrow> int option client_op" where
  "fragment_loop env stream header data remaining offset 0 = op_return (Some offset)"
| "fragment_loop env stream header data remaining offset (Suc frag_num) =
     op_bind (op_lift (offset_field offset (frag_num = 0 \<and> remaining = 0))) (\<lambda>offset_and_fin.
     op_bind (send_fragment env stream header offset_and_fin
       (take MAX_TRANSPORT_DATA_SIZE (drop (nat offset) data))) (\<lambda>ok.
     if ok then
       fragment_loop env stream header data remaining
         (offset + int MAX_TRANSPORT_DATA_SIZE) frag_num
     else op_return None))"

definition publish_context :: "Client \<Rightarrow> Name \<Rightarrow> PublishContext" where
  "publish_context c name =
     (case map_find Name_lt name (publish_state c) of
        None \<Rightarrow> \<lparr>pc_state = State_Pending, pc_transport_context_id = transport_context_id c,
                 pc_transport_stream_id = transport_stream_id c, pc_group_id = 0,
                 pc_object_id = 0, pc_offset = 0\<rparr>
      | Some context \<Rightarrow> context)"

definition publishNamedObject :: "client_env \<Rightarrow> Name \<Rightarrow> bytes \<Rightarrow> unit client_op" where
  "publishNamedObject env name data =
     op_bind (op_get (\<lambda>c. publish_context c name)) (\<lambda>context.
     op_bind (op_lift (mk_uintVar (pc_transport_stream_id context))) (\<lambda>media_id.
     op_bind (op_lift (mk_uintVar (pc_group_id context))) (\<lambda>group_id.
     op_bind (op_lift (mk_uintVar (pc_object_id context))) (\<lambda>object_id.
     let header = \<lparr>h_media_id = media_id, h_name = name, h_group_id = group_id,
                   h_object_id = object_id, h_offset_and_fin = 1, h_flags = 0\<rparr>;
         stream = pc_transport_stream_id context in
     if length data \<le> MAX_TRANSPORT_DATA_SIZE then
       op_bind (send_fragment env stream header 1 data) (\<lambda>_. op_return ())
     else
       let frag_num = nat (to_int32 (int (length data div MAX_TRANSPORT_DATA_SIZE)));
           remaining = length data mod MAX_TRANSPORT_DATA_SIZE in
       op_bind (fragment_loop env stream header data remaining 0 frag_num) (\<lambda>reached.
       case reached of
         None \<Rightarrow> op_return ()
       | Some offset \<Rightarrow>
           op_when (remaining \<noteq> 0) (
             op_bind (op_lift (offset_field offset True)) (\<lambda>offset_and_fin.
             op_bind (send_fragment env stream header offset_and_fin (drop (nat offset) data)) (\<lambda>_.
             op_return ()))))))))"

definition publishNamedObjectFragment ::
  "Name \<Rightarrow> u8 \<Rightarrow> u16 \<Rightarrow> bool \<Rightarrow> u64 \<Rightarrow> bool \<Rightarrow> bytes \<Rightarrow> unit client_op" where
  "publishNamedObjectFragment name priority expiry_age_ms use_reliable_transport offset
     is_last_fragment data = op_lift (Inl runtime_error)"

section \<open>Reassembly\<close>

text \<open>The loop of \<open>notify_pub_fragment\<close>: nothing when an offset does not continue the bytes
  gathered so far.\<close>

fun reassemble :: "int \<Rightarrow> bytes \<Rightarrow> frag_map \<Rightarrow> bytes option" where
  "reassemble seq_bytes reassembled [] = Some reassembled"
| "reassemble seq_bytes reassembled ((k, d) # items) =
     (if drop_bit 1 k - seq_bytes \<noteq> 0 then None
      else reassemble (to_int32 (seq_bytes + int (length d))) (reassembled @ d) items)"

definition deliver_copies :: "client_env \<Rightarrow> Name \<Rightarrow> bytes \<Rightarrow> unit client_op" where
  "deliver_copies env name reassembled =
     op_bind (op_get sub_delegates) (\<lambda>ds.
     op_for ds (\<lambda>(ns, d).
       op_bind (op_lift (contains ns name)) (\<lambda>c.
       op_when c (callback env d (OnSubscribedObject d name 0 0 False reassembled)))))"

definition notify_pub_fragment :: "client_env \<Rightarrow> Name \<Rightarrow> frag_map \<Rightarrow> bool client_op" where
  "notify_pub_fragment env name fm =
     (if fm = [] then op_lift (Inl undefined_behaviour)
      else if fst (last fm) AND 1 \<noteq> 1 then op_return False
      else case reassemble 0 [] fm of
        None \<Rightarrow> op_return False
      | Some reassembled \<Rightarrow>
          op_bind (deliver_copies env name reassembled) (\<lambda>_. op_return True))"

definition cindex_key :: "Client \<Rightarrow> int" where
  "cindex_key c = to_int32 (uint (cindex c))"

text \<open>\<open>fragments[i]\<close> creates the buffer when it is missing; \<open>set_buffer\<close> stores a changed one.\<close>

definition touch_buffer :: "int \<Rightarrow> unit client_op" where
  "touch_buffer i = op_modify (\<lambda>c. c\<lparr>fragments := map_touch int_lt [] i (fragments c)\<rparr>)"

definition set_buffer :: "int \<Rightarrow> frag_buffer \<Rightarrow> unit client_op" where
  "set_buffer i buf = op_modify (\<lambda>c. c\<lparr>fragments := map_set int_lt i buf (fragments c)\<rparr>)"

definition erase_name :: "int \<Rightarrow> Name \<Rightarrow> unit client_op" where
  "erase_name i name = op_modify (\<lambda>c. c\<lparr>fragments :=
     map_set int_lt i (map_erase Name_lt name (map_get int_lt [] i (fragments c))) (fragments c)\<rparr>)"

text \<open>The first buffer that has the name, in the order of the circular index.\<close>

definition find_buffer :: "Name \<Rightarrow> (int \<times> frag_buffer) list \<Rightarrow> (int \<times> frag_buffer) option" where
  "find_buffer name frs = find (\<lambda>(i, buf). map_has Name_lt name buf) frs"

definition next_buffer :: "unit client_op" where
  "next_buffer =
     op_bind (op_get id) (\<lambda>c.
     op_when (length (map_get int_lt [] (cindex_key c) (fragments c))
                \<ge> unat (MAX_FRAGMENT_NAMES_PENDING_PER_BUFFER c)) (
       op_then (op_modify (\<lambda>c. c\<lparr>cindex := if cindex c < MAX_FRAGMENT_BUFFERS c then cindex c + 1 else 1\<rparr>))
         (op_bind (op_get cindex_key) (\<lambda>i.
          op_modify (\<lambda>c. c\<lparr>fragments := map_erase int_lt i (fragments c)\<rparr>)))))"

text \<open>The part of \<open>handle_pub_fragment\<close> before the last \<^verbatim>\<open>if\<close>: \<open>ci\<close> is the current index and
  \<open>cur\<close> its buffer. A message that completes in another buffer erases, from the current
  one, an iterator that does not belong to it.\<close>

definition store_fragment ::
  "client_env \<Rightarrow> Name \<Rightarrow> int \<Rightarrow> bytes \<Rightarrow> int \<Rightarrow> frag_buffer \<Rightarrow> unit client_op" where
  "store_fragment env name key data ci cur =
     (case map_find Name_lt name cur of
        Some fm \<Rightarrow>
          let fm' = map_emplace int_lt key data fm in
          op_then (set_buffer ci (map_set Name_lt name fm' cur)) (
          op_bind (notify_pub_fragment env name fm') (\<lambda>complete.
          op_when complete (erase_name ci name)))
      | None \<Rightarrow>
          op_bind (op_get (\<lambda>c. find_buffer name (fragments c))) (\<lambda>found.
          case found of
            Some (i, buf) \<Rightarrow>
              let fm' = map_emplace int_lt key data (map_get Name_lt [] name buf) in
              op_then (set_buffer i (map_set Name_lt name fm' buf)) (
              op_bind (notify_pub_fragment env name fm') (\<lambda>complete.
              op_when complete (op_lift (Inl undefined_behaviour))))
          | None \<Rightarrow> set_buffer ci (map_set Name_lt name [(key, data)] cur)))"

definition handle_pub_fragment :: "client_env \<Rightarrow> PublishDatagram \<Rightarrow> unit client_op" where
  "handle_pub_fragment env datagram =
     op_bind (op_get cindex_key) (\<lambda>ci.
     op_then (touch_buffer ci) (
     op_bind (op_get (\<lambda>c. map_get int_lt [] ci (fragments c))) (\<lambda>cur.
     op_then (store_fragment env (h_name (pd_header datagram))
       (to_int32 (uint (h_offset_and_fin (pd_header datagram)))) (pd_media_data datagram) ci cur)
       next_buffer)))"

section \<open>Messages from the relay\<close>

text \<open>An unfragmented object: every matching delegate is handed the same buffer as an rvalue, so
  each sees what the one before left in it.\<close>

primrec deliver_moved :: "client_env \<Rightarrow> Name \<Rightarrow> (Namespace \<times> delegate) list \<Rightarrow> bytes \<Rightarrow> unit client_op" where
  "deliver_moved env name [] media_data = op_return ()"
| "deliver_moved env name (entry # ds) media_data =
     op_bind (op_lift (contains (fst entry) name)) (\<lambda>c.
     if c \<and> alive env (snd entry) then
       op_then (callback env (snd entry) (OnSubscribedObject (snd entry) name 0 0 False media_data))
         (deliver_moved env name ds (leaves env (snd entry) media_data))
     else deliver_moved env name ds media_data)"

definition handle_SubscribeResponse :: "client_env \<Rightarrow> SubscribeResponse \<Rightarrow> unit client_op" where
  "handle_SubscribeResponse env response =
     op_bind (op_get sub_delegates) (\<lambda>ds.
     case map_find Namespace_lt (sr_namespace response) ds of
       None \<Rightarrow> op_return ()
     | Some d \<Rightarrow> callback env d (OnSubscribeResponse d (sr_namespace response)
                  (SubscribeResult_of (sr_response response))))"

definition handle_Publish :: "client_env \<Rightarrow> PublishDatagram \<Rightarrow> unit client_op" where
  "handle_Publish env datagram =
     (if h_offset_and_fin (pd_header datagram) = 1 then
        op_bind (op_get sub_delegates) (\<lambda>ds.
        deliver_moved env (h_name (pd_header datagram)) ds (pd_media_data datagram))
      else handle_pub_fragment env datagram)"

definition handle_PublishIntentResponse :: "client_env \<Rightarrow> PublishIntentResponse \<Rightarrow> unit client_op" where
  "handle_PublishIntentResponse env response =
     op_bind (op_get pub_delegates) (\<lambda>ds.
     case map_find Namespace_lt (pir_namespace response) ds of
       None \<Rightarrow> op_return ()
     | Some d \<Rightarrow> callback env d (OnPublishIntentResponse d (pir_namespace response)
                  (PublishIntentResult_of (pir_response response))))"

definition client_handle :: "client_env \<Rightarrow> bytes \<Rightarrow> unit client_op" where
  "client_handle env msg =
     (if mb_empty msg then op_return ()
      else op_bind (op_lift (front msg)) (\<lambda>b.
        case MessageType_cast b of
          MT_SubscribeResponse \<Rightarrow>
            op_bind (op_lift (get_SubscribeResponse msg)) (\<lambda>(response, _).
            handle_SubscribeResponse env response)
        | MT_SubscribeEnd \<Rightarrow>
            op_bind (op_lift (get_SubscribeEnd msg)) (\<lambda>(subEnd, _).
            removeSubscribeState env False (se_namespace subEnd) (se_reason subEnd))
        | MT_Publish \<Rightarrow>
            op_bind (op_lift (get_PublishDatagram msg)) (\<lambda>(datagram, _).
            handle_Publish env datagram)
        | MT_PublishIntentResponse \<Rightarrow>
            op_bind (op_lift (get_PublishIntentResponse msg)) (\<lambda>(response, _).
            handle_PublishIntentResponse env response)
        | _ \<Rightarrow> op_return ()))"

section \<open>The transport delegate\<close>

definition client_on_connection_status :: "client_env \<Rightarrow> TransportStatus \<Rightarrow> unit client_op" where
  "client_on_connection_status env status =
     op_when (status = TS_Disconnected)
       (removeSubscribeState env True empty_Namespace Status_ConnectionClosed)"

definition client_on_recv_notify :: "client_env \<Rightarrow> (nat \<Rightarrow> bytes option) \<Rightarrow> unit client_op" where
  "client_on_recv_notify env dequeue = recv_loop RECV_LIMIT dequeue 0 (client_handle env)"

section \<open>Running the environment's calls\<close>

lemma enqueue_run [op_simps]:
  "enqueue env ctx stream data c =
     (Inr (accepts env (events c) ctx stream data), c\<lparr>events := events c @ [Enqueue ctx stream data]\<rparr>)"
  by (simp add: enqueue_def op_simps)

lemma callback_run [op_simps]:
  "callback env d ev c = (Inr (), if alive env d then c\<lparr>events := events c @ [ev]\<rparr> else c)"
  by (simp add: callback_def op_when_def op_simps)

text \<open>Operations that change nothing but the events.\<close>

definition only_events :: "'a client_op \<Rightarrow> bool" where
  "only_events m \<longleftrightarrow> (\<forall>c. \<exists>es. snd (m c) = c\<lparr>events := es\<rparr>)"

named_theorems only_events_intros \<open>operations that change nothing but the events\<close>

lemma events_self: "\<exists>es. c = c\<lparr>events := es\<rparr>" for c :: Client
  by (rule exI [of _ "events c"]) simp

lemma only_events_basic [only_events_intros]:
  "only_events (op_return x)" "only_events (op_lift r)" "only_events (op_get f)"
  "only_events (enqueue env ctx stream data)" "only_events (callback env d ev)"
  by (auto simp: only_events_def op_simps intro: events_self)

lemma only_events_bind [only_events_intros]:
  assumes "only_events m" and "\<And>x. only_events (f x)"
  shows "only_events (op_bind m f)"
  unfolding only_events_def
proof
  fix c
  obtain r c' where m: "m c = (r, c')" by (cases "m c")
  with assms(1) obtain es where c': "c' = c\<lparr>events := es\<rparr>" by (metis only_events_def snd_conv)
  show "\<exists>es. snd (op_bind m f c) = c\<lparr>events := es\<rparr>"
  proof (cases r)
    case (Inl e)
    with m c' show ?thesis by (auto simp: op_bind_def)
  next
    case (Inr x)
    from assms(2) [of x] obtain es' where "snd (f x c') = c'\<lparr>events := es'\<rparr>" by (auto simp: only_events_def)
    with m c' Inr show ?thesis by (auto simp: op_bind_def)
  qed
qed

lemma only_events_then [only_events_intros]:
  "only_events m \<Longrightarrow> only_events n \<Longrightarrow> only_events (op_then m n)"
  unfolding op_then_def by (rule only_events_bind)

lemma only_events_when [only_events_intros]: "only_events m \<Longrightarrow> only_events (op_when b m)"
  by (simp add: op_when_def only_events_intros)

lemma only_events_if [only_events_intros]:
  "only_events m \<Longrightarrow> only_events n \<Longrightarrow> only_events (if b then m else n)"
  by simp

lemma only_events_option [only_events_intros]:
  "only_events m \<Longrightarrow> (\<And>x. only_events (f x)) \<Longrightarrow> only_events (case z of None \<Rightarrow> m | Some x \<Rightarrow> f x)"
  by (cases z) simp_all

lemma only_events_for [only_events_intros]:
  "(\<And>x. only_events (f x)) \<Longrightarrow> only_events (op_for xs f)"
  by (induction xs) (simp_all add: only_events_intros)

lemma only_events_keeps:
  assumes "only_events m" and "\<And>c es. I c \<Longrightarrow> I (c\<lparr>events := es\<rparr>)"
  shows "op_keeps I m"
  using assms unfolding only_events_def op_keeps_def by metis

lemma only_events_publishing [only_events_intros]:
  "only_events (send_fragment env stream header off d)"
  "only_events (fragment_loop env stream header data remaining offset n)"
  "only_events (publishNamedObject env name data)"
proof -
  show s: "only_events (send_fragment env stream header off d)" for stream header off d
    unfolding send_fragment_def by (intro only_events_intros)
  show f: "only_events (fragment_loop env stream header data remaining offset n)" for stream header data remaining offset n
    by (induction n arbitrary: offset) (auto intro!: only_events_intros s)
  show "only_events (publishNamedObject env name data)"
    unfolding publishNamedObject_def Let_def by (intro only_events_intros s f)
qed

lemma only_events_delivery [only_events_intros]:
  "only_events (deliver_copies env name d)"
  "only_events (notify_pub_fragment env name fm)"
  "only_events (deliver_moved env name ds d')"
proof -
  show d: "only_events (deliver_copies env name d)" for d
    unfolding deliver_copies_def case_prod_beta by (intro only_events_intros)
  then show "only_events (notify_pub_fragment env name fm)"
    unfolding notify_pub_fragment_def by (intro only_events_intros d)
  show "only_events (deliver_moved env name ds d')"
    by (induction ds arbitrary: d') (auto intro!: only_events_intros)
qed

section \<open>The fragment store\<close>

definition buffer_ok :: "nat \<Rightarrow> frag_buffer \<Rightarrow> bool" where
  "buffer_ok N buf \<longleftrightarrow> map_wf Name_lt buf \<and> length buf \<le> N \<and>
     (\<forall>fm \<in> snd ` set buf. map_wf int_lt fm \<and> fm \<noteq> [])"

text \<open>At most \<open>B\<close> buffers under the indices \<open>1 .. B\<close>, each with at most \<open>N\<close> names, and no name
  pending in two of them.\<close>

definition frag_ok :: "nat \<Rightarrow> nat \<Rightarrow> (int \<times> frag_buffer) list \<Rightarrow> bool" where
  "frag_ok N B frs \<longleftrightarrow> map_wf int_lt frs \<and>
     (\<forall>(i, buf) \<in> set frs. 1 \<le> i \<and> i \<le> int B \<and> buffer_ok N buf) \<and>
     (\<forall>n. \<forall>(i, buf) \<in> set frs. \<forall>(j, buf') \<in> set frs.
        map_has Name_lt n buf \<longrightarrow> map_has Name_lt n buf' \<longrightarrow> i = j)"

abbreviation get_buffer :: "int \<Rightarrow> (int \<times> frag_buffer) list \<Rightarrow> frag_buffer" where
  "get_buffer i frs \<equiv> map_get int_lt [] i frs"

lemma buffer_ok_Nil [simp]: "buffer_ok N []"
  by (simp add: buffer_ok_def)

lemma mem_map_set_int:
  assumes "map_wf int_lt frs"
  shows "(j, b) \<in> set (map_set int_lt i buf frs) \<longleftrightarrow> (if j = i then b = buf else (j, b) \<in> set frs)"
  using int_order.find_set [OF assms, of j i buf]
    int_order.find_iff_mem [OF int_order.wf_set [OF assms, of i buf], of j b]
    int_order.find_iff_mem [OF assms, of j b]
  by (auto simp: int_order.eqv_iff_eq)

lemma get_buffer_mem:
  assumes "map_wf int_lt frs" and "get_buffer i frs \<noteq> []"
  shows "(i, get_buffer i frs) \<in> set frs"
  using assms int_order.find_iff_mem [OF assms(1), of i]
  by (auto simp: map_get_def split: option.splits)

lemma mem_get_buffer: "map_wf int_lt frs \<Longrightarrow> (i, buf) \<in> set frs \<Longrightarrow> get_buffer i frs = buf"
  using int_order.find_iff_mem [of frs i buf] by (simp add: map_get_def)

lemma get_buffer_set:
  "map_wf int_lt frs \<Longrightarrow> get_buffer j (map_set int_lt i buf frs) = (if j = i then buf else get_buffer j frs)"
  by (simp add: map_get_def int_order.find_set int_order.eqv_iff_eq)

lemma get_buffer_erase:
  "map_wf int_lt frs \<Longrightarrow> get_buffer j (map_erase int_lt i frs) = (if j = i then [] else get_buffer j frs)"
  by (simp add: map_get_def int_order.find_erase int_order.eqv_iff_eq)

lemma frag_ok_get:
  assumes "frag_ok N B frs"
  shows "buffer_ok N (get_buffer i frs)"
  using assms get_buffer_mem [of frs i] by (cases "get_buffer i frs = []") (auto simp: frag_ok_def)

lemma frag_ok_set:
  assumes ok: "frag_ok N B frs" and i: "1 \<le> i" "i \<le> int B" and buf: "buffer_ok N buf"
    and fresh: "\<And>n j b. map_has Name_lt n buf \<Longrightarrow> (j, b) \<in> set frs \<Longrightarrow> j \<noteq> i \<Longrightarrow> \<not> map_has Name_lt n b"
  shows "frag_ok N B (map_set int_lt i buf frs)"
proof -
  from ok have wf: "map_wf int_lt frs" by (simp add: frag_ok_def)
  note mem = mem_map_set_int [OF wf, of _ _ i buf]
  have "j = k"
    if "(j, b) \<in> set (map_set int_lt i buf frs)" "(k, b') \<in> set (map_set int_lt i buf frs)"
      "map_has Name_lt n b" "map_has Name_lt n b'" for n j b k b'
    using that ok fresh unfolding mem frag_ok_def by (fastforce split: if_splits)
  moreover have "1 \<le> j \<and> j \<le> int B \<and> buffer_ok N b" if "(j, b) \<in> set (map_set int_lt i buf frs)" for j b
    using that ok i buf unfolding mem frag_ok_def by (fastforce split: if_splits)
  ultimately show ?thesis
    unfolding frag_ok_def using int_order.wf_set [OF wf] by blast
qed

lemma frag_ok_subset:
  assumes "frag_ok N B frs" and "map_wf int_lt frs'" and "set frs' \<subseteq> set frs"
  shows "frag_ok N B frs'"
  using assms unfolding frag_ok_def by blast

lemma frag_ok_erase: "frag_ok N B frs \<Longrightarrow> frag_ok N B (map_erase int_lt i frs)"
  by (rule frag_ok_subset [OF _ _ map_erase_subset])
    (auto simp: frag_ok_def int_order.wf_erase)

lemma frag_ok_touch:
  assumes "frag_ok N B frs" and "1 \<le> i" and "i \<le> int B"
  shows "frag_ok N B (map_touch int_lt [] i frs)"
  using frag_ok_set [OF assms, of "[]"] assms(1) by (simp add: map_touch_def map_emplace_def)

text \<open>Adding a fragment to a name, adding a name, removing a name.\<close>

lemma has_map_set_name:
  "map_wf Name_lt buf \<Longrightarrow> map_has Name_lt n (map_set Name_lt name fm buf) \<longleftrightarrow> n = name \<or> map_has Name_lt n buf"
  by (simp add: name_order.has_set name_order.eqv_iff_eq)

lemma buffer_ok_set:
  assumes "buffer_ok N buf" and "map_wf int_lt fm" and "fm \<noteq> []"
    and "map_has Name_lt name buf \<or> length buf < N"
  shows "buffer_ok N (map_set Name_lt name fm buf)"
proof -
  have "\<forall>f \<in> snd ` set (map_set Name_lt name fm buf). map_wf int_lt f \<and> f \<noteq> []"
    using assms(1-3) map_set_values [of Name_lt name fm buf] unfolding buffer_ok_def by blast
  with assms(1,4) show ?thesis
    unfolding buffer_ok_def by (auto simp: name_order.wf_set length_map_set)
qed

lemma buffer_ok_erase: "buffer_ok N buf \<Longrightarrow> buffer_ok N (map_erase Name_lt name buf)"
  using map_erase_subset [of Name_lt name buf]
  unfolding buffer_ok_def by (auto simp: name_order.wf_erase length_map_erase)

lemma buffer_ok_find:
  "buffer_ok N buf \<Longrightarrow> map_find Name_lt name buf = Some fm \<Longrightarrow> map_wf int_lt fm \<and> fm \<noteq> []"
  using name_order.find_iff_mem [of buf name fm] by (fastforce simp: buffer_ok_def)

lemma frag_ok_other:
  assumes "frag_ok N B frs" and "(i, buf) \<in> set frs" and "map_has Name_lt n buf"
    and "(j, b) \<in> set frs" and "j \<noteq> i"
  shows "\<not> map_has Name_lt n b"
  using assms unfolding frag_ok_def by fastforce

lemma emplace_ok: "map_wf int_lt fm \<Longrightarrow> map_wf int_lt (map_emplace int_lt k d fm) \<and> map_emplace int_lt k d fm \<noteq> []"
  using length_map_emplace [of int_lt k d fm]
  by (auto simp: int_order.wf_emplace map_has_def split: if_splits)

lemma frag_ok_update:
  assumes ok: "frag_ok N B frs" and mem: "(i, buf) \<in> set frs" and name: "map_has Name_lt name buf"
    and fm: "map_wf int_lt fm" "fm \<noteq> []"
  shows "frag_ok N B (map_set int_lt i (map_set Name_lt name fm buf) frs)"
proof (rule frag_ok_set [OF ok])
  from ok mem have b: "1 \<le> i" "i \<le> int B" "buffer_ok N buf" by (auto simp: frag_ok_def)
  then show "1 \<le> i" "i \<le> int B" by auto
  show "buffer_ok N (map_set Name_lt name fm buf)"
    using b fm name by (simp add: buffer_ok_set)
  show "\<not> map_has Name_lt n b'"
    if "map_has Name_lt n (map_set Name_lt name fm buf)" "(j, b') \<in> set frs" "j \<noteq> i" for n j b'
    using that b name frag_ok_other [OF ok mem, of n j b']
    by (auto simp: has_map_set_name buffer_ok_def)
qed

lemma frag_ok_remove:
  assumes ok: "frag_ok N B frs" and mem: "(i, buf) \<in> set frs"
  shows "frag_ok N B (map_set int_lt i (map_erase Name_lt name buf) frs)"
proof (rule frag_ok_set [OF ok])
  from ok mem have b: "1 \<le> i" "i \<le> int B" "buffer_ok N buf" by (auto simp: frag_ok_def)
  then show "1 \<le> i" "i \<le> int B" by auto
  show "buffer_ok N (map_erase Name_lt name buf)" using b by (simp add: buffer_ok_erase)
  show "\<not> map_has Name_lt n b'"
    if "map_has Name_lt n (map_erase Name_lt name buf)" "(j, b') \<in> set frs" "j \<noteq> i" for n j b'
    using that b frag_ok_other [OF ok mem, of n j b']
    by (auto simp: name_order.has_erase buffer_ok_def)
qed

lemma find_buffer_Some:
  "find_buffer name frs = Some (i, buf) \<Longrightarrow> (i, buf) \<in> set frs \<and> map_has Name_lt name buf"
  by (auto simp: find_buffer_def find_Some_iff) (metis nth_mem)

lemma find_buffer_None:
  "find_buffer name frs = None \<longleftrightarrow> (\<forall>(i, buf) \<in> set frs. \<not> map_has Name_lt name buf)"
  by (auto simp: find_buffer_def find_None_iff)

lemma frag_ok_insert:
  assumes ok: "frag_ok N B frs" and i: "1 \<le> i" "i \<le> int B"
    and none: "find_buffer name frs = None" and len: "length (get_buffer i frs) < N"
  shows "frag_ok N B (map_set int_lt i (map_set Name_lt name [e] (get_buffer i frs)) frs)"
proof (rule frag_ok_set [OF ok i])
  let ?cur = "get_buffer i frs"
  have b: "buffer_ok N ?cur" by (rule frag_ok_get [OF ok])
  then show "buffer_ok N (map_set Name_lt name [e] ?cur)"
    using len by (intro buffer_ok_set) (simp_all add: map_wf_def)
  show "\<not> map_has Name_lt n b'"
    if "map_has Name_lt n (map_set Name_lt name [e] ?cur)" "(j, b') \<in> set frs" "j \<noteq> i" for n j b'
  proof (cases "n = name")
    case True
    with none that(2) show ?thesis by (auto simp: find_buffer_None)
  next
    case False
    with that(1) b have h: "map_has Name_lt n ?cur" by (simp add: has_map_set_name buffer_ok_def)
    then have "?cur \<noteq> []" by auto
    with ok have "(i, ?cur) \<in> set frs" by (intro get_buffer_mem) (auto simp: frag_ok_def)
    from frag_ok_other [OF ok this h that(2,3)] show ?thesis .
  qed
qed

section \<open>Reassembly keeps the fragment store in order\<close>

definition frag_inv0 :: "Client \<Rightarrow> bool" where
  "frag_inv0 c \<longleftrightarrow>
     1 \<le> unat (MAX_FRAGMENT_NAMES_PENDING_PER_BUFFER c) \<and>
     1 \<le> unat (MAX_FRAGMENT_BUFFERS c) \<and> unat (MAX_FRAGMENT_BUFFERS c) < 2 ^ 31 \<and>
     1 \<le> unat (cindex c) \<and> unat (cindex c) \<le> unat (MAX_FRAGMENT_BUFFERS c) \<and>
     frag_ok (unat (MAX_FRAGMENT_NAMES_PENDING_PER_BUFFER c)) (unat (MAX_FRAGMENT_BUFFERS c)) (fragments c)"

text \<open>Between two messages the current buffer always has room for one more name.\<close>

definition frag_inv :: "Client \<Rightarrow> bool" where
  "frag_inv c \<longleftrightarrow> frag_inv0 c \<and>
     length (get_buffer (cindex_key c) (fragments c)) < unat (MAX_FRAGMENT_NAMES_PENDING_PER_BUFFER c)"

lemma cindex_key_eq: "frag_inv0 c \<Longrightarrow> cindex_key c = int (unat (cindex c))"
  unfolding cindex_key_def frag_inv0_def by (rule to_int32_word) linarith

lemma frag_inv_events [simp]:
  "frag_inv0 (c\<lparr>events := es\<rparr>) = frag_inv0 c" "frag_inv (c\<lparr>events := es\<rparr>) = frag_inv c"
  by (simp_all add: frag_inv0_def frag_inv_def cindex_key_def)

lemma frag_inv0_update:
  "frag_inv0 c \<Longrightarrow>
   frag_ok (unat (MAX_FRAGMENT_NAMES_PENDING_PER_BUFFER c)) (unat (MAX_FRAGMENT_BUFFERS c)) frs \<Longrightarrow>
   frag_inv0 (c\<lparr>fragments := frs\<rparr>)"
  by (simp add: frag_inv0_def)

lemma frag_inv0_ok:
  "frag_inv0 c \<Longrightarrow> frag_ok (unat (MAX_FRAGMENT_NAMES_PENDING_PER_BUFFER c)) (unat (MAX_FRAGMENT_BUFFERS c)) (fragments c)"
  by (simp add: frag_inv0_def)

lemma frag_inv0_wf: "frag_inv0 c \<Longrightarrow> map_wf int_lt (fragments c)"
  by (simp add: frag_inv0_def frag_ok_def)

lemma frag_inv0_key:
  assumes "frag_inv0 c"
  shows "1 \<le> cindex_key c \<and> cindex_key c \<le> int (unat (MAX_FRAGMENT_BUFFERS c))"
proof -
  have "1 \<le> unat (cindex c)" "unat (cindex c) \<le> unat (MAX_FRAGMENT_BUFFERS c)"
    using assms by (auto simp: frag_inv0_def)
  from this [THEN of_nat_mono [where ?'a = int]] show ?thesis
    unfolding cindex_key_eq [OF assms] by simp
qed

lemma next_index:
  assumes "1 \<le> unat (i :: u32)" and "unat i \<le> unat b" and "1 \<le> unat b"
  shows "1 \<le> unat (if i < b then i + 1 else 1) \<and> unat (if i < b then i + 1 else 1) \<le> unat b"
proof (cases "i < b")
  case True
  then have lt: "unat i < unat b" by (simp add: word_less_nat_alt)
  have "unat b < 2 ^ 32" using unsigned_less [where ?'a = nat, of b] by simp
  with lt have "unat (i + 1) = unat i + 1"
    by (simp add: unat_word_ariths)
  with True lt show ?thesis by simp
next
  case False
  with assms show ?thesis by simp
qed

lemma next_buffer_inv:
  assumes inv: "frag_inv0 c"
  shows "\<exists>c'. next_buffer c = (Inr (), c') \<and> frag_inv c'"
proof (cases "unat (MAX_FRAGMENT_NAMES_PENDING_PER_BUFFER c) \<le> length (get_buffer (cindex_key c) (fragments c))")
  case True
  let ?d = "c\<lparr>cindex := if cindex c < MAX_FRAGMENT_BUFFERS c then cindex c + 1 else 1\<rparr>"
  let ?c' = "?d\<lparr>fragments := map_erase int_lt (cindex_key ?d) (fragments ?d)\<rparr>"
  have d: "frag_inv0 ?d"
    using inv next_index [of "cindex c" "MAX_FRAGMENT_BUFFERS c"] by (auto simp: frag_inv0_def)
  then have "frag_inv0 ?c'"
    by (intro frag_inv0_update frag_ok_erase frag_inv0_ok)
  moreover have "get_buffer (cindex_key ?c') (fragments ?c') = []"
    using frag_inv0_wf [OF d] by (simp add: get_buffer_erase cindex_key_def)
  ultimately have "frag_inv ?c'"
    unfolding frag_inv_def by (simp add: frag_inv0_def)
  moreover have "next_buffer c = (Inr (), ?c')"
    using True by (simp add: next_buffer_def op_simps)
  ultimately show ?thesis by blast
next
  case False
  with inv show ?thesis by (auto simp: next_buffer_def op_simps frag_inv_def)
qed

lemma contains_error: "contains ns name = Inl e \<Longrightarrow> e = undefined_behaviour"
  by (cases "sig_bits ns < 128")
    (auto simp: contains_def prefix_mask_ok prefix_mask_ub)

lemma deliver_copies_error: "fst (deliver_copies env name d c) = Inl e \<Longrightarrow> e = undefined_behaviour"
proof -
  have "fst (op_for ds (\<lambda>(ns, del). op_bind (op_lift (contains ns name)) (\<lambda>b.
      op_when b (callback env del (OnSubscribedObject del name 0 0 False d)))) c) = Inl e
      \<Longrightarrow> e = undefined_behaviour" for ds
  proof (induction ds arbitrary: c)
    case Nil
    then show ?case by (simp add: op_simps)
  next
    case (Cons p ds)
    obtain ns del where p: "p = (ns, del)" by (cases p)
    show ?case
    proof (cases "contains ns name")
      case (Inl e')
      with Cons.prems contains_error [OF Inl] show ?thesis by (simp add: p op_simps)
    next
      case (Inr b)
      with Cons show ?thesis by (cases b) (simp_all add: p op_simps)
    qed
  qed
  then show "fst (deliver_copies env name d c) = Inl e \<Longrightarrow> e = undefined_behaviour"
    by (simp add: deliver_copies_def op_simps)
qed

lemma notify_error: "fst (notify_pub_fragment env name fm c) = Inl e \<Longrightarrow> e = undefined_behaviour"
proof -
  assume e: "fst (notify_pub_fragment env name fm c) = Inl e"
  show ?thesis
  proof (cases "fm = [] \<or> fst (last fm) AND 1 \<noteq> 1 \<or> reassemble 0 [] fm = None")
    case True
    with e show ?thesis by (auto simp: notify_pub_fragment_def op_simps split: if_splits)
  next
    case False
    then obtain d where "reassemble 0 [] fm = Some d" by auto
    with False e have "fst (op_bind (deliver_copies env name d) (\<lambda>_. op_return True) c) = Inl e"
      by (simp add: notify_pub_fragment_def)
    then have "fst (deliver_copies env name d c) = Inl e"
      by (auto simp: op_bind_def op_run split: prod.splits sum.splits)
    then show ?thesis by (rule deliver_copies_error)
  qed
qed
lemma notify_run:
  obtains es where "snd (notify_pub_fragment env name fm c) = c\<lparr>events := es\<rparr>"
  using only_events_delivery(2) [of env name fm] unfolding only_events_def by blast

lemma only_fragments_inv0:
  assumes "frag_inv0 c" and "frag_inv0 (c\<lparr>fragments := frs\<rparr>)"
  shows "frag_inv0 (c\<lparr>fragments := frs, events := es\<rparr>)"
  using assms by (simp add: frag_inv0_def)

lemma store_fragment_current:
  assumes inv: "frag_inv0 c" and mem: "(ci, cur) \<in> set (fragments c)"
    and fm: "map_find Name_lt name cur = Some fm"
    and run: "store_fragment env name key data ci cur c = (r, c')" and nub: "r \<noteq> Inl undefined_behaviour"
  shows "r = Inr () \<and> frag_inv0 c'"
proof -
  let ?fm = "map_emplace int_lt key data fm"
  let ?c1 = "c\<lparr>fragments := map_set int_lt ci (map_set Name_lt name ?fm cur) (fragments c)\<rparr>"
  have wf: "map_wf int_lt (fragments c)" by (rule frag_inv0_wf [OF inv])
  have "buffer_ok (unat (MAX_FRAGMENT_NAMES_PENDING_PER_BUFFER c)) cur"
    using frag_inv0_ok [OF inv] mem by (auto simp: frag_ok_def)
  from buffer_ok_find [OF this fm] have fm_ok: "map_wf int_lt ?fm" "?fm \<noteq> []"
    using emplace_ok [of fm key data] by simp_all
  have has: "map_has Name_lt name cur" using fm by (simp add: map_has_def)
  have c1: "frag_inv0 ?c1"
    by (rule frag_inv0_update [OF inv]) (rule frag_ok_update [OF frag_inv0_ok [OF inv] mem has fm_ok])
  obtain es where es: "snd (notify_pub_fragment env name ?fm ?c1) = ?c1\<lparr>events := es\<rparr>"
    by (rule notify_run)
  let ?c2 = "?c1\<lparr>events := es\<rparr>"
  have "(ci, map_set Name_lt name ?fm cur) \<in> set (fragments ?c2)"
    using mem_map_set_int [OF wf] by simp
  then have "frag_ok (unat (MAX_FRAGMENT_NAMES_PENDING_PER_BUFFER ?c2)) (unat (MAX_FRAGMENT_BUFFERS ?c2))
      (map_set int_lt ci (map_erase Name_lt name (map_set Name_lt name ?fm cur)) (fragments ?c2))"
    using c1 by (intro frag_ok_remove frag_inv0_ok) simp
  moreover have "get_buffer ci (fragments ?c2) = map_set Name_lt name ?fm cur"
    using get_buffer_set [OF wf] by simp
  ultimately have erased: "frag_inv0 (snd (erase_name ci name ?c2))"
    using c1 frag_inv0_update [of ?c2] by (simp add: erase_name_def op_run)
  show ?thesis
  proof (cases "fst (notify_pub_fragment env name ?fm ?c1)")
    case (Inl e)
    with es have "notify_pub_fragment env name ?fm ?c1 = (Inl undefined_behaviour, ?c2)"
      using notify_error [OF Inl] by (metis prod.collapse)
    with run nub fm show ?thesis by (simp add: store_fragment_def op_simps set_buffer_def Let_def)
  next
    case (Inr complete)
    with es have "notify_pub_fragment env name ?fm ?c1 = (Inr complete, ?c2)" by (metis prod.collapse)
    with run fm have "(r, c') = (if complete then erase_name ci name ?c2 else (Inr (), ?c2))"
      by (cases complete) (simp_all add: store_fragment_def op_simps set_buffer_def Let_def)
    moreover have "fst (erase_name ci name ?c2) = Inr ()" by (simp add: erase_name_def op_run)
    ultimately show ?thesis
      using erased c1 by (cases complete; cases "erase_name ci name ?c2") auto
  qed
qed

lemma store_fragment_other:
  assumes inv: "frag_inv0 c" and cur: "map_find Name_lt name cur = None"
    and fb: "find_buffer name (fragments c) = Some (i, buf)"
    and run: "store_fragment env name key data ci cur c = (r, c')" and nub: "r \<noteq> Inl undefined_behaviour"
  shows "r = Inr () \<and> frag_inv0 c'"
proof -
  obtain mem: "(i, buf) \<in> set (fragments c)" and has: "map_has Name_lt name buf"
    using find_buffer_Some [OF fb] by blast
  then obtain fm where fm: "map_find Name_lt name buf = Some fm" by (auto simp: map_has_def)
  let ?fm = "map_emplace int_lt key data fm"
  let ?c1 = "c\<lparr>fragments := map_set int_lt i (map_set Name_lt name ?fm buf) (fragments c)\<rparr>"
  have "buffer_ok (unat (MAX_FRAGMENT_NAMES_PENDING_PER_BUFFER c)) buf"
    using frag_inv0_ok [OF inv] mem by (auto simp: frag_ok_def)
  from buffer_ok_find [OF this fm] have fm_ok: "map_wf int_lt ?fm" "?fm \<noteq> []"
    using emplace_ok [of fm key data] by simp_all
  have c1: "frag_inv0 ?c1"
    by (rule frag_inv0_update [OF inv]) (rule frag_ok_update [OF frag_inv0_ok [OF inv] mem has fm_ok])
  obtain es where es: "snd (notify_pub_fragment env name ?fm ?c1) = ?c1\<lparr>events := es\<rparr>"
    by (rule notify_run)
  have g: "map_get Name_lt [] name buf = fm" by (simp add: map_get_def fm)
  show ?thesis
  proof (cases "fst (notify_pub_fragment env name ?fm ?c1)")
    case (Inl e)
    with es have "notify_pub_fragment env name ?fm ?c1 = (Inl undefined_behaviour, ?c1\<lparr>events := es\<rparr>)"
      using notify_error [OF Inl] by (metis prod.collapse)
    with run nub cur fb g show ?thesis by (simp add: store_fragment_def op_simps set_buffer_def Let_def)
  next
    case (Inr complete)
    with es have "notify_pub_fragment env name ?fm ?c1 = (Inr complete, ?c1\<lparr>events := es\<rparr>)"
      by (metis prod.collapse)
    with run cur fb g have "(r, c') = (if complete then (Inl undefined_behaviour, ?c1\<lparr>events := es\<rparr>)
        else (Inr (), ?c1\<lparr>events := es\<rparr>))"
      by (cases complete) (simp_all add: store_fragment_def op_simps set_buffer_def Let_def)
    with nub c1 show ?thesis by (auto split: if_splits)
  qed
qed

lemma store_fragment_inv:
  assumes inv: "frag_inv c" and mem: "(ci, cur) \<in> set (fragments c)" and ci: "ci = cindex_key c"
    and run: "store_fragment env name key data ci cur c = (r, c')" and nub: "r \<noteq> Inl undefined_behaviour"
  shows "r = Inr () \<and> frag_inv0 c'"
proof (cases "map_find Name_lt name cur")
  case (Some fm)
  with inv show ?thesis
    using store_fragment_current [OF _ mem _ run nub] by (simp add: frag_inv_def)
next
  case None
  show ?thesis
  proof (cases "find_buffer name (fragments c)")
    case (Some p)
    with None inv show ?thesis
      using store_fragment_other [OF _ None _ run nub, of "fst p" "snd p"] by (simp add: frag_inv_def)
  next
    case no: None
    have inv0: "frag_inv0 c" using inv by (simp add: frag_inv_def)
    have cur: "cur = get_buffer ci (fragments c)"
      using mem_get_buffer [OF frag_inv0_wf [OF inv0] mem] by simp
    have "frag_inv0 (c\<lparr>fragments := map_set int_lt ci (map_set Name_lt name [(key, data)] cur) (fragments c)\<rparr>)"
      using inv frag_inv0_key [OF inv0] unfolding cur
      by (intro frag_inv0_update frag_ok_insert frag_inv0_ok no) (auto simp: ci frag_inv_def)
    with None no run show ?thesis by (auto simp: store_fragment_def op_simps set_buffer_def)
  qed
qed

lemma touch_inv:
  assumes inv: "frag_inv c"
  shows "frag_inv (c\<lparr>fragments := map_touch int_lt [] (cindex_key c) (fragments c)\<rparr>)"
    and "(cindex_key c, get_buffer (cindex_key c) (map_touch int_lt [] (cindex_key c) (fragments c)))
           \<in> set (map_touch int_lt [] (cindex_key c) (fragments c))"
proof -
  let ?k = "cindex_key c"
  have inv0: "frag_inv0 c" using inv by (simp add: frag_inv_def)
  note wf = frag_inv0_wf [OF inv0]
  have "frag_inv0 (c\<lparr>fragments := map_touch int_lt [] ?k (fragments c)\<rparr>)"
    using frag_inv0_key [OF inv0] by (intro frag_inv0_update [OF inv0] frag_ok_touch frag_inv0_ok [OF inv0]) auto
  then show "frag_inv (c\<lparr>fragments := map_touch int_lt [] ?k (fragments c)\<rparr>)"
    using inv int_order.get_touch [OF wf, of "[]" ?k ?k] by (simp add: frag_inv_def cindex_key_def)
  have "map_find int_lt ?k (map_touch int_lt [] ?k (fragments c)) \<noteq> None"
    by (simp add: map_touch_def int_order.find_emplace [OF wf] int_order.eqv_iff_eq)
  then obtain b where b: "map_find int_lt ?k (map_touch int_lt [] ?k (fragments c)) = Some b" by blast
  then have "(?k, b) \<in> set (map_touch int_lt [] ?k (fragments c))"
    by (rule int_order.find_iff_mem [OF int_order.wf_touch [OF wf], THEN iffD1])
  with b show "(?k, get_buffer ?k (map_touch int_lt [] ?k (fragments c))) \<in> set (map_touch int_lt [] ?k (fragments c))"
    by (simp add: map_get_def)
qed

lemma handle_pub_fragment_inv:
  assumes inv: "frag_inv c" and run: "handle_pub_fragment env d c = (r, c')"
    and nub: "r \<noteq> Inl undefined_behaviour"
  shows "r = Inr () \<and> frag_inv c'"
proof -
  let ?k = "cindex_key c"
  let ?t = "c\<lparr>fragments := map_touch int_lt [] ?k (fragments c)\<rparr>"
  let ?store = "store_fragment env (h_name (pd_header d)) (to_int32 (uint (h_offset_and_fin (pd_header d))))
    (pd_media_data d) ?k (get_buffer ?k (fragments ?t))"
  obtain r1 c1 where s: "?store ?t = (r1, c1)" by (cases "?store ?t")
  have k: "?k = cindex_key ?t" by (simp add: cindex_key_def)
  have "(r, c') = op_then ?store next_buffer ?t"
    using run by (simp add: handle_pub_fragment_def touch_buffer_def op_simps)
  with s have rc: "(r, c') = (case r1 of Inl e \<Rightarrow> (Inl e, c1) | Inr u \<Rightarrow> next_buffer c1)"
    by (simp add: op_then_def op_bind_def)
  with nub have nub1: "r1 \<noteq> Inl undefined_behaviour" by auto
  from touch_inv(2) [OF inv] have mem: "(?k, get_buffer ?k (fragments ?t)) \<in> set (fragments ?t)" by simp
  have "r1 = Inr () \<and> frag_inv0 c1"
    by (rule store_fragment_inv [OF touch_inv(1) [OF inv] mem k s nub1])
  with rc next_buffer_inv [of c1] show ?thesis by auto
qed

section \<open>The invariant of the client\<close>

definition all_pending :: "(Namespace \<times> SubscribeContext) list \<Rightarrow> bool" where
  "all_pending m \<longleftrightarrow> (\<forall>sc \<in> snd ` set m. sc_state sc = State_Pending)"

definition maps_inv :: "u32 \<Rightarrow> u32 \<Rightarrow> Client \<Rightarrow> bool" where
  "maps_inv N B c \<longleftrightarrow> map_wf Namespace_lt (sub_delegates c) \<and> map_wf Namespace_lt (pub_delegates c) \<and>
     map_wf Namespace_lt (subscribe_state c) \<and>
     all_pending (subscribe_state c) \<and>
     publish_state c = [] \<and> client_status c = TERMINATED \<and>
     MAX_FRAGMENT_NAMES_PENDING_PER_BUFFER c = N \<and> MAX_FRAGMENT_BUFFERS c = B"

definition client_inv :: "u32 \<Rightarrow> u32 \<Rightarrow> Client \<Rightarrow> bool" where
  "client_inv N B c \<longleftrightarrow> maps_inv N B c \<and> frag_inv c"

lemma client_inv_events [simp]: "client_inv N B (c\<lparr>events := es\<rparr>) = client_inv N B c"
  by (simp add: client_inv_def maps_inv_def)

lemma frag_inv_maps [simp]:
  "frag_inv (c\<lparr>sub_delegates := x\<rparr>) = frag_inv c" "frag_inv (c\<lparr>pub_delegates := x\<rparr>) = frag_inv c"
  "frag_inv (c\<lparr>subscribe_state := y\<rparr>) = frag_inv c"
  by (simp_all add: frag_inv_def frag_inv0_def cindex_key_def)

lemma keeps_only_events: "only_events m \<Longrightarrow> op_keeps (client_inv N B) m"
  by (rule only_events_keeps) simp_all

lemma client_inv_delegates:
  assumes "client_inv N B c" and "map_wf Namespace_lt m"
  shows "client_inv N B (c\<lparr>sub_delegates := m\<rparr>)" and "client_inv N B (c\<lparr>pub_delegates := m\<rparr>)"
  using assms by (simp_all add: client_inv_def maps_inv_def)

lemma client_inv_delegates_wf:
  "client_inv N B c \<Longrightarrow> map_wf Namespace_lt (sub_delegates c)"
  "client_inv N B c \<Longrightarrow> map_wf Namespace_lt (pub_delegates c)"
  unfolding client_inv_def maps_inv_def by blast+

lemma keeps_delegates [keeps_intros]:
  "op_keeps (client_inv N B) (op_modify (\<lambda>c. c\<lparr>sub_delegates := map_set Namespace_lt ns d (sub_delegates c)\<rparr>))"
  "op_keeps (client_inv N B) (op_modify (\<lambda>c. c\<lparr>sub_delegates := map_erase Namespace_lt ns (sub_delegates c)\<rparr>))"
  "op_keeps (client_inv N B) (op_modify (\<lambda>c. c\<lparr>pub_delegates := map_set Namespace_lt ns d (pub_delegates c)\<rparr>))"
  "op_keeps (client_inv N B) (op_modify (\<lambda>c. c\<lparr>pub_delegates := map_erase Namespace_lt ns (pub_delegates c)\<rparr>))"
  by (rule keeps_modify, rule client_inv_delegates, assumption, intro ns_order.wf_set ns_order.wf_erase,
      erule client_inv_delegates_wf)+

lemma all_pending_set:
  assumes "all_pending m" and "sc_state sc = State_Pending"
  shows "all_pending (map_set Namespace_lt ns sc m)"
  using assms map_set_values [of Namespace_lt ns sc m] unfolding all_pending_def by blast

lemma all_pending_erase: "all_pending m \<Longrightarrow> all_pending (map_erase Namespace_lt ns m)"
  using map_erase_subset [of Namespace_lt ns m] unfolding all_pending_def by blast

lemma client_inv_subscribe_state:
  "client_inv N B c \<Longrightarrow> map_wf Namespace_lt m \<Longrightarrow> all_pending m \<Longrightarrow> client_inv N B (c\<lparr>subscribe_state := m\<rparr>)"
  by (simp add: client_inv_def maps_inv_def)

lemma client_inv_pending:
  "client_inv N B c \<Longrightarrow> map_wf Namespace_lt (subscribe_state c)"
  "client_inv N B c \<Longrightarrow> all_pending (subscribe_state c)"
  by (simp_all add: client_inv_def maps_inv_def)

lemma keeps_subscribe_state [keeps_intros]:
  assumes "sc_state sc = State_Pending"
  shows "op_keeps (client_inv N B) (op_modify (\<lambda>c. c\<lparr>subscribe_state := map_set Namespace_lt ns sc (subscribe_state c)\<rparr>))"
  by (rule keeps_modify, rule client_inv_subscribe_state, assumption, rule ns_order.wf_set,
      erule client_inv_pending, rule all_pending_set, erule client_inv_pending, rule assms)

lemma keeps_subscribe_state_erase [keeps_intros]:
  "op_keeps (client_inv N B) (op_modify (\<lambda>c. c\<lparr>subscribe_state := map_erase Namespace_lt ns (subscribe_state c)\<rparr>))"
  by (rule keeps_modify, rule client_inv_subscribe_state, assumption, rule ns_order.wf_erase,
      erule client_inv_pending, rule all_pending_erase, erule client_inv_pending)

lemma keeps_env [keeps_intros]:
  "op_keeps (client_inv N B) (enqueue env ctx stream data)" "op_keeps (client_inv N B) (callback env d ev)"
  "op_keeps (client_inv N B) (publishNamedObject env name data')"
  "op_keeps (client_inv N B) (deliver_moved env name ds data')"
  by (rule keeps_only_events, intro only_events_intros)+

lemma keeps_publishIntent [keeps_intros]:
  "op_keeps (client_inv N B) (publishIntent env tid d ns payload)"
  "op_keeps (client_inv N B) (publishIntentEnd env ns)"
  unfolding publishIntent_def publishIntentEnd_def by (intro keeps_intros)+

lemma keeps_subscribe [keeps_intros]: "op_keeps (client_inv N B) (subscribe env tid d ns intent)"
  unfolding subscribe_def Let_def by (intro keeps_intros) simp_all

lemma keeps_remove [keeps_intros]:
  "op_keeps (client_inv N B) (removeSubscribeState env all ns reason)"
proof -
  have "op_keeps (client_inv N B) (removeSubscribeState_one env ns reason)" for ns
    unfolding removeSubscribeState_one_def by (intro keeps_intros)
  then show ?thesis unfolding removeSubscribeState_def by (intro keeps_intros)
qed

lemma keeps_unsubscribe [keeps_intros]: "op_keeps (client_inv N B) (unsubscribe env ns)"
  unfolding unsubscribe_def by (intro keeps_intros)

lemma maps_inv_fragments [simp]:
  "maps_inv N B (c\<lparr>fragments := x\<rparr>) = maps_inv N B c" "maps_inv N B (c\<lparr>cindex := y\<rparr>) = maps_inv N B c"
  "maps_inv N B (c\<lparr>events := z\<rparr>) = maps_inv N B c"
  by (simp_all add: maps_inv_def)

lemma keeps_maps_fragment: "op_keeps (maps_inv N B) (handle_pub_fragment env d)"
proof -
  have n: "op_keeps (maps_inv N B) (notify_pub_fragment env name fm)" for name fm
    by (rule only_events_keeps, rule only_events_delivery) simp
  show ?thesis
    unfolding handle_pub_fragment_def store_fragment_def next_buffer_def touch_buffer_def
      set_buffer_def erase_name_def Let_def
    by (intro keeps_intros n keeps_modify) (simp_all split: prod.split add: n keeps_intros keeps_modify)
qed

lemma keeps_fragment [keeps_intros]: "op_keeps (client_inv N B) (handle_pub_fragment env d)"
proof
  fix c assume "client_inv N B c" and "fst (handle_pub_fragment env d c) \<noteq> Inl undefined_behaviour"
  then show "client_inv N B (snd (handle_pub_fragment env d c))"
    using handle_pub_fragment_inv [of c env d] keeps_maps_fragment [of N B env d]
    unfolding client_inv_def op_keeps_def by (metis prod.collapse)
qed

lemma keeps_handle [keeps_intros]: "op_keeps (client_inv N B) (client_handle env msg)"
proof -
  have c: "op_keeps (client_inv N B) (handle_SubscribeResponse env r)"
    "op_keeps (client_inv N B) (handle_Publish env d)" "op_keeps (client_inv N B) (handle_PublishIntentResponse env p)" for r d p
    unfolding handle_SubscribeResponse_def handle_Publish_def handle_PublishIntentResponse_def
    by (intro keeps_intros)+
  show ?thesis
    unfolding client_handle_def
    by (intro keeps_intros) (auto intro!: keeps_intros c split: MessageType.splits)
qed

section \<open>Sequences of calls\<close>

text \<open>Everything the application and the transport can do to a client, each call with the
  environment it finds.\<close>

datatype client_call =
    Do_publishIntent u64 delegate Namespace bytes
  | Do_publishIntentEnd Namespace
  | Do_subscribe u64 delegate Namespace SubscribeIntent
  | Do_unsubscribe Namespace
  | Do_publishNamedObject Name bytes
  | Do_connection_status TransportStatus
  | Do_recv_notify "nat \<Rightarrow> bytes option"

fun client_exec :: "client_env \<times> client_call \<Rightarrow> unit client_op" where
  "client_exec (env, Do_publishIntent tid d ns payload) =
     op_bind (publishIntent env tid d ns payload) (\<lambda>_. op_return ())"
| "client_exec (env, Do_publishIntentEnd ns) = publishIntentEnd env ns"
| "client_exec (env, Do_subscribe tid d ns intent) = subscribe env tid d ns intent"
| "client_exec (env, Do_unsubscribe ns) = unsubscribe env ns"
| "client_exec (env, Do_publishNamedObject name data) = publishNamedObject env name data"
| "client_exec (env, Do_connection_status status) = client_on_connection_status env status"
| "client_exec (env, Do_recv_notify dequeue) = client_on_recv_notify env dequeue"

lemma new_client_inv: "client_inv 5000 20 (new_client ctx stream)"
  by (simp add: new_client_def client_inv_def maps_inv_def all_pending_def frag_inv_def frag_inv0_def frag_ok_def)

interpretation client: op_invariant client_exec
  "\<lambda>c. \<exists>ctx stream. c = new_client ctx stream" "client_inv 5000 20"
proof
  show "client_inv 5000 20 c" if "\<exists>ctx stream. c = new_client ctx stream" for c
    using that new_client_inv by blast
  show "op_keeps (client_inv 5000 20) (client_exec l)" for l
  proof (cases l)
    case (Pair env call)
    then show ?thesis
      by (cases call)
        (auto simp: client_on_connection_status_def client_on_recv_notify_def intro!: keeps_intros)
  qed
qed

lemma distinct_int_bound:
  assumes "distinct xs" and "\<forall>x \<in> set xs. 1 \<le> x \<and> x \<le> int n"
  shows "length xs \<le> n"
proof -
  have "set xs \<subseteq> {1..int n}" using assms(2) by auto
  then have "card (set xs) \<le> card {1..int n}" by (intro card_mono) auto
  with assms(1) show ?thesis by (simp add: distinct_card)
qed

lemma frag_ok_bounds:
  assumes "frag_ok N B frs"
  shows "length frs \<le> B" and "\<forall>(i, buf) \<in> set frs. length buf \<le> N"
proof -
  have "distinct (map fst frs)" using assms by (simp add: frag_ok_def int_order.distinct_keys)
  then have "length (map fst frs) \<le> B"
    using assms by (intro distinct_int_bound) (auto simp: frag_ok_def)
  then show "length frs \<le> B" by simp
  show "\<forall>(i, buf) \<in> set frs. length buf \<le> N" using assms by (auto simp: frag_ok_def buffer_ok_def)
qed

text \<open>C5. Whatever the application calls and the network delivers, a client that was not driven into
  undefined behaviour holds at most 20 reassembly buffers of at most 5000 names each, the current
  one with room for another name, and no name is pending in two buffers; every subscription is
  still in the state \<^verbatim>\<open>Pending\<close> (nothing ever makes one \<^verbatim>\<open>Ready\<close>), nothing is ever recorded in
  \<^verbatim>\<open>publish_state\<close>, and \<^verbatim>\<open>status()\<close> is \<^verbatim>\<open>TERMINATED\<close> throughout.\<close>

theorem client_reachable_invariant:
  assumes "op_run_all client_exec calls (new_client ctx stream) = Some c"
  shows "length (fragments c) \<le> 20 \<and> (\<forall>(i, buf) \<in> set (fragments c). 1 \<le> i \<and> i \<le> 20 \<and> length buf \<le> 5000) \<and>
    length (map_get int_lt [] (cindex_key c) (fragments c)) < 5000 \<and>
    (\<forall>n. \<forall>(i, buf) \<in> set (fragments c). \<forall>(j, buf') \<in> set (fragments c).
       map_has Name_lt n buf \<longrightarrow> map_has Name_lt n buf' \<longrightarrow> i = j) \<and>
    (\<forall>(ns, sc) \<in> set (subscribe_state c). sc_state sc = State_Pending) \<and>
    publish_state c = [] \<and> client_status_of c = TERMINATED"
proof -
  have inv: "client_inv 5000 20 c" using client.inv_reachable [OF _ assms] by blast
  then have fr: "frag_inv c" and maps: "maps_inv 5000 20 c" by (simp_all add: client_inv_def)
  then have ok: "frag_ok 5000 20 (fragments c)" and cur: "length (get_buffer (cindex_key c) (fragments c)) < 5000"
    by (auto simp: frag_inv_def frag_inv0_def maps_inv_def)
  have "\<forall>(i, buf) \<in> set (fragments c). 1 \<le> i \<and> i \<le> 20 \<and> length buf \<le> 5000"
    "\<forall>n. \<forall>(i, buf) \<in> set (fragments c). \<forall>(j, buf') \<in> set (fragments c).
       map_has Name_lt n buf \<longrightarrow> map_has Name_lt n buf' \<longrightarrow> i = j"
    using ok by (auto simp: frag_ok_def buffer_ok_def)
  moreover have "\<forall>(ns, sc) \<in> set (subscribe_state c). sc_state sc = State_Pending"
    using maps by (force simp: maps_inv_def all_pending_def)
  moreover have "publish_state c = []" "client_status_of c = TERMINATED"
    using maps by (simp_all add: maps_inv_def client_status_of_def)
  ultimately show ?thesis using cur frag_ok_bounds(1) [OF ok] by blast
qed

definition sample_env :: client_env where
  "sample_env = \<lparr>accepts = \<lambda>_ _ _ _. True, alive = \<lambda>_. True, leaves = \<lambda>_ _. []\<rparr>"

definition sample_calls :: "(client_env \<times> client_call) list" where
  "sample_calls = [(sample_env, Do_subscribe 5 0 sample_ns immediate),
     (sample_env, Do_publishIntentEnd sample_ns)]"

lemma sample_run: "op_run_all client_exec sample_calls (new_client 1 2) \<noteq> None"
  by (simp add: sample_calls_def subscribe_def publishIntentEnd_def op_simps new_client_def
      subscribe.put_enc [where version = 1] Subscribe_ok_def sample_ns_wf intent.named_def SubscribeIntent_cast_def)

theorem client_reachable_invariant_witness:
  "let c = the (op_run_all client_exec sample_calls (new_client 1 2)) in
    length (fragments c) \<le> 20 \<and> (\<forall>(i, buf) \<in> set (fragments c). 1 \<le> i \<and> i \<le> 20 \<and> length buf \<le> 5000) \<and>
    length (map_get int_lt [] (cindex_key c) (fragments c)) < 5000 \<and>
    (\<forall>n. \<forall>(i, buf) \<in> set (fragments c). \<forall>(j, buf') \<in> set (fragments c).
       map_has Name_lt n buf \<longrightarrow> map_has Name_lt n buf' \<longrightarrow> i = j) \<and>
    (\<forall>(ns, sc) \<in> set (subscribe_state c). sc_state sc = State_Pending) \<and>
    publish_state c = [] \<and> client_status_of c = TERMINATED"
  unfolding Let_def
  by (rule client_reachable_invariant [of sample_calls 1 2]) (use sample_run in simp)

end
