(* ===== verification/Client_Objects.thy ===== *)
theory Client_Objects
  imports Quicr_Client "HOL-Library.Multiset"
begin

text \<open>
  Objects on their way through the client: what \<open>publishNamedObject\<close> hands to the transport, and
  what becomes of those messages in a receiving client. The specification of the
  fragmentation is \<open>object_datagrams\<close>; the receiver is followed through \<open>partly_received\<close>, the
  state after a set of blocks has arrived, to \<open>completed\<close>.
\<close>

unbundle bit_operations_syntax

section \<open>What publishing an object puts on the wire\<close>

text \<open>The specification: the object is cut into blocks of 1200 bytes, the last one possibly shorter;
  block \<open>i\<close> travels with twice its offset, plus one on the last block.\<close>

definition frag_count :: "bytes \<Rightarrow> nat" where
  "frag_count data = max 1 ((length data + (MAX_TRANSPORT_DATA_SIZE - 1)) div MAX_TRANSPORT_DATA_SIZE)"

definition frag_offset :: "bytes \<Rightarrow> nat \<Rightarrow> nat" where
  "frag_offset data i = 2 * (MAX_TRANSPORT_DATA_SIZE * i) + (if Suc i = frag_count data then 1 else 0)"

definition frag_bytes :: "bytes \<Rightarrow> nat \<Rightarrow> bytes" where
  "frag_bytes data i = take MAX_TRANSPORT_DATA_SIZE (drop (MAX_TRANSPORT_DATA_SIZE * i) data)"

definition object_datagram :: "StreamId \<Rightarrow> Name \<Rightarrow> nat \<Rightarrow> bytes \<Rightarrow> PublishDatagram" where
  "object_datagram stream name off d =
     \<lparr>pd_header = \<lparr>h_media_id = stream, h_name = name, h_group_id = 0, h_object_id = 0,
        h_offset_and_fin = of_nat off, h_flags = 0\<rparr>,
      pd_media_type = RealtimeMedia, pd_media_data_length = of_nat (length d), pd_media_data = d\<rparr>"

definition object_datagrams :: "StreamId \<Rightarrow> Name \<Rightarrow> bytes \<Rightarrow> PublishDatagram list" where
  "object_datagrams stream name data =
     map (\<lambda>i. object_datagram stream name (frag_offset data i) (frag_bytes data i)) [0..<frag_count data]"

text \<open>Messages are handed to the transport one by one until it refuses one.\<close>

fun send_all ::
  "client_env \<Rightarrow> TransportContextId \<Rightarrow> StreamId \<Rightarrow> client_event list \<Rightarrow> bytes list \<Rightarrow> client_event list \<times> bool" where
  "send_all env ctx stream es [] = (es, True)"
| "send_all env ctx stream es (m # ms) =
     (if accepts env es ctx stream m then send_all env ctx stream (es @ [Enqueue ctx stream m]) ms
      else (es @ [Enqueue ctx stream m], False))"

lemma send_all_append:
  "send_all env ctx stream es (ms @ ns) =
     (case send_all env ctx stream es ms of (es', ok) \<Rightarrow>
        if ok then send_all env ctx stream es' ns else (es', False))"
  by (induction ms arbitrary: es) auto

lemma send_all_accepted:
  "(\<And>h m. accepts env h ctx stream m) \<Longrightarrow>
     send_all env ctx stream es ms = (es @ map (Enqueue ctx stream) ms, True)"
  by (induction ms arbitrary: es) auto

text \<open>The transport's answer to the \<open>j\<close>-th message, given after the ones before it.\<close>

definition accepts_nth ::
  "client_env \<Rightarrow> TransportContextId \<Rightarrow> StreamId \<Rightarrow> client_event list \<Rightarrow> bytes list \<Rightarrow> nat \<Rightarrow> bool" where
  "accepts_nth env ctx stream es ms j =
     accepts env (es @ map (Enqueue ctx stream) (take j ms)) ctx stream (ms ! j)"

lemma accepts_nth_Cons [simp]:
  "accepts_nth env ctx stream es (m # ms) 0 = accepts env es ctx stream m"
  "accepts_nth env ctx stream es (m # ms) (Suc j) = accepts_nth env ctx stream (es @ [Enqueue ctx stream m]) ms j"
  by (simp_all add: accepts_nth_def)

lemma send_all_prefix:
  "ms \<noteq> [] \<Longrightarrow> \<exists>k \<le> length ms. 0 < k \<and> fst (send_all env ctx stream es ms) = es @ map (Enqueue ctx stream) (take k ms) \<and>
     (\<forall>j. Suc j < k \<longrightarrow> accepts_nth env ctx stream es ms j) \<and>
     (k < length ms \<longrightarrow> \<not> accepts_nth env ctx stream es ms (k - 1))"
proof (induction ms arbitrary: es)
  case (Cons m ms)
  show ?case
  proof (cases "accepts env es ctx stream m \<and> ms \<noteq> []")
    case True
    let ?es = "es @ [Enqueue ctx stream m]"
    obtain k where k: "k \<le> length ms" "0 < k" "fst (send_all env ctx stream ?es ms) = ?es @ map (Enqueue ctx stream) (take k ms)"
      "\<forall>j. Suc j < k \<longrightarrow> accepts_nth env ctx stream ?es ms j" "k < length ms \<longrightarrow> \<not> accepts_nth env ctx stream ?es ms (k - 1)"
      using Cons.IH [of ?es] True by blast
    then obtain l where l: "k = Suc l" by (cases k) auto
    have "accepts_nth env ctx stream es (m # ms) j" if "j < k" for j using that True k(4) by (cases j) simp_all
    with k True show ?thesis by (intro exI [of _ "Suc k"]) (simp add: l)
  next
    case False
    then show ?thesis by (intro exI [of _ 1]) auto
  qed
qed simp

lemma object_datagram_ok:
  assumes "stream < 2 ^ 60" and "off < 2 ^ 32" and "length d \<le> 1200"
  shows "PublishDatagram_ok (object_datagram stream name off d)"
proof -
  have "(of_nat off :: u64) < 2 ^ 60" by (rule of_nat_less_exp) (use assms(2) in simp_all)
  moreover have "(of_nat (length d) :: u64) < 2 ^ 60" by (rule of_nat_less_exp) (use assms(3) in simp_all)
  moreover have "unat (of_nat (length d) :: u64) = length d" by (rule unat_of_nat_word) (use assms(3) in simp)
  ultimately show ?thesis
    using assms(1,3)
    by (simp add: object_datagram_def PublishDatagram_ok_def Header_ok_def uintVar_ok_def vec_ok_def
        media_type.named_def MediaType_cast_def)
qed

lemma send_fragment_run:
  assumes ok: "stream < 2 ^ 60" "off < 2 ^ 32" "length d \<le> 1200"
    and hd: "header = \<lparr>h_media_id = stream, h_name = name, h_group_id = 0, h_object_id = 0,
      h_offset_and_fin = x, h_flags = 0\<rparr>"
    and off: "offset_and_fin = of_nat off"
  shows "send_fragment env stream header offset_and_fin d c =
    (let m = enc_PublishDatagram (object_datagram stream name off d) in
     (Inr (accepts env (events c) (transport_context_id c) stream m),
      c\<lparr>events := events c @ [Enqueue (transport_context_id c) stream m]\<rparr>))"
proof -
  have "(of_nat (length d) :: u64) < 2 ^ 61" by (rule of_nat_less_exp) (use ok(3) in simp_all)
  moreover have "put_PublishDatagram [] (object_datagram stream name off d) =
      Inr (enc_PublishDatagram (object_datagram stream name off d))"
    using publish_datagram.put_enc [OF object_datagram_ok [OF ok], of "[]"] by simp
  ultimately show ?thesis
    by (simp add: send_fragment_def hd off mk_uintVar_ok op_simps object_datagram_def [symmetric] Let_def)
qed

lemma offset_field_ok:
  assumes "n < 2 ^ 30"
  shows "offset_field (int n) fin = Inr (of_nat (2 * n + (if fin then 1 else 0)))"
proof -
  have "int n < 2 ^ 30" using assms by simp
  then have "to_int32 (2 * int n) = 2 * int n" by (intro to_int32_id) simp_all
  then have v: "word_of_int (to_int32 (push_bit 1 (int n)) + (if fin then 1 else 0))
      = (of_nat (2 * n + (if fin then 1 else 0)) :: u64)"
    by (simp add: push_bit_eq_mult mult.commute)
  have "2 * n + (if fin then 1 else 0) < 2 ^ 61" using assms by simp
  then have "(of_nat (2 * n + (if fin then 1 else 0)) :: u64) < 2 ^ 61" by (rule of_nat_less_exp) simp
  with v show ?thesis by (simp only: offset_field_def mk_uintVar_ok)
qed
lemma frag_count_eq:
  assumes "length data > 1200"
  shows "frag_count data = length data div 1200 + (if length data mod 1200 = 0 then 0 else 1)"
proof -
  have "(length data + 1199) div 1200 =
      ((length data mod 1200 + 1199) + 1200 * (length data div 1200)) div 1200"
    using mod_mult_div_eq [of "length data" 1200] by simp
  then have "(length data + 1199) div 1200 = length data div 1200 + (length data mod 1200 + 1199) div 1200"
    by (simp only: div_mult_self2 zero_neq_numeral not_False_eq_True)
  moreover have "(length data mod 1200 + 1199) div 1200 = (if length data mod 1200 = 0 then 0 else 1)"
    using mod_less_divisor [of 1200 "length data"] by (auto simp: div_nat_eqI)
  moreover have "1 \<le> length data div 1200" using assms by simp
  ultimately show ?thesis by (simp add: frag_count_def MAX_TRANSPORT_DATA_SIZE_def)
qed

abbreviation frag_msg :: "StreamId \<Rightarrow> Name \<Rightarrow> bytes \<Rightarrow> nat \<Rightarrow> bytes" where
  "frag_msg stream name data i \<equiv>
     enc_PublishDatagram (object_datagram stream name (frag_offset data i) (frag_bytes data i))"

lemma length_frag_bytes: "length (frag_bytes data i) \<le> 1200"
  by (simp add: frag_bytes_def MAX_TRANSPORT_DATA_SIZE_def)

lemma frag_offset_bound: "1200 * i < 2 ^ 30 \<Longrightarrow> frag_offset data i < 2 ^ 32"
  by (simp add: frag_offset_def MAX_TRANSPORT_DATA_SIZE_def)

lemma fragment_loop_run:
  assumes stream: "stream < 2 ^ 60" and len: "1200 < length data" "length data < 2 ^ 30"
    and hd: "header = \<lparr>h_media_id = stream, h_name = name, h_group_id = 0, h_object_id = 0,
      h_offset_and_fin = x, h_flags = 0\<rparr>"
    and i: "i + n = length data div 1200"
  shows "fragment_loop env stream header data (length data mod 1200) (int (1200 * i)) n c =
    (let (es, ok) = send_all env (transport_context_id c) stream (events c) (map (frag_msg stream name data) [i..<i + n]) in
     (Inr (if ok then Some (int (1200 * (length data div 1200))) else None), c\<lparr>events := es\<rparr>))"
  using i
proof (induction n arbitrary: i c)
  case 0
  then show ?case by (simp add: op_simps)
next
  case (Suc n)
  let ?ctx = "transport_context_id c"
  let ?m = "frag_msg stream name data i"
  have lt: "i < length data div 1200" using Suc.prems by simp
  then have "Suc i * 1200 \<le> length data"
    using less_eq_div_iff_mult_less_eq [of 1200 "Suc i" "length data"] by simp
  then have "1200 * i < length data" by simp
  then have b: "1200 * i < 2 ^ 30" using len(2) by simp
  have fin: "(n = 0 \<and> length data mod 1200 = 0) \<longleftrightarrow> Suc i = frag_count data"
    using Suc.prems by (auto simp: frag_count_eq [OF len(1)])
  have off: "offset_field (int (1200 * i)) (n = 0 \<and> length data mod 1200 = 0) = Inr (of_nat (frag_offset data i))"
    unfolding offset_field_ok [OF b] fin by (simp add: frag_offset_def MAX_TRANSPORT_DATA_SIZE_def)
  have d: "take MAX_TRANSPORT_DATA_SIZE (drop (nat (int (1200 * i))) data) = frag_bytes data i"
    unfolding nat_int by (simp add: frag_bytes_def MAX_TRANSPORT_DATA_SIZE_def)
  have s: "send_fragment env stream header (of_nat (frag_offset data i)) (frag_bytes data i) c =
      (Inr (accepts env (events c) ?ctx stream ?m), c\<lparr>events := events c @ [Enqueue ?ctx stream ?m]\<rparr>)"
    using send_fragment_run [OF stream frag_offset_bound [OF b] length_frag_bytes hd refl, where env = env and c = c]
    by (simp add: Let_def)
  have upt: "[i..<i + Suc n] = i # [Suc i..<Suc i + n]" by (simp add: upt_rec)
  have nxt: "int (1200 * i) + int MAX_TRANSPORT_DATA_SIZE = int (1200 * Suc i)"
    by (simp add: MAX_TRANSPORT_DATA_SIZE_def)
  have IH: "fragment_loop env stream header data (length data mod 1200) (int (1200 * Suc i)) n c' =
    (let (es, ok) = send_all env (transport_context_id c') stream (events c') (map (frag_msg stream name data) [Suc i..<Suc i + n]) in
     (Inr (if ok then Some (int (1200 * (length data div 1200))) else None), c'\<lparr>events := es\<rparr>))" for c'
    by (rule Suc.IH) (use Suc.prems in simp)
  show ?case
    unfolding fragment_loop.simps off d nxt upt
    by (cases "accepts env (events c) ?ctx stream ?m")
      (simp_all add: op_simps s IH Let_def split: prod.split del: of_nat_mult of_nat_Suc mult_Suc_right)
qed

lemma publish_context_fresh:
  assumes "transport_stream_id c < 2 ^ 60" and "publish_state c = []"
  shows "publish_context c name = \<lparr>pc_state = State_Pending, pc_transport_context_id = transport_context_id c,
      pc_transport_stream_id = transport_stream_id c, pc_group_id = 0, pc_object_id = 0, pc_offset = 0\<rparr>"
    and "mk_uintVar (transport_stream_id c) = Inr (transport_stream_id c)" and "mk_uintVar 0 = Inr 0"
  using assms order.strict_trans [OF assms(1), of "2 ^ 61"] by (simp_all add: publish_context_def mk_uintVar_ok)

lemma publish_small_run:
  assumes stream: "transport_stream_id c < 2 ^ 60" and ps: "publish_state c = []" and small: "length data \<le> 1200"
  shows "publishNamedObject env name data c =
    (Inr (), c\<lparr>events := fst (send_all env (transport_context_id c) (transport_stream_id c) (events c)
       (map enc_PublishDatagram (object_datagrams (transport_stream_id c) name data)))\<rparr>)"
proof -
  let ?st = "transport_stream_id c"
  have "(length data + 1199) div 1200 \<le> 1" using small by simp
  then have "frag_count data = 1" by (simp add: frag_count_def MAX_TRANSPORT_DATA_SIZE_def)
  then have od: "object_datagrams ?st name data = [object_datagram ?st name 1 data]"
    using small by (simp add: object_datagrams_def frag_offset_def frag_bytes_def MAX_TRANSPORT_DATA_SIZE_def)
  show ?thesis
    using small send_fragment_run [OF stream _ small refl, where off = 1 and offset_and_fin = 1]
    by (simp add: publishNamedObject_def op_simps publish_context_fresh [OF stream ps] od Let_def MAX_TRANSPORT_DATA_SIZE_def)
qed

lemma publish_large_run:
  assumes stream: "transport_stream_id c < 2 ^ 60" and ps: "publish_state c = []"
    and big: "1200 < length data" and len: "length data < 2 ^ 30"
  shows "publishNamedObject env name data c =
    (Inr (), c\<lparr>events := fst (send_all env (transport_context_id c) (transport_stream_id c) (events c)
       (map enc_PublishDatagram (object_datagrams (transport_stream_id c) name data)))\<rparr>)"
proof -
  let ?ctx = "transport_context_id c" and ?st = "transport_stream_id c"
  let ?h = "\<lparr>h_media_id = ?st, h_name = name, h_group_id = 0, h_object_id = 0, h_offset_and_fin = 1, h_flags = 0\<rparr>"
  note ctx = publish_context_fresh [OF stream ps]
  let ?q = "length data div 1200" and ?r = "length data mod 1200"
  have n: "nat (to_int32 (int ?q)) = ?q"
  proof -
    have "?q < 2 ^ 30" using len by (meson div_le_dividend le_less_trans)
    then show ?thesis by (subst to_int32_id) simp_all
  qed
  have loop: "fragment_loop env ?st ?h data ?r 0 ?q c =
    (let (es, ok) = send_all env ?ctx ?st (events c) (map (frag_msg ?st name data) [0..<?q]) in
     (Inr (if ok then Some (int (1200 * ?q)) else None), c\<lparr>events := es\<rparr>))"
    using fragment_loop_run [OF stream big len refl, where i = 0 and n = ?q] by simp
  have od: "map enc_PublishDatagram (object_datagrams ?st name data) =
      map (frag_msg ?st name data) [0..<?q] @ (if ?r = 0 then [] else [frag_msg ?st name data ?q])"
    by (simp add: object_datagrams_def frag_count_eq [OF big])
  obtain es ok where sa: "send_all env ?ctx ?st (events c) (map (frag_msg ?st name data) [0..<?q]) = (es, ok)"
    by fastforce
  have b: "1200 * ?q < 2 ^ 30" using len by (meson div_times_less_eq_dividend le_less_trans times_div_less_eq_dividend)
  have last: "drop (nat (int (1200 * ?q))) data = frag_bytes data ?q"
    unfolding nat_int using minus_mod_eq_mult_div [of "length data" 1200] mod_less_divisor [of 1200 "length data"]
    by (simp add: frag_bytes_def MAX_TRANSPORT_DATA_SIZE_def)
  have off: "offset_field (int (1200 * ?q)) True = Inr (of_nat (frag_offset data ?q))" if "?r \<noteq> 0"
    unfolding offset_field_ok [OF b] using that
    by (simp add: frag_offset_def MAX_TRANSPORT_DATA_SIZE_def frag_count_eq [OF big])
  have s: "send_fragment env ?st ?h (of_nat (frag_offset data ?q)) (frag_bytes data ?q) d =
    (let m = frag_msg ?st name data ?q in
    (Inr (accepts env (events d) (transport_context_id d) ?st m), d\<lparr>events := events d @ [Enqueue (transport_context_id d) ?st m]\<rparr>))" for d
    by (rule send_fragment_run [OF stream frag_offset_bound [OF b] length_frag_bytes refl refl])
  have run: "publishNamedObject env name data c =
      (if ok then op_when (?r \<noteq> 0) (op_bind (op_lift (offset_field (int (1200 * ?q)) True)) (\<lambda>off.
         op_bind (send_fragment env ?st ?h off (drop (nat (int (1200 * ?q))) data)) (\<lambda>_. op_return ())))
       else op_return ()) (c\<lparr>events := es\<rparr>)"
    using loop sa big
    by (cases ok) (simp_all add: publishNamedObject_def op_simps ctx Let_def MAX_TRANSPORT_DATA_SIZE_def n
        del: of_nat_mult)
  show ?thesis
  proof (cases "?r = 0")
    case True
    then show ?thesis unfolding run od by (simp add: sa op_simps)
  next
    case r: False
    show ?thesis
      unfolding run od send_all_append sa last off [OF r]
      by (cases ok) (simp_all add: r op_simps s Let_def)
  qed
qed

lemma publishNamedObject_run:
  assumes stream: "transport_stream_id c < 2 ^ 60" and ps: "publish_state c = []" and len: "length data < 2 ^ 30"
  shows "publishNamedObject env name data c =
    (Inr (), c\<lparr>events := fst (send_all env (transport_context_id c) (transport_stream_id c) (events c)
       (map enc_PublishDatagram (object_datagrams (transport_stream_id c) name data)))\<rparr>)"
  using publish_small_run [OF stream ps] publish_large_run [OF stream ps _ len] by (cases "length data \<le> 1200") simp_all
lemma concat_frag_bytes: "concat (map (frag_bytes data) [0..<n]) = take (1200 * n) data"
proof (induction n)
  case (Suc n)
  have "take (1200 * n + 1200) data = take (1200 * n) data @ take 1200 (drop (1200 * n) data)"
    by (rule take_add)
  with Suc show ?case by (simp add: frag_bytes_def MAX_TRANSPORT_DATA_SIZE_def add.commute)
qed simp

lemma frag_count_covers: "length data \<le> 1200 * frag_count data"
proof -
  have "length data + 1199 < 1200 * ((length data + 1199) div 1200 + 1)"
    using dividend_less_times_div [of 1200 "length data + 1199"] by simp
  then show ?thesis by (simp add: frag_count_def MAX_TRANSPORT_DATA_SIZE_def)
qed

lemma frag_count_tight: "Suc i < frag_count data \<Longrightarrow> 1200 * Suc i \<le> length data"
proof -
  assume "Suc i < frag_count data"
  then have "Suc (Suc i) \<le> (length data + 1199) div 1200"
    by (simp add: frag_count_def MAX_TRANSPORT_DATA_SIZE_def)
  then have "Suc (Suc i) * 1200 \<le> length data + 1199"
    using less_eq_div_iff_mult_less_eq [of 1200 "Suc (Suc i)" "length data + 1199"] by simp
  then show ?thesis by simp
qed

lemma frag_count_less: "i < frag_count data \<Longrightarrow> 1200 * i \<le> length data"
  using frag_count_tight [of "i - 1" data] by (cases i) simp_all

lemma concat_all_frags: "concat (map (frag_bytes data) [0..<frag_count data]) = data"
  using frag_count_covers [of data] by (simp add: concat_frag_bytes)

lemma length_frag_full: "Suc i < frag_count data \<Longrightarrow> length (frag_bytes data i) = 1200"
  using frag_count_tight [of i data] by (simp add: frag_bytes_def MAX_TRANSPORT_DATA_SIZE_def)

section \<open>Reassembly\<close>

text \<open>The fragment map that has received the blocks \<open>is\<close>, and when it is complete.\<close>

definition frag_entry :: "bytes \<Rightarrow> nat \<Rightarrow> int \<times> bytes" where
  "frag_entry data i = (int (frag_offset data i), frag_bytes data i)"

lemma frag_offset_mono: "i < j \<Longrightarrow> frag_offset data i < frag_offset data j"
  by (auto simp: frag_offset_def MAX_TRANSPORT_DATA_SIZE_def)

lemma frag_entry_wf: "sorted_wrt (<) is \<Longrightarrow> map_wf int_lt (map (frag_entry data) is)"
  by (simp add: map_wf_def sorted_wrt_map frag_entry_def)
    (rule sorted_wrt_mono_rel [where P = "(<)"], simp_all add: frag_offset_mono)

lemma frag_entry_key: "drop_bit 1 (fst (frag_entry data i)) = int (1200 * i)"
  by (simp add: frag_entry_def frag_offset_def MAX_TRANSPORT_DATA_SIZE_def drop_bit_eq_div)

lemma frag_entry_fin: "fst (frag_entry data i) AND 1 = 1 \<longleftrightarrow> Suc i = frag_count data"
  by (simp add: frag_entry_def frag_offset_def MAX_TRANSPORT_DATA_SIZE_def and_one_eq) presburger

lemma reassemble_frags:
  assumes "sorted_wrt (<) is" and "\<forall>i \<in> set is. i < frag_count data" and "length data < 2 ^ 30"
  shows "reassemble (int (1200 * j)) acc (map (frag_entry data) is) =
    (if is = [j..<j + length is] then Some (acc @ concat (map (frag_bytes data) is)) else None)"
  using assms(1,2)
proof (induction "is" arbitrary: j acc)
  case Nil
  show ?case by simp
next
  case (Cons i "is")
  show ?case
  proof (cases "i = j")
    case False
    then have "i # is \<noteq> [j..<j + length (i # is)]" by (simp add: upt_rec)
    with False show ?thesis
      using frag_entry_key [of data i] by (cases "frag_entry data i") simp
  next
    case True
    have e: "frag_entry data j = (int (frag_offset data j), frag_bytes data j)" by (simp add: frag_entry_def)
    have key: "drop_bit 1 (int (frag_offset data j)) = int (1200 * j)"
      using frag_entry_key [of data j] by (simp add: e)
    show ?thesis
    proof (cases "is")
      case Nil
      with True key show ?thesis by (simp add: e)
    next
      case (Cons k ks)
      with Cons.prems True have "j < k" "k < frag_count data" by auto
      then have suc: "Suc j < frag_count data" by simp
      then have len: "length (frag_bytes data j) = 1200" by (rule length_frag_full)
      have "1200 * Suc j \<le> length data" by (rule frag_count_tight [OF suc])
      with assms(3) have "int (1200 * Suc j) < 2 ^ 31" by simp
      then have seq: "to_int32 (int (1200 * j) + int (length (frag_bytes data j))) = int (1200 * Suc j)"
        unfolding len by (subst to_int32_id) simp_all
      have IH: "reassemble (int (1200 * Suc j)) a (map (frag_entry data) is) =
          (if is = [Suc j..<Suc j + length is] then Some (a @ concat (map (frag_bytes data) is)) else None)" for a
        by (rule Cons.IH) (use Cons.prems in simp_all)
      have upt: "[j..<j + length (j # is)] = j # [Suc j..<Suc j + length is]" by (simp add: upt_rec)
      show ?thesis
        unfolding True list.map e reassemble.simps key seq IH upt by simp
    qed
  qed
qed

lemma reassemble_complete:
  assumes s: "sorted_wrt (<) is" and b: "\<forall>i \<in> set is. i < frag_count data"
    and len: "length data < 2 ^ 30" and ne: "is \<noteq> []"
  shows "fst (last (map (frag_entry data) is)) AND 1 = 1 \<and> reassemble 0 [] (map (frag_entry data) is) \<noteq> None
     \<longleftrightarrow> is = [0..<frag_count data]"
    and "is = [0..<frag_count data] \<Longrightarrow> reassemble 0 [] (map (frag_entry data) is) = Some data"
proof -
  have r: "reassemble 0 [] (map (frag_entry data) is) =
      (if is = [0..<length is] then Some (concat (map (frag_bytes data) is)) else None)"
    using reassemble_frags [OF s b len, of 0 "[]"] by simp
  have l: "fst (last (map (frag_entry data) is)) AND 1 = 1 \<longleftrightarrow> Suc (last is) = frag_count data"
    using ne frag_entry_fin by (simp add: last_map)
  show "fst (last (map (frag_entry data) is)) AND 1 = 1 \<and> reassemble 0 [] (map (frag_entry data) is) \<noteq> None
     \<longleftrightarrow> is = [0..<frag_count data]"
  proof
    assume a: "fst (last (map (frag_entry data) is)) AND 1 = 1 \<and> reassemble 0 [] (map (frag_entry data) is) \<noteq> None"
    then have u: "is = [0..<length is]" by (auto simp: r split: if_splits)
    then have "last is = length is - 1" using ne by (metis last_upt length_greater_0_conv)
    with a l ne u show "is = [0..<frag_count data]" by (metis Suc_pred' length_greater_0_conv)
  next
    assume a: "is = [0..<frag_count data]"
    moreover from a ne have "last is = frag_count data - 1" by auto
    moreover have "0 < frag_count data" by (simp add: frag_count_def)
    ultimately show "fst (last (map (frag_entry data) is)) AND 1 = 1 \<and> reassemble 0 [] (map (frag_entry data) is) \<noteq> None"
      unfolding l r by simp
  qed
  show "is = [0..<frag_count data] \<Longrightarrow> reassemble 0 [] (map (frag_entry data) is) = Some data"
    unfolding r by (simp add: concat_all_frags)
qed
definition received :: "bytes \<Rightarrow> nat set \<Rightarrow> frag_map" where
  "received data F = map (frag_entry data) (sorted_list_of_set F)"

lemma received_wf: "finite F \<Longrightarrow> map_wf int_lt (received data F)"
  unfolding received_def by (rule frag_entry_wf) simp

lemma set_received: "finite F \<Longrightarrow> set (received data F) = frag_entry data ` F"
  by (simp add: received_def)

lemma frag_offset_inj: "frag_offset data i = frag_offset data j \<longleftrightarrow> i = j"
  using frag_offset_mono [of i j data] frag_offset_mono [of j i data] by (metis less_irrefl nat_neq_iff)

lemma received_emplace:
  assumes "finite F" and "i \<notin> F"
  shows "map_emplace int_lt (int (frag_offset data i)) (frag_bytes data i) (received data F)
       = received data (insert i F)"
proof (rule int_order.wf_eqI)
  have "\<not> map_has int_lt (int (frag_offset data i)) (received data F)"
    using assms by (auto simp: int_order.has_iff received_wf set_received frag_entry_def frag_offset_inj)
  then show "set (map_emplace int_lt (int (frag_offset data i)) (frag_bytes data i) (received data F))
      = set (received data (insert i F))"
    using assms by (simp add: int_order.set_emplace received_wf set_received frag_entry_def)
qed (use assms in \<open>simp_all add: received_wf int_order.wf_emplace\<close>)

lemma received_single: "received data {i} = [(int (frag_offset data i), frag_bytes data i)]"
  by (simp add: received_def frag_entry_def)

lemma received_complete:
  assumes "F \<subseteq> {..<frag_count data}" and "F \<noteq> {}" and "length data < 2 ^ 30"
  shows "fst (last (received data F)) AND 1 = 1 \<and> reassemble 0 [] (received data F) \<noteq> None
           \<longleftrightarrow> F = {..<frag_count data}"
    and "F = {..<frag_count data} \<Longrightarrow> reassemble 0 [] (received data F) = Some data"
proof -
  have fin: "finite F" using assms(1) finite_subset by blast
  have all: "sorted_list_of_set F = [0..<frag_count data] \<longleftrightarrow> F = {..<frag_count data}"
    using fin by (metis atLeast0LessThan set_sorted_list_of_set set_upt sorted_list_of_set_range)
  note rc = reassemble_complete [where ?is = "sorted_list_of_set F" and data = data]
  have h: "sorted_wrt (<) (sorted_list_of_set F)" "\<forall>i \<in> set (sorted_list_of_set F). i < frag_count data"
    "sorted_list_of_set F \<noteq> []"
    using assms(1,2) fin by auto
  show "fst (last (received data F)) AND 1 = 1 \<and> reassemble 0 [] (received data F) \<noteq> None
           \<longleftrightarrow> F = {..<frag_count data}"
    unfolding received_def using rc(1) [OF h(1,2) assms(3) h(3)] all by simp
  show "F = {..<frag_count data} \<Longrightarrow> reassemble 0 [] (received data F) = Some data"
    unfolding received_def using rc(2) [OF h(1,2) assms(3) h(3)] all by simp
qed

text \<open>Delivery to the delegates that are alive and whose namespace contains the name.\<close>

definition subscribers :: "client_env \<Rightarrow> Client \<Rightarrow> Name \<Rightarrow> delegate list" where
  "subscribers env c name =
     map snd (filter (\<lambda>(ns, d). contains ns name = Inr True \<and> alive env d) (sub_delegates c))"

definition namespaces_ok :: "Client \<Rightarrow> bool" where
  "namespaces_ok c \<longleftrightarrow> list_all (\<lambda>p. ns_wf (fst p)) (sub_delegates c)"

lemma contains_defined: "ns_wf ns \<Longrightarrow> \<exists>b. contains ns name = Inr b"
  by (simp add: contains_def ns_wf_def prefix_mask_ok)

lemma deliver_copies_run:
  assumes "namespaces_ok c"
  shows "deliver_copies env name d c =
    (Inr (), c\<lparr>events := events c @ map (\<lambda>del. OnSubscribedObject del name 0 0 False d) (subscribers env c name)\<rparr>)"
proof -
  define body where "body = (\<lambda>(ns, del). op_bind (op_lift (contains ns name)) (\<lambda>b.
      op_when b (callback env del (OnSubscribedObject del name 0 0 False d))))"
  let ?ev = "\<lambda>del. OnSubscribedObject del name 0 0 False d"
  let ?hit = "\<lambda>(ns, del). contains ns name = Inr True \<and> alive env del"
  have step: "body p c = (Inr (), c\<lparr>events := events c @ (if ?hit p then [?ev (snd p)] else [])\<rparr>)"
    if wf: "ns_wf (fst p)" for p c
  proof (cases p)
    case (Pair ns del)
    obtain b where "contains ns name = Inr b" using contains_defined [of ns name] wf Pair by auto
    then show ?thesis by (cases b) (simp_all add: Pair body_def op_simps)
  qed
  have "op_for ds body c = (Inr (), c\<lparr>events := events c @ map ?ev (map snd (filter ?hit ds))\<rparr>)"
    if "list_all (\<lambda>p. ns_wf (fst p)) ds" for ds
    using that
  proof (induction ds arbitrary: c)
    case Nil
    show ?case by (simp add: op_simps)
  next
    case (Cons p ds)
    then show ?case by (simp add: op_then_Inr [where m = "body p"] step split: if_splits)
  qed
  then show ?thesis
    using assms unfolding deliver_copies_def subscribers_def namespaces_ok_def
    by (simp add: op_bind_simps body_def)
qed

section \<open>Receiving the fragments of an object\<close>

text \<open>A client that can take a new name without moving to the next buffer.\<close>

definition room_for :: "Client \<Rightarrow> Name \<Rightarrow> bool" where
  "room_for c name \<longleftrightarrow> frag_inv c \<and> find_buffer name (fragments c) = None \<and>
     Suc (length (get_buffer (cindex_key c) (fragments c))) < unat (MAX_FRAGMENT_NAMES_PENDING_PER_BUFFER c)"

text \<open>The client \<open>c\<close> after the blocks \<open>F\<close> of the object have arrived, and after all of them have.\<close>

definition partly_received :: "Client \<Rightarrow> Name \<Rightarrow> bytes \<Rightarrow> nat set \<Rightarrow> Client" where
  "partly_received c name data F =
     (let k = cindex_key c in
      c\<lparr>fragments := map_set int_lt k
          (map_set Name_lt name (received data F) (get_buffer k (fragments c))) (fragments c)\<rparr>)"

definition completed :: "client_env \<Rightarrow> Client \<Rightarrow> Name \<Rightarrow> bytes \<Rightarrow> Client" where
  "completed env c name data =
     c\<lparr>fragments := map_touch int_lt [] (cindex_key c) (fragments c),
       events := events c @ map (\<lambda>d. OnSubscribedObject d name 0 0 False data) (subscribers env c name)\<rparr>"

abbreviation frag_datagram :: "StreamId \<Rightarrow> Name \<Rightarrow> bytes \<Rightarrow> nat \<Rightarrow> PublishDatagram" where
  "frag_datagram stream name data i \<equiv>
     object_datagram stream name (frag_offset data i) (frag_bytes data i)"

lemma frag_key:
  assumes "i < frag_count data" and "length data < 2 ^ 30"
  shows "to_int32 (uint (of_nat (frag_offset data i) :: u64)) = int (frag_offset data i)"
proof -
  have "1200 * i \<le> length data" by (rule frag_count_less [OF assms(1)])
  with assms(2) have b: "frag_offset data i < 2 ^ 31"
    by (simp add: frag_offset_def MAX_TRANSPORT_DATA_SIZE_def)
  then have "unat (of_nat (frag_offset data i) :: u64) = frag_offset data i"
    by (intro unat_of_nat_word) simp
  with b to_int32_word [of "of_nat (frag_offset data i) :: u64"] show ?thesis by simp
qed

lemma set_set_int: "map_wf int_lt m \<Longrightarrow> map_set int_lt i b (map_set int_lt i a m) = map_set int_lt i b m"
  by (rule int_order.wf_ext) (simp_all add: int_order.wf_set int_order.find_set)

lemma set_touch_int: "map_wf int_lt m \<Longrightarrow> map_set int_lt i b (map_touch int_lt [] i m) = map_set int_lt i b m"
  by (rule int_order.wf_ext)
    (auto simp: int_order.wf_set int_order.wf_touch int_order.find_set map_touch_def
      int_order.find_emplace int_order.wf_emplace int_order.eqv_iff_eq)

lemma touch_set_int: "map_wf int_lt m \<Longrightarrow> map_touch int_lt [] i (map_set int_lt i b m) = map_set int_lt i b m"
  by (simp add: map_touch_def map_emplace_def int_order.has_set int_order.eqv_refl)

lemma set_get_touch: "map_wf int_lt m \<Longrightarrow> map_set int_lt i (get_buffer i m) m = map_touch int_lt [] i m"
  by (rule int_order.wf_ext)
    (auto simp: int_order.wf_set int_order.wf_touch int_order.find_set map_touch_def
      int_order.find_emplace int_order.wf_emplace int_order.eqv_iff_eq map_get_def split: option.splits)

lemma set_set_name: "map_wf Name_lt m \<Longrightarrow> map_set Name_lt n b (map_set Name_lt n a m) = map_set Name_lt n b m"
  by (rule name_order.wf_ext) (simp_all add: name_order.wf_set name_order.find_set)

lemma erase_set_name:
  "map_wf Name_lt m \<Longrightarrow> \<not> map_has Name_lt n m \<Longrightarrow> map_erase Name_lt n (map_set Name_lt n a m) = m"
  by (rule name_order.wf_ext)
    (auto simp: name_order.wf_set name_order.wf_erase name_order.find_set name_order.find_erase
      name_order.eqv_iff_eq map_has_def)

lemma find_buffer_touch: "find_buffer name (map_touch int_lt [] i m) = None \<longleftrightarrow> find_buffer name m = None"
proof -
  have "set (map_touch int_lt [] i m) \<subseteq> insert (i, []) (set m)" if "\<not> map_has int_lt i m"
  proof -
    have "map_set int_lt i [] m = map_set int_lt i [] m" ..
    then show ?thesis using that
      by (simp add: map_touch_def map_emplace_def map_has_def)
        (induction m; auto split: if_splits)
  qed
  moreover have "set m \<subseteq> set (map_set int_lt i [] m)" if "\<not> map_has int_lt i m"
    using that unfolding map_has_def by (induction m) (auto split: if_splits)
  ultimately show ?thesis
    by (cases "map_has int_lt i m") (fastforce simp: find_buffer_None map_touch_def map_emplace_def)+
qed

lemma room_facts:
  assumes "room_for c name"
  defines "k \<equiv> cindex_key c"
  shows "map_wf int_lt (fragments c)" and "map_wf Name_lt (get_buffer k (fragments c))"
    and "\<not> map_has Name_lt name (get_buffer k (fragments c))"
    and "map_find Name_lt name (get_buffer k (fragments c)) = None"
proof -
  have inv0: "frag_inv0 c" using assms(1) by (simp add: room_for_def frag_inv_def)
  show wf: "map_wf int_lt (fragments c)" by (rule frag_inv0_wf [OF inv0])
  show "map_wf Name_lt (get_buffer k (fragments c))"
    using frag_ok_get [OF frag_inv0_ok [OF inv0]] by (simp add: buffer_ok_def)
  show no: "\<not> map_has Name_lt name (get_buffer k (fragments c))"
  proof (cases "get_buffer k (fragments c) = []")
    case False
    then have "(k, get_buffer k (fragments c)) \<in> set (fragments c)" by (rule get_buffer_mem [OF wf])
    with assms(1) show ?thesis by (auto simp: room_for_def find_buffer_None)
  qed simp
  then show "map_find Name_lt name (get_buffer k (fragments c)) = None" by (simp add: map_has_def)
qed

lemma partly_received_simps [simp]:
  "cindex_key (partly_received c name data F) = cindex_key c"
  "events (partly_received c name data F) = events c"
  "MAX_FRAGMENT_NAMES_PENDING_PER_BUFFER (partly_received c name data F) = MAX_FRAGMENT_NAMES_PENDING_PER_BUFFER c"
  "sub_delegates (partly_received c name data F) = sub_delegates c"
  by (simp_all add: partly_received_def cindex_key_def Let_def)
lemma next_buffer_stays:
  "length (get_buffer (cindex_key c) (fragments c)) < unat (MAX_FRAGMENT_NAMES_PENDING_PER_BUFFER c) \<Longrightarrow>
     next_buffer c = (Inr (), c)"
  by (simp add: next_buffer_def op_simps)

lemma partly_received_buffer:
  assumes "room_for c name"
  shows "get_buffer (cindex_key c) (fragments (partly_received c name data F)) =
    map_set Name_lt name (received data F) (get_buffer (cindex_key c) (fragments c))"
  using room_facts(1) [OF assms] by (simp add: partly_received_def Let_def get_buffer_set)

lemma partly_received_stays:
  assumes "room_for c name"
  shows "next_buffer (partly_received c name data F) = (Inr (), partly_received c name data F)"
proof (rule next_buffer_stays)
  show "length (get_buffer (cindex_key (partly_received c name data F)) (fragments (partly_received c name data F)))
     < unat (MAX_FRAGMENT_NAMES_PENDING_PER_BUFFER (partly_received c name data F))"
    using assms room_facts(3) [OF assms]
    by (simp add: partly_received_buffer length_map_set room_for_def)
qed

lemma first_fragment:
  assumes room: "room_for c name" and i: "i < frag_count data" and len: "length data < 2 ^ 30"
  shows "handle_pub_fragment env (frag_datagram stream name data i) c = (Inr (), partly_received c name data {i})"
proof -
  let ?k = "cindex_key c"
  let ?t = "c\<lparr>fragments := map_touch int_lt [] ?k (fragments c)\<rparr>"
  let ?cur = "get_buffer ?k (fragments c)"
  note rf = room_facts [OF room]
  have cur: "get_buffer ?k (fragments ?t) = ?cur" by (simp add: int_order.get_touch [OF rf(1)])
  have fb: "find_buffer name (fragments ?t) = None"
    using room by (simp add: room_for_def find_buffer_touch)
  have "store_fragment env name (int (frag_offset data i)) (frag_bytes data i) ?k ?cur ?t
      = (Inr (), partly_received c name data {i})"
    using fb set_touch_int [OF rf(1)]
    by (simp add: store_fragment_def rf(4) op_simps set_buffer_def partly_received_def Let_def received_single)
  then show ?thesis
    unfolding handle_pub_fragment_def
    using cur frag_key [OF i len] partly_received_stays [OF room]
    by (simp add: op_simps touch_buffer_def object_datagram_def)
qed

lemma completed_stays:
  assumes "room_for c name"
  shows "next_buffer (completed env c name data) = (Inr (), completed env c name data)"
proof (rule next_buffer_stays)
  show "length (get_buffer (cindex_key (completed env c name data)) (fragments (completed env c name data)))
     < unat (MAX_FRAGMENT_NAMES_PENDING_PER_BUFFER (completed env c name data))"
    using assms int_order.get_touch [OF room_facts(1) [OF assms]]
    by (simp add: completed_def room_for_def cindex_key_def)
qed

lemma notify_received:
  assumes F: "F \<subseteq> {..<frag_count data}" "F \<noteq> {}" and len: "length data < 2 ^ 30" and ns: "namespaces_ok c"
  shows "notify_pub_fragment env name (received data F) c =
    (if F = {..<frag_count data} then
       (Inr True, c\<lparr>events := events c @ map (\<lambda>d. OnSubscribedObject d name 0 0 False data) (subscribers env c name)\<rparr>)
     else (Inr False, c))"
proof -
  have ne: "received data F \<noteq> []"
    using F finite_subset [OF F(1)] by (simp add: received_def)
  note rc = received_complete [OF F len]
  show ?thesis
  proof (cases "F = {..<frag_count data}")
    case True
    with rc ne show ?thesis
      by (simp add: notify_pub_fragment_def op_simps deliver_copies_run [OF ns])
  next
    case False
    with rc(1) ne show ?thesis
      by (auto simp: notify_pub_fragment_def op_simps)
  qed
qed

lemma later_fragment:
  assumes room: "room_for c name" and i: "i < frag_count data" and len: "length data < 2 ^ 30"
    and F: "F \<subseteq> {..<frag_count data}" "F \<noteq> {}" "i \<notin> F" and ns: "namespaces_ok c"
  shows "handle_pub_fragment env (frag_datagram stream name data i) (partly_received c name data F) =
    (Inr (), if insert i F = {..<frag_count data} then completed env c name data
             else partly_received c name data (insert i F))"
proof -
  let ?k = "cindex_key c"
  let ?p = "partly_received c name data"
  let ?cur = "get_buffer ?k (fragments c)"
  let ?cur' = "map_set Name_lt name (received data F) ?cur"
  note rf = room_facts [OF room]
  have fin: "finite F" by (rule finite_subset [OF F(1)]) simp
  have touch: "(?p F)\<lparr>fragments := map_touch int_lt [] ?k (fragments (?p F))\<rparr> = ?p F"
    by (simp add: partly_received_def Let_def touch_set_int [OF rf(1)])
  have find: "map_find Name_lt name ?cur' = Some (received data F)"
    by (simp add: name_order.find_set [OF rf(2)] name_order.eqv_refl)
  have set: "(?p F)\<lparr>fragments := map_set int_lt ?k (map_set Name_lt name (received data (insert i F)) ?cur')
      (fragments (?p F))\<rparr> = ?p (insert i F)"
    by (simp add: partly_received_def Let_def set_set_int [OF rf(1)] set_set_name [OF rf(2)])
  have nsp: "namespaces_ok (?p (insert i F))" using ns by (simp add: namespaces_ok_def)
  have sub: "subscribers env (?p G) name = subscribers env c name" for G by (simp add: subscribers_def)
  have iF: "insert i F \<subseteq> {..<frag_count data}" "insert i F \<noteq> {}" using i F by auto
  have erase: "erase_name ?k name ((?p G)\<lparr>events := es\<rparr>) =
      (Inr (), c\<lparr>fragments := map_touch int_lt [] ?k (fragments c), events := es\<rparr>)" for es G
    using get_buffer_set [OF rf(1)] set_set_int [OF rf(1)] erase_set_name [OF rf(2,3)] set_get_touch [OF rf(1)]
    by (simp add: erase_name_def op_simps partly_received_def Let_def)
  have "store_fragment env name (int (frag_offset data i)) (frag_bytes data i) ?k ?cur' (?p F) =
      op_bind (notify_pub_fragment env name (received data (insert i F)))
        (\<lambda>complete. op_when complete (erase_name ?k name)) (?p (insert i F))"
    unfolding store_fragment_def find option.case Let_def received_emplace [OF fin F(3)] set_buffer_def
    by (simp add: op_then_simps set)
  also have "\<dots> = (Inr (), if insert i F = {..<frag_count data} then completed env c name data
      else ?p (insert i F))"
    unfolding op_bind_def notify_received [OF iF len nsp] by (simp add: erase sub completed_def op_run)
  finally have "store_fragment env name (int (frag_offset data i)) (frag_bytes data i) ?k ?cur' (?p F) =
      (Inr (), if insert i F = {..<frag_count data} then completed env c name data else ?p (insert i F))" .
  then show ?thesis
    unfolding handle_pub_fragment_def
    using frag_key [OF i len] partly_received_stays [OF room] completed_stays [OF room] touch
    by (simp add: op_simps touch_buffer_def object_datagram_def partly_received_buffer [OF room])
qed
lemma client_handle_publish:
  assumes "PublishDatagram_ok d"
  shows "client_handle env (enc_PublishDatagram d) c = handle_Publish env d c"
proof -
  obtain rest where m: "enc_PublishDatagram d = 5 # rest"
    by (simp add: enc_PublishDatagram_def enc_type_def enc_u8_def)
  have "get_PublishDatagram (5 # rest) = Inr (d, [])"
    using publish_datagram.get_enc [OF assms, of "[]"] by (simp add: m)
  then show ?thesis
    by (simp add: client_handle_def m mb_empty_def front_def op_simps MessageType_cast_def)
qed

lemma handle_fragment_message:
  assumes "stream < 2 ^ 60" and i: "i < frag_count data" and many: "1 < frag_count data"
    and len: "length data < 2 ^ 30"
  shows "client_handle env (frag_msg stream name data i) c = handle_pub_fragment env (frag_datagram stream name data i) c"
proof -
  have "1200 * i < 2 ^ 30" using frag_count_less [OF i] len by simp
  then have ok: "PublishDatagram_ok (frag_datagram stream name data i)"
    by (intro object_datagram_ok assms(1) frag_offset_bound length_frag_bytes)
  have "frag_offset data i \<noteq> 1"
    using many by (auto simp: frag_offset_def MAX_TRANSPORT_DATA_SIZE_def)
  moreover have "frag_offset data i < 2 ^ 64"
    using frag_offset_bound [OF \<open>1200 * i < 2 ^ 30\<close>, of data] by simp
  ultimately have "(of_nat (frag_offset data i) :: u64) \<noteq> 1"
    using unat_of_nat_word [where ?'a = 64, of "frag_offset data i"] by auto
  then show ?thesis
    unfolding client_handle_publish [OF ok] handle_Publish_def by (simp add: object_datagram_def)
qed

lemma receive_run:
  assumes stream: "stream < 2 ^ 60" and many: "1 < frag_count data" and len: "length data < 2 ^ 30"
    and room: "room_for c name" and ns: "namespaces_ok c"
    and "is": "distinct is" "set is \<subseteq> {..<frag_count data}" "is \<noteq> []"
  shows "op_for (map (frag_msg stream name data) is) (client_handle env) c =
    (Inr (), if set is = {..<frag_count data} then completed env c name data
             else partly_received c name data (set is))"
  using "is"
proof (induction "is" rule: rev_induct)
  case Nil
  then show ?case by simp
next
  case (snoc i "is")
  have i: "i < frag_count data" "i \<notin> set is" using snoc.prems(1,2) by simp_all
  have handle: "client_handle env (frag_msg stream name data i) s =
      handle_pub_fragment env (frag_datagram stream name data i) s" for s
    by (rule handle_fragment_message [OF stream i(1) many len])
  show ?case
  proof (cases "is = []")
    case True
    have "{i} \<noteq> {..<frag_count data}"
      using many by (metis card_lessThan card_insert_disjoint card.empty empty_iff finite.emptyI less_irrefl One_nat_def)
    with True show ?thesis
      by (simp add: handle first_fragment [OF room i(1) len] op_simps)
  next
    case False
    have sub: "set is \<subseteq> {..<frag_count data}" "set is \<noteq> {}" "distinct is"
      using snoc.prems(1,2) False by simp_all
    have "set is \<noteq> {..<frag_count data}" using i by (metis lessThan_iff)
    then have IH: "op_for (map (frag_msg stream name data) is) (client_handle env) c =
        (Inr (), partly_received c name data (set is))"
      using snoc.IH [OF sub(3,1) False] by simp
    show ?thesis
      using later_fragment [OF room i(1) len sub(1,2) i(2) ns, of env stream]
      by (simp add: op_for_append op_then_def op_bind_def IH handle op_run)
  qed
qed

lemma perm_of_map:
  "mset ys = mset (map f xs) \<Longrightarrow> \<exists>zs. mset zs = mset xs \<and> ys = map f zs"
proof (induction ys arbitrary: xs)
  case Nil
  then show ?case by auto
next
  case (Cons y ys)
  then have "y \<in> set (map f xs)" by (metis list.set_intros(1) set_mset_mset)
  then obtain x where x: "x \<in> set xs" "f x = y" by auto
  then have "mset (map f xs) = add_mset y (mset (map f (remove1 x xs)))"
    by (metis image_mset_add_mset mset_map insert_DiffM mset_remove1 set_mset_mset)
  with Cons.prems have "mset ys = mset (map f (remove1 x xs))" by simp
  from Cons.IH [OF this] obtain zs where "mset zs = mset (remove1 x xs)" "ys = map f zs" by blast
  with x show ?case by (intro exI [of _ "x # zs"]) simp
qed

lemma receive_any_order:
  assumes "stream < 2 ^ 60" and "1 < frag_count data" and "length data < 2 ^ 30"
    and "room_for c name" and "namespaces_ok c"
    and perm: "mset ms = mset (map enc_PublishDatagram (object_datagrams stream name data))"
  shows "op_for ms (client_handle env) c = (Inr (), completed env c name data)"
proof -
  have "map enc_PublishDatagram (object_datagrams stream name data) = map (frag_msg stream name data) [0..<frag_count data]"
    by (simp add: object_datagrams_def)
  with perm have "mset ms = mset (map (frag_msg stream name data) [0..<frag_count data])" by simp
  from perm_of_map [OF this] obtain "is"
    where "is": "mset is = mset [0..<frag_count data]" "ms = map (frag_msg stream name data) is"
    by blast
  have d: "distinct is" using mset_eq_imp_distinct_iff [OF "is"(1)] by simp
  have s: "set is = {..<frag_count data}"
    using mset_eq_setD [OF "is"(1)] by (simp add: atLeast0LessThan)
  have "0 \<in> set is" unfolding s using assms(2) by simp
  then have n: "is \<noteq> []" by (metis empty_iff list.set(1))
  show ?thesis
    unfolding "is"(2) using receive_run [OF assms(1-5) d _ n, of env] by (simp add: s)
qed

section \<open>Unfragmented objects\<close>

text \<open>What each delegate finds in the buffer when the ones before it have had their turn.\<close>

fun handed_on :: "client_env \<Rightarrow> delegate list \<Rightarrow> bytes \<Rightarrow> (delegate \<times> bytes) list" where
  "handed_on env [] data = []"
| "handed_on env (d # ds) data = (d, data) # handed_on env ds (leaves env d data)"

lemma deliver_moved_run:
  assumes "list_all (\<lambda>p. ns_wf (fst p)) ds"
  shows "deliver_moved env name ds data c =
    (Inr (), c\<lparr>events := events c @ map (\<lambda>(d, x). OnSubscribedObject d name 0 0 False x)
       (handed_on env (map snd (filter (\<lambda>(ns, d). contains ns name = Inr True \<and> alive env d) ds)) data)\<rparr>)"
  using assms
proof (induction ds arbitrary: c data)
  case Nil
  show ?case by (simp add: op_simps)
next
  case (Cons p ds)
  obtain ns d where p: "p = (ns, d)" by (cases p)
  obtain b where b: "contains ns name = Inr b" using contains_defined [of ns name] Cons.prems p by auto
  from Cons.prems have "list_all (\<lambda>p. ns_wf (fst p)) ds" by simp
  note IH = Cons.IH [OF this]
  show ?case by (cases b; cases "alive env d") (simp_all add: p b op_simps IH)
qed

lemma handle_whole_object:
  assumes ok: "PublishDatagram_ok d" and whole: "h_offset_and_fin (pd_header d) = 1" and ns: "namespaces_ok c"
  shows "client_handle env (enc_PublishDatagram d) c =
    (Inr (), c\<lparr>events := events c @ map (\<lambda>(del, x). OnSubscribedObject del (h_name (pd_header d)) 0 0 False x)
       (handed_on env (subscribers env c (h_name (pd_header d))) (pd_media_data d))\<rparr>)"
  using deliver_moved_run [of "sub_delegates c" env "h_name (pd_header d)" "pd_media_data d" c] ns
  by (simp add: client_handle_publish [OF ok] handle_Publish_def whole op_simps namespaces_ok_def subscribers_def)

section \<open>An object that completes outside the current buffer\<close>

lemma notify_complete:
  assumes "fm \<noteq> []" and "fst (last fm) AND 1 = 1" and "reassemble 0 [] fm = Some x" and "namespaces_ok c"
  shows "\<exists>c'. notify_pub_fragment env name fm c = (Inr True, c')"
  using assms by (simp add: notify_pub_fragment_def op_simps deliver_copies_run)

lemma store_elsewhere:
  assumes none: "map_find Name_lt name cur = None" and found: "find_buffer name (fragments c) = Some (i, buf)"
    and fm: "map_find Name_lt name buf = Some fm" and ns: "namespaces_ok c"
    and fin: "fst (last (map_emplace int_lt key data fm)) AND 1 = 1"
    and full: "reassemble 0 [] (map_emplace int_lt key data fm) = Some x"
    and ne: "fm \<noteq> []"
  shows "fst (store_fragment env name key data ci cur c) = Inl undefined_behaviour"
proof -
  let ?fm = "map_emplace int_lt key data fm"
  let ?c1 = "c\<lparr>fragments := map_set int_lt i (map_set Name_lt name ?fm buf) (fragments c)\<rparr>"
  have "?fm \<noteq> []" using ne length_map_emplace [of int_lt key data fm] by (auto split: if_splits)
  moreover have "namespaces_ok ?c1" using ns by (simp add: namespaces_ok_def)
  ultimately obtain c2 where "notify_pub_fragment env name ?fm ?c1 = (Inr True, c2)"
    using notify_complete [OF _ fin full] by blast
  moreover have "map_get Name_lt [] name buf = fm" using fm by (simp add: map_get_def)
  ultimately show ?thesis
    using none found by (simp add: store_fragment_def op_simps set_buffer_def Let_def)
qed

section \<open>Properties\<close>

lemma object_datagrams_data:
  "concat (map pd_media_data (object_datagrams stream name data)) = data"
  "\<forall>d \<in> set (object_datagrams stream name data). length (pd_media_data d) \<le> 1200"
  using concat_all_frags [of data] length_frag_bytes [of data]
  by (simp_all add: object_datagrams_def object_datagram_def comp_def)

lemma object_datagrams_not_Nil: "object_datagrams stream name data \<noteq> []"
  by (simp add: object_datagrams_def frag_count_def)

text \<open>C8. Publishing an object below 1 GiB cuts it into blocks of at most 1200 bytes that
  concatenate to the object and hands them to the transport in order, each with twice its offset and the
  last-block mark. The transport has accepted every block handed over but the last of them, and when blocks are left
  over it has refused that last one: publishing goes on exactly until a block is refused.\<close>

theorem publishNamedObject_fragments:
  assumes "transport_stream_id c < 2 ^ 60" and "publish_state c = []" and "length data < 2 ^ 30"
  shows "\<exists>ds k. ds = object_datagrams (transport_stream_id c) name data \<and> 0 < k \<and> k \<le> length ds \<and>
    publishNamedObject env name data c = (Inr (), c\<lparr>events := events c @
      map (\<lambda>d. Enqueue (transport_context_id c) (transport_stream_id c) (enc_PublishDatagram d)) (take k ds)\<rparr>) \<and>
    (\<forall>j. Suc j < k \<longrightarrow> accepts_nth env (transport_context_id c) (transport_stream_id c) (events c) (map enc_PublishDatagram ds) j) \<and>
    (k < length ds \<longrightarrow>
      \<not> accepts_nth env (transport_context_id c) (transport_stream_id c) (events c) (map enc_PublishDatagram ds) (k - 1)) \<and>
    concat (map pd_media_data ds) = data \<and> (\<forall>d \<in> set ds. length (pd_media_data d) \<le> 1200)"
proof -
  let ?ctx = "transport_context_id c" and ?st = "transport_stream_id c"
  let ?ds = "object_datagrams ?st name data"
  let ?ms = "map enc_PublishDatagram ?ds"
  obtain k where k: "k \<le> length ?ms" "0 < k" "fst (send_all env ?ctx ?st (events c) ?ms) = events c @ map (Enqueue ?ctx ?st) (take k ?ms)"
    "\<forall>j. Suc j < k \<longrightarrow> accepts_nth env ?ctx ?st (events c) ?ms j"
    "k < length ?ms \<longrightarrow> \<not> accepts_nth env ?ctx ?st (events c) ?ms (k - 1)"
    using send_all_prefix [of ?ms env ?ctx ?st "events c"] object_datagrams_not_Nil by blast
  have "publishNamedObject env name data c = (Inr (), c\<lparr>events := events c @
      map (\<lambda>d. Enqueue ?ctx ?st (enc_PublishDatagram d)) (take k ?ds)\<rparr>)"
    unfolding publishNamedObject_run [OF assms] k(3) by (simp add: take_map comp_def)
  with k object_datagrams_data [of ?st name data] show ?thesis
    by (intro exI [of _ ?ds] exI [of _ k]) simp
qed

text \<open>With a transport that takes one message and refuses the next, two of the three blocks of an object
  are handed over.\<close>

theorem publishNamedObject_fragments_witness:
  "\<exists>ds. ds = object_datagrams 2 (Name 3 4) (replicate 2500 7) \<and> length ds = 3 \<and>
    publishNamedObject (sample_env\<lparr>accepts := \<lambda>h _ _ _. h = []\<rparr>) (Name 3 4) (replicate 2500 7) (new_client 1 2) =
      (Inr (), (new_client 1 2)\<lparr>events := map (\<lambda>d. Enqueue 1 2 (enc_PublishDatagram d)) (take 2 ds)\<rparr>) \<and>
    concat (map pd_media_data ds) = replicate 2500 7"
proof -
  let ?env = "sample_env\<lparr>accepts := \<lambda>h _ _ _. h = []\<rparr>" and ?ds = "object_datagrams 2 (Name 3 4) (replicate 2500 7)"
  have c: "transport_stream_id (new_client 1 2) = 2" "transport_context_id (new_client 1 2) = 1"
    "publish_state (new_client 1 2) = []" "events (new_client 1 2) = []" by (simp_all add: new_client_def)
  have len: "length ?ds = 3" by (simp add: object_datagrams_def frag_count_def MAX_TRANSPORT_DATA_SIZE_def)
  have acc: "accepts_nth ?env 1 2 [] (map enc_PublishDatagram ?ds) j \<longleftrightarrow> j = 0" for j
    using object_datagrams_not_Nil [of 2 "Name 3 4" "replicate 2500 7"] by (auto simp: accepts_nth_def)
  obtain k where k: "0 < k" "k \<le> 3" "\<forall>j. Suc j < k \<longrightarrow> j = 0" "k < 3 \<longrightarrow> k - 1 \<noteq> 0"
    "publishNamedObject ?env (Name 3 4) (replicate 2500 7) (new_client 1 2) =
      (Inr (), (new_client 1 2)\<lparr>events := map (\<lambda>d. Enqueue 1 2 (enc_PublishDatagram d)) (take k ?ds)\<rparr>)"
    "concat (map pd_media_data ?ds) = replicate 2500 7"
    using publishNamedObject_fragments [of "new_client 1 2" "replicate 2500 7" "Name 3 4" ?env] by (auto simp: c len acc)
  have "\<not> Suc 1 < k" using k(3) by (metis one_neq_zero)
  then have "k = 2" using k(1,2,4) by arith
  with k(5,6) len show ?thesis by blast
qed

text \<open>C4. An object of more than one block arrives whole whatever the order of its blocks: a client
  with room for the name, fed the messages the publisher enqueued in any order, hands the object
  once to every live delegate whose namespace contains the name, and forgets the blocks; fed only
  some of the messages it delivers nothing.\<close>

theorem object_transfer:
  assumes "transport_stream_id p < 2 ^ 60" and "publish_state p = []"
    and "\<forall>h m. accepts penv h (transport_context_id p) (transport_stream_id p) m"
    and "1200 < length data" and "length data < 2 ^ 30"
    and "room_for c name" and "namespaces_ok c"
  shows "\<exists>ms. publishNamedObject penv name data p = (Inr (), p\<lparr>events := events p @
      map (Enqueue (transport_context_id p) (transport_stream_id p)) ms\<rparr>) \<and>
    (\<forall>ms'. mset ms' = mset ms \<longrightarrow> op_for ms' (client_handle env) c =
       (Inr (), c\<lparr>fragments := map_touch int_lt [] (cindex_key c) (fragments c),
          events := events c @ map (\<lambda>d. OnSubscribedObject d name 0 0 False data) (subscribers env c name)\<rparr>)) \<and>
    (\<forall>is. distinct is \<and> set is \<subset> {..<length ms} \<longrightarrow>
       events (snd (op_for (map (\<lambda>i. ms ! i) is) (client_handle env) c)) = events c)"
proof (intro exI conjI allI impI)
  let ?st = "transport_stream_id p"
  let ?ms = "map enc_PublishDatagram (object_datagrams ?st name data)"
  have many: "1 < frag_count data"
    using frag_count_covers [of data] assms(4) by (cases "frag_count data") auto
  show "publishNamedObject penv name data p = (Inr (), p\<lparr>events := events p @
      map (Enqueue (transport_context_id p) ?st) ?ms\<rparr>)"
    using publishNamedObject_run [OF assms(1,2,5), of penv name] assms(3)
    by (simp add: send_all_accepted)
  show "op_for ms' (client_handle env) c =
       (Inr (), c\<lparr>fragments := map_touch int_lt [] (cindex_key c) (fragments c),
          events := events c @ map (\<lambda>d. OnSubscribedObject d name 0 0 False data) (subscribers env c name)\<rparr>)"
    if "mset ms' = mset ?ms" for ms'
    using receive_any_order [OF assms(1) many assms(5-7) that, of env] by (simp add: completed_def)
  show "events (snd (op_for (map (\<lambda>i. ?ms ! i) is) (client_handle env) c)) = events c"
    if "is": "distinct is \<and> set is \<subset> {..<length ?ms}" for "is"
  proof (cases "is = []")
    case True
    then show ?thesis by (simp add: op_simps)
  next
    case False
    have sub: "set is \<subseteq> {..<frag_count data}" "set is \<noteq> {..<frag_count data}"
      using "is" by (auto simp: object_datagrams_def)
    then have eq: "map (\<lambda>i. ?ms ! i) is = map (frag_msg ?st name data) is"
      by (auto simp: object_datagrams_def)
    show ?thesis
      unfolding eq using receive_run [OF assms(1) many assms(5-7) _ sub(1) False, of env] "is" sub(2)
      by simp
  qed
qed

definition sample_name :: Name where
  "sample_name = Name 0x1234567800000001 5"

definition sample_client :: Client where
  "sample_client = (new_client 1 2)\<lparr>sub_delegates := [(sample_ns, 0)]\<rparr>"

lemma sample_client_room: "room_for sample_client sample_name" "namespaces_ok sample_client"
  using new_client_inv [of 1 2]
  by (simp_all add: room_for_def sample_client_def client_inv_def namespaces_ok_def sample_ns_wf)
     (simp add: new_client_def find_buffer_def)

theorem object_transfer_witness:
  "\<exists>ms. publishNamedObject sample_env sample_name (replicate 2500 7) (new_client 1 2) =
      (Inr (), (new_client 1 2)\<lparr>events := events (new_client 1 2) @
        map (Enqueue (transport_context_id (new_client 1 2)) (transport_stream_id (new_client 1 2))) ms\<rparr>) \<and>
    (\<forall>ms'. mset ms' = mset ms \<longrightarrow> op_for ms' (client_handle sample_env) sample_client =
       (Inr (), sample_client\<lparr>fragments := map_touch int_lt [] (cindex_key sample_client) (fragments sample_client),
          events := events sample_client @ map (\<lambda>d. OnSubscribedObject d sample_name 0 0 False (replicate 2500 7))
            (subscribers sample_env sample_client sample_name)\<rparr>)) \<and>
    (\<forall>is. distinct is \<and> set is \<subset> {..<length ms} \<longrightarrow>
       events (snd (op_for (map (\<lambda>i. ms ! i) is) (client_handle sample_env) sample_client)) = events sample_client)"
  by (rule object_transfer [OF _ _ _ _ _ sample_client_room])
    (simp_all add: new_client_def sample_env_def)
lemma find_buffer_touch_eq: "find_buffer name (map_touch int_lt [] i m) = find_buffer name m"
  unfolding find_buffer_def map_touch_def map_emplace_def map_has_def
  by (induction m) (auto split: if_splits)

text \<open>C25. An object of a single block is handed to every live delegate whose namespace contains the
  name, once each and in the order of the namespaces. They are handed one and the same buffer as an
  rvalue: the first one finds the object in it, and each further one what the one before it
  left behind.\<close>

theorem whole_object_delivery:
  assumes "PublishDatagram_ok d" and "h_offset_and_fin (pd_header d) = 1" and "namespaces_ok c"
  shows "client_handle env (enc_PublishDatagram d) c =
      (Inr (), c\<lparr>events := events c @ map (\<lambda>(del, x). OnSubscribedObject del (h_name (pd_header d)) 0 0 False x)
        (handed_on env (subscribers env c (h_name (pd_header d))) (pd_media_data d))\<rparr>) \<and>
    map fst (handed_on env (subscribers env c (h_name (pd_header d))) (pd_media_data d)) =
      subscribers env c (h_name (pd_header d)) \<and>
    (subscribers env c (h_name (pd_header d)) = d1 # d2 # ds \<longrightarrow>
      take 2 (handed_on env (subscribers env c (h_name (pd_header d))) (pd_media_data d)) =
        [(d1, pd_media_data d), (d2, leaves env d1 (pd_media_data d))])"
proof -
  have "map fst (handed_on env xs x) = xs" for xs x by (induction xs arbitrary: x) simp_all
  then show ?thesis using handle_whole_object [OF assms] by simp
qed

theorem whole_object_delivery_witness:
  "let d = object_datagram 2 sample_name 1 [8, 9] in
    client_handle sample_env (enc_PublishDatagram d) sample_client =
      (Inr (), sample_client\<lparr>events := events sample_client @
        map (\<lambda>(del, x). OnSubscribedObject del (h_name (pd_header d)) 0 0 False x)
          (handed_on sample_env (subscribers sample_env sample_client (h_name (pd_header d))) (pd_media_data d))\<rparr>)"
proof -
  have "PublishDatagram_ok (object_datagram 2 sample_name 1 [8, 9])" by (rule object_datagram_ok) simp_all
  then show ?thesis
    unfolding Let_def
    using whole_object_delivery [OF _ _ sample_client_room(2), of "object_datagram 2 sample_name 1 [8, 9]" sample_env]
    by (simp add: object_datagram_def)
qed

text \<open>C26. A block that completes an object whose other blocks are in another buffer than the current
  one runs into undefined behaviour: the object is delivered, and then an iterator of that other
  buffer is erased from the current one.\<close>

theorem completion_elsewhere_undefined:
  assumes "frag_inv c" and "namespaces_ok c"
    and "map_find Name_lt (h_name (pd_header d)) (map_get int_lt [] (cindex_key c) (fragments c)) = None"
    and "find_buffer (h_name (pd_header d)) (fragments c) = Some (i, buf)"
    and "map_find Name_lt (h_name (pd_header d)) buf = Some fm"
    and "fm' = map_emplace int_lt (to_int32 (uint (h_offset_and_fin (pd_header d)))) (pd_media_data d) fm"
    and "fst (last fm') AND 1 = 1" and "reassemble 0 [] fm' = Some x"
  shows "fst (handle_pub_fragment env d c) = Inl undefined_behaviour"
proof -
  let ?k = "cindex_key c"
  let ?t = "c\<lparr>fragments := map_touch int_lt [] ?k (fragments c)\<rparr>"
  let ?cur = "get_buffer ?k (fragments ?t)"
  let ?store = "store_fragment env (h_name (pd_header d))
     (to_int32 (uint (h_offset_and_fin (pd_header d)))) (pd_media_data d) ?k ?cur"
  have inv0: "frag_inv0 c" using assms(1) by (simp add: frag_inv_def)
  have "(i, buf) \<in> set (fragments c)" using find_buffer_Some [OF assms(4)] by blast
  then have "buffer_ok (unat (MAX_FRAGMENT_NAMES_PENDING_PER_BUFFER c)) buf"
    using frag_inv0_ok [OF inv0] by (auto simp: frag_ok_def)
  from buffer_ok_find [OF this assms(5)] have ne: "fm \<noteq> []" by blast
  have "?cur = get_buffer ?k (fragments c)" by (simp add: int_order.get_touch [OF frag_inv0_wf [OF inv0]])
  then have none: "map_find Name_lt (h_name (pd_header d)) ?cur = None" using assms(3) by simp
  have "find_buffer (h_name (pd_header d)) (fragments ?t) = Some (i, buf)"
    using assms(4) by (simp add: find_buffer_touch_eq)
  then have "fst (?store ?t) = Inl undefined_behaviour"
    using assms(2) by (intro store_elsewhere [OF none _ assms(5) _ assms(7,8) [unfolded assms(6)] ne])
      (simp_all add: namespaces_ok_def)
  then show ?thesis
    by (cases "?store ?t") (simp add: handle_pub_fragment_def touch_buffer_def op_simps op_then_Inl)
qed

definition split_client :: Client where
  "split_client = (new_client 1 2)\<lparr>fragments := [(1, [(Name 0 9, [(0, [1, 2])])]), (2, [])], cindex := 2\<rparr>"

theorem completion_elsewhere_undefined_witness:
  "fst (handle_pub_fragment sample_env (object_datagram 2 (Name 0 9) 5 [3]) split_client)
     = Inl undefined_behaviour"
proof (rule completion_elsewhere_undefined [OF _ _ _ _ _ refl])
  let ?d = "object_datagram 2 (Name 0 9) 5 [3]"
  have k: "cindex_key split_client = 2"
    by (simp add: cindex_key_def split_client_def to_int32_def)
  have kf: "to_int32 (uint (h_offset_and_fin (pd_header ?d))) = 5"
    by (simp add: object_datagram_def to_int32_def)
  show "frag_inv split_client"
    unfolding frag_inv_def k
    by (simp add: frag_inv0_def split_client_def new_client_def frag_ok_def buffer_ok_def map_wf_def map_has_def map_get_def)
  show "namespaces_ok split_client" by (simp add: split_client_def new_client_def namespaces_ok_def)
  show "map_find Name_lt (h_name (pd_header ?d)) (map_get int_lt [] (cindex_key split_client) (fragments split_client)) = None"
    unfolding k by (simp add: split_client_def map_get_def)
  show "find_buffer (h_name (pd_header ?d)) (fragments split_client) = Some (1, [(Name 0 9, [(0, [1, 2])])])"
    by (simp add: find_buffer_def split_client_def object_datagram_def map_has_def Name_lt_def)
  show "map_find Name_lt (h_name (pd_header ?d)) [(Name 0 9, [(0, [1, 2])])] = Some [(0, [1, 2])]"
    by (simp add: object_datagram_def Name_lt_def)
  show "fst (last (map_emplace int_lt (to_int32 (uint (h_offset_and_fin (pd_header ?d)))) (pd_media_data ?d) [(0, [1, 2])])) AND 1 = 1"
    unfolding kf by (simp add: object_datagram_def map_emplace_def map_has_def)
  show "reassemble 0 [] (map_emplace int_lt (to_int32 (uint (h_offset_and_fin (pd_header ?d)))) (pd_media_data ?d) [(0, [1, 2])]) = Some [1, 2, 3]"
    unfolding kf by (simp add: object_datagram_def map_emplace_def map_has_def to_int32_def)
qed

end
