(* ===== verification/Client_Sessions.thy ===== *)
theory Client_Sessions
  imports Client_Objects
begin

text \<open>
  The client's sessions: what a subscription and its end leave behind, what the delegates are told
  when the transport goes away, how the control messages of a relay are answered, how far one
  notification of the transport drains its queue, and when the constructor that waits for the
  transport to come up returns. The operations are those of \<^verbatim>\<open>Quicr_Client\<close>
  (\<^verbatim>\<open>src/src/quicr_client.cpp\<close>).
\<close>

unbundle bit_operations_syntax

section \<open>Subscribing and unsubscribing\<close>

lemma subscribe_run:
  assumes "client_inv N B c" and "ns_wf ns" and "SubscribeIntent_cast (SubscribeIntent_code intent) = intent"
  shows "subscribe env tid d ns intent c =
      (Inr (), c\<lparr>sub_delegates := map_emplace Namespace_lt ns d (sub_delegates c),
        subscribe_state := map_emplace Namespace_lt ns
          \<lparr>sc_state = State_Pending, sc_transport_context_id = transport_context_id c,
           sc_transport_stream_id = transport_stream_id c, sc_transaction_id = tid\<rparr> (subscribe_state c),
        events := events c @ [Enqueue (transport_context_id c) (transport_stream_id c)
          (enc_Subscribe \<lparr>s_version = 1, s_transaction_id = tid, s_namespace = ns, s_intent = intent\<rparr>)]\<rparr>)"
proof -
  let ?s = "\<lparr>s_version = 1, s_transaction_id = tid, s_namespace = ns, s_intent = intent\<rparr>"
  let ?sc = "\<lparr>sc_state = State_Pending, sc_transport_context_id = transport_context_id c,
     sc_transport_stream_id = transport_stream_id c, sc_transaction_id = tid\<rparr>"
  have put: "put_Subscribe [] ?s = Inr (enc_Subscribe ?s)"
    using subscribe.put_enc [of 1 ?s "[]"] assms(2,3) by (simp add: Subscribe_ok_def intent.named_def)
  have pending: "sc_state sc \<noteq> State_Ready" if h: "map_find Namespace_lt ns (subscribe_state c) = Some sc" for sc
  proof -
    obtain a where "(a, sc) \<in> set (subscribe_state c)" using map_find_in_set [OF h] by blast
    then have "sc \<in> snd ` set (subscribe_state c)" by force
    with client_inv_pending(2) [OF assms(1)] have "sc_state sc = State_Pending"
      unfolding all_pending_def by blast
    then show ?thesis by simp
  qed
  define c1 where "c1 = c\<lparr>sub_delegates := map_emplace Namespace_lt ns d (sub_delegates c)\<rparr>"
  have first: "op_then (op_when (\<not> map_has Namespace_lt ns (sub_delegates c))
      (op_modify (\<lambda>c. c\<lparr>sub_delegates := map_set Namespace_lt ns d (sub_delegates c)\<rparr>))) m c = m c1" for m :: "unit client_op"
    by (cases "map_has Namespace_lt ns (sub_delegates c)") (simp_all add: op_simps c1_def map_emplace_def)
  show ?thesis
    unfolding subscribe_def op_bind_simps first put Let_def
    by (cases "map_find Namespace_lt ns (subscribe_state c)")
      (use pending in \<open>simp_all add: op_simps c1_def map_emplace_def map_has_def\<close>)
qed

lemma unsubscribe_run:
  assumes "ns_wf ns"
  shows "unsubscribe env ns c =
      (Inr (), c\<lparr>subscribe_state := map_erase Namespace_lt ns (subscribe_state c),
        events := events c @ [Enqueue (transport_context_id c) (transport_stream_id c)
          (enc_Unsubscribe \<lparr>u_version = 1, u_namespace = ns\<rparr>)]\<rparr>)"
proof -
  have "put_Unsubscribe [] \<lparr>u_version = 1, u_namespace = ns\<rparr> = Inr (enc_Unsubscribe \<lparr>u_version = 1, u_namespace = ns\<rparr>)"
    using unsubscribe.put_enc [of 1 "\<lparr>u_version = 1, u_namespace = ns\<rparr>" "[]"] assms by (simp add: Unsubscribe_ok_def)
  then show ?thesis
    by (cases "map_has Namespace_lt ns (subscribe_state c)")
      (simp_all add: unsubscribe_def op_simps map_erase_absent)
qed

text \<open>Subscribing sends a subscribe message every time it is called, also for a namespace that is
  subscribed already, keeps the delegate and the context of the first call, and leaves the
  subscription in the state \<^verbatim>\<open>Pending\<close>; unsubscribing sends its message and drops the context but
  keeps the delegate.\<close>

lemma subscribe_unsubscribe:
  assumes "client_inv N B c" and "ns_wf ns" and "SubscribeIntent_cast (SubscribeIntent_code intent) = intent"
  shows "subscribe env tid d ns intent c =
      (Inr (), c\<lparr>sub_delegates := map_emplace Namespace_lt ns d (sub_delegates c),
        subscribe_state := map_emplace Namespace_lt ns
          \<lparr>sc_state = State_Pending, sc_transport_context_id = transport_context_id c,
           sc_transport_stream_id = transport_stream_id c, sc_transaction_id = tid\<rparr> (subscribe_state c),
        events := events c @ [Enqueue (transport_context_id c) (transport_stream_id c)
          (enc_Subscribe \<lparr>s_version = 1, s_transaction_id = tid, s_namespace = ns, s_intent = intent\<rparr>)]\<rparr>) \<and>
    unsubscribe env ns c =
      (Inr (), c\<lparr>subscribe_state := map_erase Namespace_lt ns (subscribe_state c),
        events := events c @ [Enqueue (transport_context_id c) (transport_stream_id c)
          (enc_Unsubscribe \<lparr>u_version = 1, u_namespace = ns\<rparr>)]\<rparr>)"
  using subscribe_run [OF assms] unsubscribe_run [OF assms(2)] by simp

lemma subscribe_unsubscribe_witness:
  "events (snd (subscribe sample_env 5 3 sample_ns sync_up (new_client 1 2))) =
     [Enqueue 1 2 (enc_Subscribe \<lparr>s_version = 1, s_transaction_id = 5, s_namespace = sample_ns, s_intent = sync_up\<rparr>)] \<and>
   sub_delegates (snd (subscribe sample_env 5 3 sample_ns sync_up (new_client 1 2))) = [(sample_ns, 3)] \<and>
   events (snd (unsubscribe sample_env sample_ns (new_client 1 2))) =
     [Enqueue 1 2 (enc_Unsubscribe \<lparr>u_version = 1, u_namespace = sample_ns\<rparr>)]"
proof -
  have i: "SubscribeIntent_cast (SubscribeIntent_code sync_up) = sync_up" by (simp add: SubscribeIntent_cast_def)
  show ?thesis
    using subscribe_unsubscribe [OF new_client_inv sample_ns_wf i, where ctx1 = 1 and stream1 = 2 and env = sample_env and tid = 5 and d = 3]
    by (simp add: new_client_def map_emplace_def)
qed

section \<open>The end of subscriptions\<close>

definition end_events :: "client_env \<Rightarrow> (Namespace \<times> delegate) list \<Rightarrow> SubscribeStatus \<Rightarrow> Namespace \<Rightarrow> client_event list" where
  "end_events env ds reason ns =
     (case map_find Namespace_lt ns ds of
        None \<Rightarrow> []
      | Some d \<Rightarrow> if alive env d then [OnSubscriptionEnded d ns reason] else [])"

definition ended :: "client_env \<Rightarrow> SubscribeStatus \<Rightarrow> Namespace \<Rightarrow> Client \<Rightarrow> Client" where
  "ended env reason ns c =
     c\<lparr>subscribe_state := map_erase Namespace_lt ns (subscribe_state c),
       sub_delegates := map_erase Namespace_lt ns (sub_delegates c),
       events := events c @ end_events env (sub_delegates c) reason ns\<rparr>"

lemma removeSubscribeState_one_run:
  "removeSubscribeState_one env ns reason c = (Inr (), ended env reason ns c)"
proof -
  define c1 where "c1 = c\<lparr>subscribe_state := map_erase Namespace_lt ns (subscribe_state c)\<rparr>"
  have first: "op_then (op_when (map_has Namespace_lt ns (subscribe_state c))
      (op_modify (\<lambda>c. c\<lparr>subscribe_state := map_erase Namespace_lt ns (subscribe_state c)\<rparr>))) m c = m c1" for m :: "unit client_op"
    by (cases "map_has Namespace_lt ns (subscribe_state c)") (simp_all add: op_simps c1_def map_erase_absent)
  show ?thesis
  proof (cases "map_find Namespace_lt ns (sub_delegates c)")
    case None
    then have "map_erase Namespace_lt ns (sub_delegates c) = sub_delegates c"
      by (simp add: map_erase_absent map_has_def)
    with None show ?thesis
      unfolding removeSubscribeState_one_def op_bind_simps id_apply first
      by (simp add: op_simps c1_def ended_def end_events_def)
  next
    case (Some d)
    then show ?thesis
      unfolding removeSubscribeState_one_def op_bind_simps id_apply first
      by (cases "alive env d") (simp_all add: op_simps c1_def ended_def end_events_def)
  qed
qed

lemma fold_ended:
  assumes "map_wf Namespace_lt (sub_delegates c)" and "map_wf Namespace_lt (subscribe_state c)"
    and "sorted_wrt Namespace_lt nss"
  shows "subscribe_state (fold (ended env reason) nss c) = fold (map_erase Namespace_lt) nss (subscribe_state c) \<and>
    sub_delegates (fold (ended env reason) nss c) = fold (map_erase Namespace_lt) nss (sub_delegates c) \<and>
    events (fold (ended env reason) nss c) = events c @ concat (map (end_events env (sub_delegates c) reason) nss)"
  using assms
proof (induction nss arbitrary: c)
  case Nil
  show ?case by simp
next
  case (Cons ns nss)
  let ?c = "ended env reason ns c"
  have wf: "map_wf Namespace_lt (sub_delegates ?c)" "map_wf Namespace_lt (subscribe_state ?c)"
    using Cons.prems by (simp_all add: ended_def ns_order.wf_erase)
  have "end_events env (sub_delegates ?c) reason n = end_events env (sub_delegates c) reason n" if "n \<in> set nss" for n
  proof -
    have "Namespace_lt ns n" using Cons.prems(3) that by simp
    then have "\<not> eqv Namespace_lt n ns" by (simp add: eqv_def)
    then show ?thesis
      using Cons.prems(1) by (simp add: ended_def end_events_def ns_order.find_erase)
  qed
  then have same: "map (end_events env (sub_delegates ?c) reason) nss = map (end_events env (sub_delegates c) reason) nss"
    by simp
  show ?case
    using Cons.IH [OF wf] Cons.prems(3) unfolding same by (simp add: ended_def)
qed

lemma fold_erase:
  assumes "map_wf Namespace_lt m"
  shows "map_wf Namespace_lt (fold (map_erase Namespace_lt) nss m)"
    and "map_find Namespace_lt k (fold (map_erase Namespace_lt) nss m) =
      (if list_ex (eqv Namespace_lt k) nss then None else map_find Namespace_lt k m)"
  using assms by (induction nss arbitrary: m) (auto simp: ns_order.wf_erase ns_order.find_erase)

lemma map_find_none_Nil: "map_wf Namespace_lt m \<Longrightarrow> (\<And>k. map_find Namespace_lt k m = None) \<Longrightarrow> m = []"
proof (cases m)
  case (Cons e n)
  assume "map_wf Namespace_lt m" "\<And>k. map_find Namespace_lt k m = None"
  then have "map_find Namespace_lt (fst e) m = None" by blast
  with Cons show ?thesis by (cases e) (simp add: ns_order.irrefl)
qed simp

lemma eqv_commute: "eqv lt x y = eqv lt y x"
  unfolding eqv_def by blast

lemma list_ex_keys:
  assumes "map_wf Namespace_lt m"
  shows "list_ex (eqv Namespace_lt k) (map fst m) \<longleftrightarrow> map_has Namespace_lt k m"
proof -
  have "map_has Namespace_lt k m \<longleftrightarrow> \<not> (\<forall>p \<in> set m. \<not> eqv Namespace_lt (fst p) k)"
    unfolding map_has_def ns_order.find_None_iff [OF assms] case_prod_unfold ..
  then show ?thesis unfolding list_ex_iff set_map eqv_commute [of _ k] by blast
qed

text \<open>C27. When the connection is lost, every namespace with a subscription context is ended: its
  delegate, if it is still alive, is told so exactly once, in the order of the namespaces, and
  forgotten. Delegates without a context, such as those of a namespace that was unsubscribed, are
  neither told nor forgotten.\<close>

theorem disconnect_ends_subscriptions:
  assumes "client_inv N B c"
  shows "\<exists>c'. client_on_connection_status env TS_Disconnected c = (Inr (), c') \<and>
    subscribe_state c' = [] \<and>
    events c' = events c @ concat (map (\<lambda>(ns, sc). case map_find Namespace_lt ns (sub_delegates c) of
        None \<Rightarrow> []
      | Some d \<Rightarrow> if alive env d then [OnSubscriptionEnded d ns Status_ConnectionClosed] else [])
      (subscribe_state c)) \<and>
    (\<forall>ns. map_find Namespace_lt ns (sub_delegates c') =
       (if map_has Namespace_lt ns (subscribe_state c) then None else map_find Namespace_lt ns (sub_delegates c)))"
proof -
  let ?nss = "map fst (subscribe_state c)"
  let ?c' = "fold (ended env Status_ConnectionClosed) ?nss c"
  note wf = client_inv_delegates_wf(1) [OF assms] client_inv_pending(1) [OF assms]
  have s: "sorted_wrt Namespace_lt ?nss" using wf(2) by (simp add: map_wf_def sorted_wrt_map)
  note f = fold_ended [OF wf s, of env Status_ConnectionClosed]
  have run: "client_on_connection_status env TS_Disconnected c = (Inr (), ?c')"
    unfolding client_on_connection_status_def removeSubscribeState_def
    by (simp add: op_bind_simps op_for_fold [where g = "ended env Status_ConnectionClosed"] removeSubscribeState_one_run)
  have "map_find Namespace_lt k (fold (map_erase Namespace_lt) ?nss (subscribe_state c)) = None" for k
    using fold_erase(2) [OF wf(2), of k ?nss] list_ex_keys [OF wf(2), of k] by (simp add: map_has_def)
  then have "subscribe_state ?c' = []"
    using f map_find_none_Nil [OF fold_erase(1) [OF wf(2)]] by simp
  moreover have "\<forall>ns. map_find Namespace_lt ns (sub_delegates ?c') =
       (if map_has Namespace_lt ns (subscribe_state c) then None else map_find Namespace_lt ns (sub_delegates c))"
    using f fold_erase(2) [OF wf(1), of _ ?nss] list_ex_keys [OF wf(2)] by simp
  moreover have "events ?c' = events c @ concat (map (\<lambda>(ns, sc). case map_find Namespace_lt ns (sub_delegates c) of
        None \<Rightarrow> [] | Some d \<Rightarrow> if alive env d then [OnSubscriptionEnded d ns Status_ConnectionClosed] else [])
      (subscribe_state c))"
    using f by (simp add: end_events_def comp_def case_prod_unfold)
  ultimately show ?thesis using run by blast
qed

definition subscribed_client :: Client where
  "subscribed_client = (new_client 1 2)\<lparr>sub_delegates := [(sample_ns, 3)], subscribe_state := [(sample_ns,
     \<lparr>sc_state = State_Pending, sc_transport_context_id = 1, sc_transport_stream_id = 2, sc_transaction_id = 5\<rparr>)]\<rparr>"

lemma subscribed_client_inv: "client_inv 5000 20 subscribed_client"
  unfolding subscribed_client_def
  by (intro client_inv_subscribe_state client_inv_delegates new_client_inv)
    (simp_all add: map_wf_def all_pending_def)

theorem disconnect_ends_subscriptions_witness:
  "\<exists>c'. client_on_connection_status sample_env TS_Disconnected subscribed_client = (Inr (), c') \<and>
     subscribe_state c' = [] \<and> events c' = [OnSubscriptionEnded 3 sample_ns Status_ConnectionClosed]"
  using disconnect_ends_subscriptions [OF subscribed_client_inv, of sample_env]
  by (auto simp: subscribed_client_def new_client_def sample_env_def ns_order.irrefl)

section \<open>Messages of the relay\<close>

lemma client_handle_SubscribeResponse:
  assumes "SubscribeResponse_ok r"
  shows "client_handle env (enc_SubscribeResponse r) c = handle_SubscribeResponse env r c"
proof -
  obtain rest where m: "enc_SubscribeResponse r = 2 # rest"
    by (simp add: enc_SubscribeResponse_def enc_type_def enc_u8_def)
  have "get_SubscribeResponse (2 # rest) = Inr (r, [])"
    using subscribe_response.get_enc [OF assms, of "[]"] by (simp add: m)
  then show ?thesis
    by (simp add: client_handle_def m mb_empty_def front_def op_simps MessageType_cast_def)
qed

lemma client_handle_SubscribeEnd:
  assumes "SubscribeEnd_ok e"
  shows "client_handle env (enc_SubscribeEnd e) c =
    removeSubscribeState env False (se_namespace e) (se_reason e) c"
proof -
  obtain rest where m: "enc_SubscribeEnd e = 3 # rest"
    by (simp add: enc_SubscribeEnd_def enc_type_def enc_u8_def)
  have "get_SubscribeEnd (3 # rest) = Inr (e, [])"
    using subscribe_end.get_enc [OF assms, of "[]"] by (simp add: m)
  then show ?thesis
    by (simp add: client_handle_def m mb_empty_def front_def op_simps MessageType_cast_def)
qed

lemma client_handle_PublishIntentResponse:
  assumes "PublishIntentResponse_ok r" and "pir_message_type r = MT_PublishIntentResponse"
  shows "client_handle env (enc_PublishIntentResponse r) c = handle_PublishIntentResponse env r c"
proof -
  obtain rest where m: "enc_PublishIntentResponse r = 7 # rest"
    using assms(2) by (simp add: enc_PublishIntentResponse_def enc_type_def enc_u8_def)
  have "get_PublishIntentResponse (7 # rest) = Inr (r, [])"
    using publish_intent_response.get_enc [OF assms(1), of "[]"] by (simp add: m)
  then show ?thesis
    by (simp add: client_handle_def m mb_empty_def front_def op_simps MessageType_cast_def)
qed

lemma client_handle_ignored:
  assumes "t \<notin> {2, 3, 5, 7}"
  shows "client_handle env (t # rest) c = (Inr (), c)"
  using assms by (simp add: client_handle_def mb_empty_def front_def op_simps MessageType_cast_def)

definition told :: "client_env \<Rightarrow> (Namespace \<times> delegate) list \<Rightarrow> Namespace \<Rightarrow> (delegate \<Rightarrow> client_event) \<Rightarrow> client_event list" where
  "told env ds ns ev =
     (case map_find Namespace_lt ns ds of None \<Rightarrow> [] | Some d \<Rightarrow> if alive env d then [ev d] else [])"

lemma told_SubscribeResponse:
  assumes "SubscribeResponse_ok r"
  shows "client_handle env (enc_SubscribeResponse r) c =
      (Inr (), c\<lparr>events := events c @ told env (sub_delegates c) (sr_namespace r)
         (\<lambda>d. OnSubscribeResponse d (sr_namespace r) (SubscribeResult_of (sr_response r)))\<rparr>)"
  unfolding client_handle_SubscribeResponse [OF assms] handle_SubscribeResponse_def told_def
  by (cases "map_find Namespace_lt (sr_namespace r) (sub_delegates c)") (simp_all add: op_simps)

lemma told_SubscribeEnd:
  assumes "SubscribeEnd_ok e"
  shows "client_handle env (enc_SubscribeEnd e) c =
      (Inr (), c\<lparr>subscribe_state := map_erase Namespace_lt (se_namespace e) (subscribe_state c),
         sub_delegates := map_erase Namespace_lt (se_namespace e) (sub_delegates c),
         events := events c @ told env (sub_delegates c) (se_namespace e)
           (\<lambda>d. OnSubscriptionEnded d (se_namespace e) (se_reason e))\<rparr>)"
  unfolding client_handle_SubscribeEnd [OF assms] removeSubscribeState_def
  by (simp add: removeSubscribeState_one_run ended_def end_events_def told_def)

lemma told_PublishIntentResponse:
  assumes "PublishIntentResponse_ok p" and "pir_message_type p = MT_PublishIntentResponse"
  shows "client_handle env (enc_PublishIntentResponse p) c =
      (Inr (), c\<lparr>events := events c @ told env (pub_delegates c) (pir_namespace p)
         (\<lambda>d. OnPublishIntentResponse d (pir_namespace p) (PublishIntentResult_of (pir_response p)))\<rparr>)"
  unfolding client_handle_PublishIntentResponse [OF assms] handle_PublishIntentResponse_def told_def
  by (cases "map_find Namespace_lt (pir_namespace p) (pub_delegates c)") (simp_all add: op_simps)

text \<open>C28. What the control messages of the relay do to the client. A response is passed to the
  delegate registered for its namespace, if there is one and it is alive, and changes nothing
  else: a positive subscribe response does not make the subscription \<^verbatim>\<open>Ready\<close>. The end of a
  subscription removes its context and its delegate after telling it. Messages of other types, and
  an empty message, are ignored.\<close>

theorem client_control_messages:
  "(SubscribeResponse_ok r \<longrightarrow> client_handle env (enc_SubscribeResponse r) c =
      (Inr (), c\<lparr>events := events c @ told env (sub_delegates c) (sr_namespace r)
         (\<lambda>d. OnSubscribeResponse d (sr_namespace r) (SubscribeResult_of (sr_response r)))\<rparr>)) \<and>
   (SubscribeEnd_ok e \<longrightarrow> client_handle env (enc_SubscribeEnd e) c =
      (Inr (), c\<lparr>subscribe_state := map_erase Namespace_lt (se_namespace e) (subscribe_state c),
         sub_delegates := map_erase Namespace_lt (se_namespace e) (sub_delegates c),
         events := events c @ told env (sub_delegates c) (se_namespace e)
           (\<lambda>d. OnSubscriptionEnded d (se_namespace e) (se_reason e))\<rparr>)) \<and>
   (PublishIntentResponse_ok p \<and> pir_message_type p = MT_PublishIntentResponse \<longrightarrow>
      client_handle env (enc_PublishIntentResponse p) c =
      (Inr (), c\<lparr>events := events c @ told env (pub_delegates c) (pir_namespace p)
         (\<lambda>d. OnPublishIntentResponse d (pir_namespace p) (PublishIntentResult_of (pir_response p)))\<rparr>)) \<and>
   (t \<notin> {2, 3, 5, 7} \<longrightarrow> client_handle env (t # rest) c = (Inr (), c)) \<and>
   client_handle env [] c = (Inr (), c)"
  using told_SubscribeResponse [of r env c] told_SubscribeEnd [of e env c] told_PublishIntentResponse [of p env c]
    client_handle_ignored [of t env rest c]
  by (simp add: client_handle_def [of _ "[]"] mb_empty_def op_simps)

theorem client_control_messages_witness:
  "events (snd (client_handle sample_env (enc_SubscribeEnd \<lparr>se_namespace = sample_ns, se_reason = Status_Ok\<rparr>)
     subscribed_client)) = [OnSubscriptionEnded 3 sample_ns Status_Ok] \<and>
   client_handle sample_env [8, 1] subscribed_client = (Inr (), subscribed_client)"
proof -
  have ok: "SubscribeEnd_ok \<lparr>se_namespace = sample_ns, se_reason = Status_Ok\<rparr>"
    by (simp add: SubscribeEnd_ok_def sample_ns_wf status.named_def SubscribeStatus_cast_def)
  show ?thesis
    using client_control_messages [where env = sample_env and c = subscribed_client and t = 8 and rest = "[1]"
        and e = "\<lparr>se_namespace = sample_ns, se_reason = Status_Ok\<rparr>"] ok
    by (simp add: told_def subscribed_client_def new_client_def sample_env_def ns_order.irrefl)
qed

section \<open>Notifications of the transport\<close>

lemma recv_loop_prefix:
  assumes "op_for ms handle s = (Inr (), t)" and "\<forall>j < length ms. dequeue (i + j) = Some (ms ! j)"
    and "length ms \<le> n"
  shows "recv_loop n dequeue i handle s = recv_loop (n - length ms) dequeue (i + length ms) handle t"
  using assms
proof (induction ms arbitrary: s i n)
  case Nil
  then show ?case by (simp add: op_simps)
next
  case (Cons m ms)
  obtain r u where h: "handle m s = (r, u)" by (cases "handle m s")
  with Cons.prems(1) have r: "r = Inr ()" and rest: "op_for ms handle u = (Inr (), t)"
    by (cases r; simp add: op_then_def op_bind_def)+
  have d: "dequeue i = Some m" using Cons.prems(2) by (metis add_0_right length_Cons nth_Cons_0 zero_less_Suc)
  have ds: "\<forall>j < length ms. dequeue (Suc i + j) = Some (ms ! j)"
    using Cons.prems(2) by (metis Suc_less_eq add_Suc_shift length_Cons nth_Cons_Suc)
  obtain k where n: "n = Suc k" and k: "length ms \<le> k" using Cons.prems(3) by (cases n) auto
  show ?case
    using recv_loop_step [of dequeue i m handle s u k] d h r Cons.IH [OF rest ds k] by (simp add: n)
qed

text \<open>C29. A notification handles the queued messages in order, at most 150 of them. The first message
  that is malformed is dropped and ends the notification, whatever is queued behind it; nothing but
  undefined behaviour escapes to the transport.\<close>

theorem client_recv_notify:
  assumes "op_for ms (client_handle env) c = (Inr (), c')"
    and "\<forall>j < length ms. dequeue j = Some (ms ! j)" and "length ms \<le> 150"
  shows "(length ms = 150 \<or> dequeue (length ms) = None \<longrightarrow> client_on_recv_notify env dequeue c = (Inr (), c')) \<and>
    (length ms < 150 \<and> dequeue (length ms) = Some bad \<and> client_handle env bad c' = (Inl e, c'') \<longrightarrow>
       client_on_recv_notify env dequeue c =
         (if e = undefined_behaviour then (Inl undefined_behaviour, c'') else (Inr (), c'')))"
proof -
  have run: "client_on_recv_notify env dequeue c =
      recv_loop (150 - length ms) dequeue (length ms) (client_handle env) c'"
    using recv_loop_prefix [OF assms(1), of dequeue 0 150] assms(2,3)
    by (simp add: client_on_recv_notify_def RECV_LIMIT_def)
  show ?thesis
  proof (intro conjI impI)
    assume "length ms = 150 \<or> dequeue (length ms) = None"
    then show "client_on_recv_notify env dequeue c = (Inr (), c')"
      unfolding run by (cases "150 - length ms") (auto simp: op_simps)
  next
    assume a: "length ms < 150 \<and> dequeue (length ms) = Some bad \<and> client_handle env bad c' = (Inl e, c'')"
    then obtain k where "150 - length ms = Suc k" by (cases "150 - length ms") auto
    with a show "client_on_recv_notify env dequeue c =
         (if e = undefined_behaviour then (Inl undefined_behaviour, c'') else (Inr (), c''))"
      unfolding run by (auto simp: op_bind_def op_catch_def op_run is_std_exception_def)
  qed
qed

theorem client_recv_notify_witness:
  "client_on_recv_notify sample_env (\<lambda>i. if i = 0 then Some [8, 1] else Some [5]) (new_client 1 2)
     = (Inr (), new_client 1 2)"
proof -
  have a: "op_for [[8, 1]] (client_handle sample_env) (new_client 1 2) = (Inr (), new_client 1 2)"
    by (simp add: op_simps client_handle_ignored)
  have b: "client_handle sample_env [5] (new_client 1 2) = (Inl ReadException, new_client 1 2)"
    by (simp add: client_handle_def mb_empty_def front_def op_simps MessageType_cast_def
        get_PublishDatagram_def dbind_u8_Cons get_Header_def dbind_def get_Name_outcome)
  show ?thesis
    using client_recv_notify [OF a, of "\<lambda>i. if i = 0 then Some [8, 1] else Some [5]" "[5]" ReadException "new_client 1 2"] b
    by simp
qed

section \<open>Connecting\<close>

lemma poll_status_eq:
  assumes "\<forall>j < n. status (i + 2 * j) = TS_Connecting" and "status (i + 2 * n) \<noteq> TS_Connecting"
  shows "poll_status status i = Some (i + 2 * n + 1)"
  using assms
proof (induction n arbitrary: i)
  case 0
  then show ?case by (subst poll_status.simps) simp
next
  case (Suc n)
  have "status i = TS_Connecting" using Suc.prems(1) by (metis add_0_right mult_0_right zero_less_Suc)
  moreover have "poll_status status (i + 2) = Some (i + 2 + 2 * n + 1)"
  proof (rule Suc.IH)
    show "\<forall>j < n. status (i + 2 + 2 * j) = TS_Connecting"
      using Suc.prems(1) by (metis Suc_less_eq add.assoc mult_Suc_right)
    show "status (i + 2 + 2 * n) \<noteq> TS_Connecting" using Suc.prems(2) by (simp add: add.assoc)
  qed
  ultimately show ?case by (subst poll_status.simps) simp
qed

lemma poll_status_Some:
  assumes "poll_status status i = Some k"
  shows "\<exists>n. k = i + 2 * n + 1 \<and> status (i + 2 * n) \<noteq> TS_Connecting"
  using assms
proof (rule poll_status.raw_induct [of "\<lambda>status i k. \<exists>n. k = i + 2 * n + 1 \<and> status (i + 2 * n) \<noteq> TS_Connecting", rotated])
  fix poll :: "(nat \<Rightarrow> TransportStatus) \<Rightarrow> nat \<Rightarrow> nat option" and status :: "nat \<Rightarrow> TransportStatus" and i k
  assume IH: "\<And>status i k. poll status i = Some k \<Longrightarrow> \<exists>n. k = i + 2 * n + 1 \<and> status (i + 2 * n) \<noteq> TS_Connecting"
    and step: "(if status i = TS_Connecting then poll status (i + 2) else Some (i + 1)) = Some k"
  show "\<exists>n. k = i + 2 * n + 1 \<and> status (i + 2 * n) \<noteq> TS_Connecting"
  proof (cases "status i = TS_Connecting")
    case True
    then obtain n where "k = i + 2 + 2 * n + 1" "status (i + 2 + 2 * n) \<noteq> TS_Connecting"
      using IH [of status "i + 2" k] step by auto
    then show ?thesis by (intro exI [of _ "Suc n"]) (simp add: add.assoc)
  next
    case False
    with step show ?thesis by (intro exI [of _ 0]) simp
  qed
qed

text \<open>C37. The constructor waits as long as the transport reports \<^verbatim>\<open>Connecting\<close>. It returns exactly when
  one of the polls of the loop condition reports something else, and then either yields a client
  bound to the transport's ids, when the next poll is \<^verbatim>\<open>Ready\<close>, or throws; while the transport
  stays undecided it never returns.\<close>

theorem make_transport_outcome:
  "(make_transport status ctx stream = None \<longleftrightarrow> (\<forall>j. status (2 * j) = TS_Connecting)) \<and>
   ((\<forall>j < n. status (2 * j) = TS_Connecting) \<and> status (2 * n) \<noteq> TS_Connecting \<longrightarrow>
      make_transport status ctx stream =
        Some (if status (2 * n + 1) = TS_Ready then Inr (new_client ctx stream) else Inl runtime_error))"
proof
  show "make_transport status ctx stream = None \<longleftrightarrow> (\<forall>j. status (2 * j) = TS_Connecting)"
  proof
    assume none: "make_transport status ctx stream = None"
    show "\<forall>j. status (2 * j) = TS_Connecting"
    proof (rule ccontr)
      assume "\<not> (\<forall>j. status (2 * j) = TS_Connecting)"
      then obtain n where "status (2 * n) \<noteq> TS_Connecting" "\<forall>j < n. status (2 * j) = TS_Connecting"
        using exists_least_iff [of "\<lambda>n. status (2 * n) \<noteq> TS_Connecting"] by auto
      then have "poll_status status 0 = Some (2 * n + 1)" using poll_status_eq [of n status 0] by simp
      with none show False by (simp add: make_transport_def)
    qed
  next
    assume all: "\<forall>j. status (2 * j) = TS_Connecting"
    then have "poll_status status 0 = None"
      using poll_status_Some [of status 0] by (cases "poll_status status 0") auto
    then show "make_transport status ctx stream = None" by (simp add: make_transport_def)
  qed
  show "(\<forall>j < n. status (2 * j) = TS_Connecting) \<and> status (2 * n) \<noteq> TS_Connecting \<longrightarrow>
      make_transport status ctx stream =
        Some (if status (2 * n + 1) = TS_Ready then Inr (new_client ctx stream) else Inl runtime_error)"
    using poll_status_eq [of n status 0] by (simp add: make_transport_def)
qed

theorem make_transport_outcome_witness:
  "make_transport (\<lambda>i. if i < 3 then TS_Connecting else TS_Ready) 4 6 = Some (Inr (new_client 4 6))"
  using make_transport_outcome [of "\<lambda>i. if i < 3 then TS_Connecting else TS_Ready" 4 6 2]
  by (auto simp: less_2_cases_iff)

end
