(* ===== verification/Quicr_Server.thy ===== *)
theory Quicr_Server
  imports Transport
begin

text \<open>
  \<^verbatim>\<open>quicr::QuicRServer\<close> and its transport delegate (\<^verbatim>\<open>include/quicr/quicr_server.h\<close>,
  \<^verbatim>\<open>src/quicr_server.cpp\<close>). The record \<open>Server\<close> has the members of the class, the messages handed
  to the transport so far, and the state \<open>'d\<close> of the application behind the
  \<^verbatim>\<open>ServerDelegate\<close> interface: a delegate is a record of operations on the whole, since its callbacks
  call back into the server. The contract of a delegate is the locale \<open>server_delegate\<close>:
  it uses the four public methods and its own state. What the server keeps
  invariant is proved there once, for every delegate.

  The arguments the server passes as constants (empty urls and tokens, \<^verbatim>\<open>false\<close> for reliability)
  are left out of the callbacks. The results of \<^verbatim>\<open>enqueue\<close> are never looked at. The mutex is
  held around whole handlers and is not modelled, nor is the log.
\<close>

section \<open>State\<close>

datatype ContextState = Context_Unknown | Context_Pending | Context_Ready

record Context =
  cx_state :: ContextState
  cx_transport_context_id :: TransportContextId
  cx_transport_stream_id :: StreamId

record ServerSubscribeContext = Context +
  ssc_transaction_id :: u64
  ssc_subscriber_id :: u64

record ServerPublishContext = Context +
  spc_group_id :: u64
  spc_object_id :: u64
  spc_offset :: u64

record PublishIntentContext = Context +
  pic_transaction_id :: u64

type_synonym subscriber_map = "(TransportContextId \<times> ServerSubscribeContext) list"

record 'd Server =
  sv_subscribe_state :: "(Namespace \<times> subscriber_map) list"
  sv_subscribe_id_state :: "(u64 \<times> ServerSubscribeContext) list"
  sv_publish_state :: "(Name \<times> ServerPublishContext) list"
  sv_publish_namespaces :: "(Namespace \<times> PublishIntentContext) list"
  sv_running :: bool
  sv_subscriber_id :: u64
  sv_sent :: "(TransportContextId \<times> StreamId \<times> bytes) list"
  sv_delegate :: 'd

record 'd ServerDelegate =
  onPublishIntent :: "Namespace \<Rightarrow> bytes \<Rightarrow> ('d Server, unit) op"
  onPublishIntentEnd :: "Namespace \<Rightarrow> bytes \<Rightarrow> ('d Server, unit) op"
  onPublisherObject :: "TransportContextId \<Rightarrow> StreamId \<Rightarrow> PublishDatagram \<Rightarrow> ('d Server, unit) op"
  onSubscribe :: "Namespace \<Rightarrow> u64 \<Rightarrow> TransportContextId \<Rightarrow> StreamId \<Rightarrow> SubscribeIntent \<Rightarrow> ('d Server, unit) op"
  onUnsubscribe :: "Namespace \<Rightarrow> u64 \<Rightarrow> ('d Server, unit) op"

text \<open>The interface's own implementations of the two callbacks that are not pure virtual.\<close>

definition default_onSubscribe ::
  "Namespace \<Rightarrow> u64 \<Rightarrow> TransportContextId \<Rightarrow> StreamId \<Rightarrow> SubscribeIntent \<Rightarrow> ('d Server, unit) op" where
  "default_onSubscribe ns subscriber_id context_id stream_id intent = op_return ()"

definition default_onUnsubscribe :: "Namespace \<Rightarrow> u64 \<Rightarrow> ('d Server, unit) op" where
  "default_onUnsubscribe ns subscriber_id = op_return ()"

abbreviation (input) u64_lt :: "u64 \<Rightarrow> u64 \<Rightarrow> bool" where
  "u64_lt \<equiv> (\<lambda>a b. a < b)"

interpretation u64_order: strict_total_order u64_lt
  by unfold_locales auto

definition QuicRServer :: "'d \<Rightarrow> 'd Server" where
  "QuicRServer del =
     \<lparr>sv_subscribe_state = [], sv_subscribe_id_state = [], sv_publish_state = [],
      sv_publish_namespaces = [], sv_running = False, sv_subscriber_id = 0, sv_sent = [],
      sv_delegate = del\<rparr>"

definition is_transport_ready :: "TransportStatus \<Rightarrow> bool" where
  "is_transport_ready status \<longleftrightarrow> (if status = TS_Ready then True else False)"

text \<open>\<open>status i\<close> is what the \<open>i\<close>-th call of \<^verbatim>\<open>transport->status()\<close> returns; the loop of \<open>run\<close> polls
  once a round.\<close>

partial_function (option) run_poll :: "(nat \<Rightarrow> TransportStatus) \<Rightarrow> nat \<Rightarrow> nat option" where
  "run_poll status i = (if status i = TS_Connecting then run_poll status (i + 1) else Some (i + 1))"

definition server_run :: "(nat \<Rightarrow> TransportStatus) \<Rightarrow> 'd Server \<Rightarrow> (bool \<times> 'd Server) option" where
  "server_run status s =
     (case run_poll status 0 of
        None \<Rightarrow> None
      | Some i \<Rightarrow> Some (if status i = TS_Ready then True else False, s\<lparr>sv_running := True\<rparr>))"

section \<open>The methods a delegate calls\<close>

definition server_enqueue :: "TransportContextId \<Rightarrow> StreamId \<Rightarrow> bytes \<Rightarrow> ('d Server, unit) op" where
  "server_enqueue ctx stream msg =
     op_modify (\<lambda>s. s\<lparr>sv_sent := sv_sent s @ [(ctx, stream, msg)]\<rparr>)"

definition publishIntentResponse :: "Namespace \<Rightarrow> PublishIntentResult \<Rightarrow> ('d Server, unit) op" where
  "publishIntentResponse ns result =
     op_bind (op_get sv_publish_namespaces) (\<lambda>ps.
     case map_find Namespace_lt ns ps of
       None \<Rightarrow> op_return ()
     | Some ctx \<Rightarrow>
         op_bind (op_lift (put_PublishIntentResponse []
           \<lparr>pir_message_type = MT_PublishIntentResponse, pir_namespace = ns,
            pir_response = pres_status result, pir_transaction_id = pic_transaction_id ctx\<rparr>)) (\<lambda>msg.
         op_then (op_modify (\<lambda>s. s\<lparr>sv_publish_namespaces :=
           map_set Namespace_lt ns (ctx\<lparr>cx_state := Context_Ready\<rparr>) (sv_publish_namespaces s)\<rparr>))
         (server_enqueue (cx_transport_context_id ctx) (cx_transport_stream_id ctx) msg)))"

definition subscribeResponse :: "u64 \<Rightarrow> Namespace \<Rightarrow> SubscribeResult \<Rightarrow> ('d Server, unit) op" where
  "subscribeResponse subscriber_id ns result =
     op_bind (op_get sv_subscribe_id_state) (\<lambda>ids.
     case map_find u64_lt subscriber_id ids of
       None \<Rightarrow> op_return ()
     | Some ctx \<Rightarrow>
         op_bind (op_lift (put_SubscribeResponse []
           \<lparr>sr_namespace = ns, sr_response = sres_status result, sr_transaction_id = subscriber_id\<rparr>))
         (server_enqueue (cx_transport_context_id ctx) (cx_transport_stream_id ctx)))"

definition subscriptionEnded :: "u64 \<Rightarrow> Namespace \<Rightarrow> SubscribeStatus \<Rightarrow> ('d Server, unit) op" where
  "subscriptionEnded subscriber_id ns reason =
     op_bind (op_get sv_subscribe_id_state) (\<lambda>ids.
     case map_find u64_lt subscriber_id ids of
       None \<Rightarrow> op_return ()
     | Some ctx \<Rightarrow>
         op_bind (op_lift (put_SubscribeEnd [] \<lparr>se_namespace = ns, se_reason = reason\<rparr>))
         (server_enqueue (cx_transport_context_id ctx) (cx_transport_stream_id ctx)))"

definition sendNamedObject :: "u64 \<Rightarrow> PublishDatagram \<Rightarrow> ('d Server, unit) op" where
  "sendNamedObject subscriber_id datagram =
     op_bind (op_get sv_subscribe_id_state) (\<lambda>ids.
     case map_find u64_lt subscriber_id ids of
       None \<Rightarrow> op_return ()
     | Some ctx \<Rightarrow>
         op_bind (op_lift (put_PublishDatagram [] datagram))
         (server_enqueue (cx_transport_context_id ctx) (cx_transport_stream_id ctx)))"

section \<open>Messages of the clients\<close>

text \<open>\<^verbatim>\<open>subscribe_state[ns]\<close> creates the namespace when it is missing.\<close>

definition touch_namespace :: "Namespace \<Rightarrow> ('d Server, unit) op" where
  "touch_namespace ns = op_modify (\<lambda>s. s\<lparr>sv_subscribe_state :=
     map_touch Namespace_lt [] ns (sv_subscribe_state s)\<rparr>)"

definition subscribers_of :: "Namespace \<Rightarrow> 'd Server \<Rightarrow> subscriber_map" where
  "subscribers_of ns s = map_get Namespace_lt [] ns (sv_subscribe_state s)"

definition set_subscribers :: "Namespace \<Rightarrow> subscriber_map \<Rightarrow> 'd Server \<Rightarrow> 'd Server" where
  "set_subscribers ns m s = s\<lparr>sv_subscribe_state := map_set Namespace_lt ns m (sv_subscribe_state s)\<rparr>"

definition empty_SubscribeContext :: ServerSubscribeContext where
  "empty_SubscribeContext = \<lparr>cx_state = Context_Unknown, cx_transport_context_id = 0,
     cx_transport_stream_id = 0, ssc_transaction_id = 0, ssc_subscriber_id = 0\<rparr>"

text \<open>A context for a subscriber that is not known yet.\<close>

definition new_subscriber ::
  "Namespace \<Rightarrow> TransportContextId \<Rightarrow> StreamId \<Rightarrow> ('d Server, unit) op" where
  "new_subscriber ns context_id streamId =
     op_bind (op_get sv_subscriber_id) (\<lambda>subscriber_id.
     let context = empty_SubscribeContext\<lparr>cx_transport_context_id := context_id,
           cx_transport_stream_id := streamId, ssc_subscriber_id := subscriber_id\<rparr> in
     op_then (op_modify (\<lambda>s. s\<lparr>sv_subscriber_id := sv_subscriber_id s + 1\<rparr>)) (
     op_then (op_modify (\<lambda>s. set_subscribers ns (map_set u64_lt context_id context (subscribers_of ns s)) s))
       (op_modify (\<lambda>s. s\<lparr>sv_subscribe_id_state :=
          map_set u64_lt subscriber_id context (sv_subscribe_id_state s)\<rparr>))))"

definition handle_subscribe ::
  "'d ServerDelegate \<Rightarrow> TransportContextId \<Rightarrow> StreamId \<Rightarrow> bytes \<Rightarrow> ('d Server, unit) op" where
  "handle_subscribe del context_id streamId msg =
     op_bind (op_lift (get_Subscribe 0 msg)) (\<lambda>(subscribe, _).
     let ns = s_namespace subscribe in
     op_then (touch_namespace ns) (
     op_bind (op_get (subscribers_of ns)) (\<lambda>m.
     op_then (op_when (\<not> map_has u64_lt context_id m) (new_subscriber ns context_id streamId)) (
     op_bind (op_get (\<lambda>s. map_get u64_lt empty_SubscribeContext context_id (subscribers_of ns s))) (\<lambda>context.
     onSubscribe del ns (ssc_subscriber_id context) context_id streamId (s_intent subscribe))))))"

definition handle_unsubscribe ::
  "'d ServerDelegate \<Rightarrow> TransportContextId \<Rightarrow> StreamId \<Rightarrow> bytes \<Rightarrow> ('d Server, unit) op" where
  "handle_unsubscribe del context_id streamId msg =
     op_bind (op_lift (get_Unsubscribe 0 msg)) (\<lambda>(unsub, _).
     let ns = u_namespace unsub in
     op_then (touch_namespace ns) (
     op_bind (op_get (subscribers_of ns)) (\<lambda>m.
     case map_find u64_lt context_id m of
       None \<Rightarrow> op_return ()
     | Some context \<Rightarrow>
         op_then (onUnsubscribe del ns (ssc_subscriber_id context)) (
         op_then (op_modify (\<lambda>s. s\<lparr>sv_subscribe_id_state :=
           map_erase u64_lt (ssc_subscriber_id context) (sv_subscribe_id_state s)\<rparr>)) (
         op_then (op_modify (\<lambda>s. set_subscribers ns (map_erase u64_lt context_id (subscribers_of ns s)) s)) (
         op_bind (op_get (subscribers_of ns)) (\<lambda>m.
         op_when (length m > 0)
           (op_modify (\<lambda>s. s\<lparr>sv_subscribe_state :=
              map_erase Namespace_lt ns (sv_subscribe_state s)\<rparr>)))))))))"

text \<open>The \<^verbatim>\<open>std::find_if\<close> over the namespaces of the publish intents.\<close>

primrec publish_namespace_found :: "Name \<Rightarrow> (Namespace \<times> PublishIntentContext) list \<Rightarrow> bool res" where
  "publish_namespace_found name [] = Inr False"
| "publish_namespace_found name (e # es) =
     rbind (contains (fst e) name) (\<lambda>c. if c then Inr True else publish_namespace_found name es)"

definition handle_publish ::
  "'d ServerDelegate \<Rightarrow> TransportContextId \<Rightarrow> StreamId \<Rightarrow> bytes \<Rightarrow> ('d Server, unit) op" where
  "handle_publish del context_id streamId msg =
     op_bind (op_lift (get_PublishDatagram msg)) (\<lambda>(datagram, _).
     let name = h_name (pd_header datagram) in
     op_bind (op_get sv_publish_namespaces) (\<lambda>ps.
     op_bind (op_lift (publish_namespace_found name ps)) (\<lambda>found.
     if \<not> found then op_return ()
     else
       op_bind (op_get sv_publish_state) (\<lambda>st.
       case map_find Name_lt name st of
         None \<Rightarrow>
           op_then (op_modify (\<lambda>s. s\<lparr>sv_publish_state := map_set Name_lt name
             \<lparr>cx_state = Context_Unknown, cx_transport_context_id = context_id,
              cx_transport_stream_id = streamId, spc_group_id = 0, spc_object_id = 0,
              spc_offset = 0\<rparr> (sv_publish_state s)\<rparr>))
           (onPublisherObject del context_id streamId datagram)
       | Some context \<Rightarrow>
           onPublisherObject del (cx_transport_context_id context)
             (cx_transport_stream_id context) datagram))))"

definition handle_publish_intent ::
  "'d ServerDelegate \<Rightarrow> TransportContextId \<Rightarrow> StreamId \<Rightarrow> bytes \<Rightarrow> ('d Server, unit) op" where
  "handle_publish_intent del context_id streamId msg =
     op_bind (op_lift (get_PublishIntent msg)) (\<lambda>(intent, _).
     let ns = pi_namespace intent in
     op_bind (op_get sv_publish_namespaces) (\<lambda>ps.
     op_then (op_when (\<not> map_has Namespace_lt ns ps)
       (op_modify (\<lambda>s. s\<lparr>sv_publish_namespaces := map_set Namespace_lt ns
          \<lparr>cx_state = Context_Pending, cx_transport_context_id = context_id,
           cx_transport_stream_id = streamId, pic_transaction_id = pi_transaction_id intent\<rparr>
          (sv_publish_namespaces s)\<rparr>)))
     (onPublishIntent del ns (pi_payload intent))))"

text \<open>The loop that erases the published names of a namespace.\<close>

primrec erase_published ::
  "Namespace \<Rightarrow> (Name \<times> ServerPublishContext) list \<Rightarrow> (Name \<times> ServerPublishContext) list res" where
  "erase_published ns [] = Inr []"
| "erase_published ns (e # es) =
     rbind (contains ns (fst e)) (\<lambda>c.
     rbind (erase_published ns es) (\<lambda>rest. Inr (if c then rest else e # rest)))"

definition handle_publish_intent_end ::
  "'d ServerDelegate \<Rightarrow> TransportContextId \<Rightarrow> StreamId \<Rightarrow> bytes \<Rightarrow> ('d Server, unit) op" where
  "handle_publish_intent_end del context_id streamId msg =
     op_bind (op_lift (get_PublishIntentEnd msg)) (\<lambda>(intent_end, _).
     let ns = pie_namespace intent_end in
     op_bind (op_get sv_publish_namespaces) (\<lambda>ps.
     if \<not> map_has Namespace_lt ns ps then op_return ()
     else
       op_then (op_modify (\<lambda>s. s\<lparr>sv_publish_namespaces :=
         map_erase Namespace_lt ns (sv_publish_namespaces s)\<rparr>)) (
       op_bind (op_get sv_publish_state) (\<lambda>st.
       op_bind (op_lift (erase_published ns st)) (\<lambda>st'.
       op_then (op_modify (\<lambda>s. s\<lparr>sv_publish_state := st'\<rparr>))
         (onPublishIntentEnd del ns (pie_payload intent_end)))))))"

section \<open>The transport delegate\<close>

text \<open>The loop over the namespaces when a connection is lost. \<open>namespaces_to_remove\<close> is only extended
  by a namespace that has the context and is empty, so it stays empty.\<close>

primrec disconnect_loop ::
  "'d ServerDelegate \<Rightarrow> TransportContextId \<Rightarrow> (Namespace \<times> subscriber_map) list \<Rightarrow> Namespace list
     \<Rightarrow> ('d Server, unit) op" where
  "disconnect_loop del context_id [] namespaces_to_remove = op_return ()"
| "disconnect_loop del context_id (sub # subs) namespaces_to_remove =
     op_bind
       (case map_find u64_lt context_id (snd sub) of
          None \<Rightarrow> op_return namespaces_to_remove
        | Some context \<Rightarrow>
            op_then (onUnsubscribe del (fst sub) (ssc_subscriber_id context)) (
            op_then (op_modify (\<lambda>s. s\<lparr>sv_subscribe_id_state :=
              map_erase u64_lt (ssc_subscriber_id context) (sv_subscribe_id_state s)\<rparr>))
            (op_return (if length (snd sub) = 0 then namespaces_to_remove @ [fst sub]
                        else namespaces_to_remove))))
     (\<lambda>namespaces_to_remove.
     op_then (op_for namespaces_to_remove (\<lambda>ns. op_modify (\<lambda>s. s\<lparr>sv_subscribe_state :=
       map_erase Namespace_lt ns (sv_subscribe_state s)\<rparr>)))
     (disconnect_loop del context_id subs namespaces_to_remove))"

definition server_on_connection_status ::
  "'d ServerDelegate \<Rightarrow> TransportContextId \<Rightarrow> TransportStatus \<Rightarrow> ('d Server, unit) op" where
  "server_on_connection_status del context_id status =
     op_when (status = TS_Disconnected)
       (op_bind (op_get sv_subscribe_state) (\<lambda>subs. disconnect_loop del context_id subs []))"

text \<open>What happens to one message; \<^verbatim>\<open>front()\<close> of an empty vector is undefined.\<close>

definition server_handle ::
  "'d ServerDelegate \<Rightarrow> TransportContextId \<Rightarrow> StreamId \<Rightarrow> bytes \<Rightarrow> ('d Server, unit) op" where
  "server_handle del context_id streamId data =
     (case data of
        [] \<Rightarrow> op_lift (Inl undefined_behaviour)
      | b # _ \<Rightarrow>
          (case MessageType_cast b of
             MT_Subscribe \<Rightarrow> handle_subscribe del context_id streamId data
           | MT_Publish \<Rightarrow> handle_publish del context_id streamId data
           | MT_Unsubscribe \<Rightarrow> handle_unsubscribe del context_id streamId data
           | MT_PublishIntent \<Rightarrow> handle_publish_intent del context_id streamId data
           | MT_PublishIntentEnd \<Rightarrow> handle_publish_intent_end del context_id streamId data
           | _ \<Rightarrow> op_return ()))"

text \<open>Unlike the client's loop this one goes on to the next message after one that throws.\<close>

fun server_recv_loop :: "nat \<Rightarrow> (nat \<Rightarrow> bytes option) \<Rightarrow> nat \<Rightarrow> (bytes \<Rightarrow> ('s, unit) op) \<Rightarrow> ('s, unit) op" where
  "server_recv_loop 0 dequeue i handle = op_return ()"
| "server_recv_loop (Suc n) dequeue i handle =
     (case dequeue i of
        None \<Rightarrow> op_return ()
      | Some data \<Rightarrow>
          op_then (op_catch (handle data) (\<lambda>e. op_return ()))
            (server_recv_loop n dequeue (Suc i) handle))"

definition server_on_recv_notify ::
  "'d ServerDelegate \<Rightarrow> TransportContextId \<Rightarrow> StreamId \<Rightarrow> (nat \<Rightarrow> bytes option) \<Rightarrow> ('d Server, unit) op" where
  "server_on_recv_notify del context_id streamId dequeue =
     server_recv_loop RECV_LIMIT dequeue 0 (server_handle del context_id streamId)"

section \<open>The contract of a delegate\<close>

text \<open>What the public methods can change: nothing of the subscriptions and published names, of a
  publish intent only its state, and messages are only added. \<open>op_public\<close> are the operations that
  respect it.\<close>

definition intent_fixed :: "(Namespace \<times> PublishIntentContext)
    \<Rightarrow> Namespace \<times> TransportContextId \<times> StreamId \<times> u64" where
  "intent_fixed e = (fst e, cx_transport_context_id (snd e), cx_transport_stream_id (snd e),
     pic_transaction_id (snd e))"

definition intent_answered :: "(Namespace \<times> PublishIntentContext) \<Rightarrow> bool" where
  "intent_answered e \<longleftrightarrow> cx_state (snd e) \<noteq> Context_Unknown"

definition public_effect :: "'d Server \<Rightarrow> 'd Server \<Rightarrow> bool" where
  "public_effect s s' \<longleftrightarrow>
     sv_subscribe_state s' = sv_subscribe_state s \<and>
     sv_subscribe_id_state s' = sv_subscribe_id_state s \<and>
     sv_publish_state s' = sv_publish_state s \<and>
     sv_subscriber_id s' = sv_subscriber_id s \<and> sv_running s' = sv_running s \<and>
     map intent_fixed (sv_publish_namespaces s') = map intent_fixed (sv_publish_namespaces s) \<and>
     (list_all intent_answered (sv_publish_namespaces s) \<longrightarrow>
        list_all intent_answered (sv_publish_namespaces s')) \<and>
     (\<exists>more. sv_sent s' = sv_sent s @ more)"

definition op_public :: "('d Server, 'a) op \<Rightarrow> bool" where
  "op_public m \<longleftrightarrow> (\<forall>s. public_effect s (snd (m s)))"

named_theorems public_intros \<open>operations with the effects of the public methods\<close>

lemma public_effect_refl [simp]: "public_effect s s"
  by (simp add: public_effect_def)

lemma public_effect_trans: "public_effect s t \<Longrightarrow> public_effect t u \<Longrightarrow> public_effect s u"
  by (auto simp: public_effect_def)

lemma public_return [public_intros]: "op_public (op_return x)"
  and public_lift [public_intros]: "op_public (op_lift r)"
  and public_get [public_intros]: "op_public (op_get f)"
  by (simp_all add: op_public_def op_run)

lemma public_bind [public_intros]:
  assumes "op_public m" and "\<And>x. op_public (f x)"
  shows "op_public (op_bind m f)"
  unfolding op_public_def
proof
  fix s
  obtain r t where m: "m s = (r, t)" by (cases "m s")
  with assms(1) have "public_effect s t" by (metis op_public_def snd_conv)
  with assms(2) m show "public_effect s (snd (op_bind m f s))"
    by (cases r) (auto simp: op_bind_def op_public_def intro: public_effect_trans)
qed

lemma public_then [public_intros]: "op_public m \<Longrightarrow> op_public n \<Longrightarrow> op_public (op_then m n)"
  unfolding op_then_def by (rule public_bind)

lemma public_if [public_intros]: "op_public m \<Longrightarrow> op_public n \<Longrightarrow> op_public (if b then m else n)"
  by simp

lemma public_when [public_intros]: "op_public m \<Longrightarrow> op_public (op_when b m)"
  by (simp add: op_when_def public_return)

lemma public_for [public_intros]: "(\<And>x. op_public (f x)) \<Longrightarrow> op_public (op_for xs f)"
  by (induction xs) (simp_all add: public_return public_then)

lemma public_case_option [public_intros]:
  "op_public m \<Longrightarrow> (\<And>x. op_public (f x)) \<Longrightarrow> op_public (case z of None \<Rightarrow> m | Some x \<Rightarrow> f x)"
  by (cases z) simp_all

lemma public_delegate [public_intros]: "op_public (op_modify (\<lambda>s. s\<lparr>sv_delegate := f s\<rparr>))"
  by (simp add: op_public_def op_run public_effect_def)

lemma public_enqueue [public_intros]: "op_public (server_enqueue ctx stream msg)"
  by (simp add: op_public_def op_run public_effect_def server_enqueue_def)

lemma map_set_fixed:
  assumes "map_find lt k m = Some v" and "\<And>a. f (a, w) = f (a, v)"
  shows "map f (map_set lt k w m) = map f m"
  using assms(1) by (induction m) (auto simp: assms(2) split: if_splits)

lemma public_publishIntentResponse [public_intros]: "op_public (publishIntentResponse ns result)"
  unfolding op_public_def
proof
  fix s :: "'d Server"
  show "public_effect s (snd (publishIntentResponse ns result s))"
  proof (cases "map_find Namespace_lt ns (sv_publish_namespaces s)")
    case None
    then show ?thesis by (simp add: publishIntentResponse_def op_simps)
  next
    case (Some ctx)
    let ?msg = "put_PublishIntentResponse [] \<lparr>pir_message_type = MT_PublishIntentResponse,
      pir_namespace = ns, pir_response = pres_status result, pir_transaction_id = pic_transaction_id ctx\<rparr>"
    have "map intent_fixed (map_set Namespace_lt ns (ctx\<lparr>cx_state := Context_Ready\<rparr>) (sv_publish_namespaces s)) =
        map intent_fixed (sv_publish_namespaces s)"
      using Some by (rule map_set_fixed) (simp add: intent_fixed_def)
    moreover have "list_all intent_answered
        (map_set Namespace_lt ns (ctx\<lparr>cx_state := Context_Ready\<rparr>) (sv_publish_namespaces s))"
      if "list_all intent_answered (sv_publish_namespaces s)"
      using that by (induction "sv_publish_namespaces s" rule: list.induct)
        (auto simp: list_all_iff intent_answered_def dest!: subsetD [OF set_map_set])
    ultimately show ?thesis
      using Some by (cases ?msg) (simp_all add: publishIntentResponse_def op_simps server_enqueue_def public_effect_def)
  qed
qed

lemma public_methods [public_intros]:
  "op_public (subscribeResponse i ns res)" "op_public (subscriptionEnded i ns reason)"
  "op_public (sendNamedObject i datagram)"
  unfolding subscribeResponse_def subscriptionEnded_def sendNamedObject_def
  by (intro public_intros)+

section \<open>What the server keeps invariant\<close>

definition subscribers_ok :: "Namespace \<times> subscriber_map \<Rightarrow> bool" where
  "subscribers_ok e \<longleftrightarrow> ns_wf (fst e) \<and> map_wf u64_lt (snd e) \<and>
     list_all (\<lambda>c. cx_transport_context_id (snd c) = fst c) (snd e)"

text \<open>Every map is well-formed; the namespaces are what the constructor builds; a subscriber's context
  is stored under its connection and under its id; every publish intent is at least \<^verbatim>\<open>Pending\<close>.\<close>

definition server_inv :: "'d Server \<Rightarrow> bool" where
  "server_inv s \<longleftrightarrow>
     map_wf Namespace_lt (sv_subscribe_state s) \<and> list_all subscribers_ok (sv_subscribe_state s) \<and>
     map_wf u64_lt (sv_subscribe_id_state s) \<and>
     list_all (\<lambda>e. ssc_subscriber_id (snd e) = fst e) (sv_subscribe_id_state s) \<and>
     map_wf Name_lt (sv_publish_state s) \<and>
     map_wf Namespace_lt (sv_publish_namespaces s) \<and>
     list_all (\<lambda>e. ns_wf (fst e)) (sv_publish_namespaces s) \<and>
     list_all intent_answered (sv_publish_namespaces s)"

lemma server_inv_new: "server_inv (QuicRServer d)"
  by (simp add: server_inv_def QuicRServer_def)

lemma map_wf_keys: "map_wf lt m \<longleftrightarrow> sorted_wrt lt (map fst m)"
  by (simp add: map_wf_def sorted_wrt_map)

lemma intent_fixed_keys: "map fst (map intent_fixed ps) = map fst ps"
  by (simp add: intent_fixed_def)

lemma server_inv_public:
  assumes "server_inv s" and "public_effect s s'"
  shows "server_inv s'"
proof -
  have "map fst (sv_publish_namespaces s') = map fst (sv_publish_namespaces s)"
    using assms(2) unfolding public_effect_def by (metis intent_fixed_keys)
  moreover have "list_all (\<lambda>e. ns_wf (fst e)) ps \<longleftrightarrow> list_all ns_wf (map fst ps)"
    for ps :: "(Namespace \<times> PublishIntentContext) list"
    by (simp add: list.pred_map comp_def)
  ultimately show ?thesis
    using assms unfolding server_inv_def public_effect_def by (simp add: map_wf_keys)
qed

lemma keeps_public: "op_public m \<Longrightarrow> op_keeps server_inv m"
  using server_inv_public by (auto simp: op_keeps_def op_public_def)
lemma keeps_lift_bind:
  "(\<And>x. r = Inr x \<Longrightarrow> op_keeps I (f x)) \<Longrightarrow> op_keeps I (op_bind (op_lift r) f)"
  by (cases r) (simp_all add: op_keeps_def op_simps)

text \<open>Namespaces read off the wire are what the constructor builds.\<close>

lemma dbind_Inr_iff: "dbind m f buf = Inr y \<longleftrightarrow> (\<exists>x buf'. m buf = Inr (x, buf') \<and> f x buf' = Inr y)"
  by (cases "m buf") (auto simp: dbind_def)

lemma get_Namespace_wf: "get_Namespace buf = Inr (ns, rest) \<Longrightarrow> ns_wf ns"
  by (auto simp: get_Namespace_def dbind_Inr_iff dlift_def rbind_Inr_iff dest: mk_Namespace_wf)

lemma decoded_namespaces:
  "get_Subscribe v buf = Inr (m1, rest) \<Longrightarrow> ns_wf (s_namespace m1)"
  "get_Unsubscribe v buf = Inr (m2, rest) \<Longrightarrow> ns_wf (u_namespace m2)"
  "get_PublishIntent buf = Inr (m3, rest) \<Longrightarrow> ns_wf (pi_namespace m3)"
  "get_PublishIntentEnd buf = Inr (m4, rest) \<Longrightarrow> ns_wf (pie_namespace m4)"
  unfolding get_Subscribe_def get_Unsubscribe_def get_PublishIntent_def get_PublishIntentEnd_def
  by (auto simp: dbind_Inr_iff dret_def draise_def get_Namespace_wf split: if_splits)

lemma subscribers_of_ok:
  assumes "server_inv s"
  shows "map_wf u64_lt (subscribers_of ns s)"
    and "list_all (\<lambda>c. cx_transport_context_id (snd c) = fst c) (subscribers_of ns s)"
proof -
  let ?P = "\<lambda>m. map_wf u64_lt m \<and> list_all (\<lambda>c. cx_transport_context_id (snd c) = fst c) m"
  have "list_all (\<lambda>e. ?P (snd e)) (sv_subscribe_state s)"
    using assms unfolding server_inv_def by (auto simp: subscribers_ok_def elim: list.pred_mono_strong)
  from list_all_find [OF this, where lt = Namespace_lt and k = ns]
  have "?P (subscribers_of ns s)" by (simp add: subscribers_of_def map_get_def split: option.split)
  then show "map_wf u64_lt (subscribers_of ns s)"
    and "list_all (\<lambda>c. cx_transport_context_id (snd c) = fst c) (subscribers_of ns s)" by blast+
qed

lemma server_inv_set_subscribers:
  assumes "server_inv s" and "ns_wf ns" and "map_wf u64_lt m"
    and "list_all (\<lambda>c. cx_transport_context_id (snd c) = fst c) m"
  shows "server_inv (set_subscribers ns m s)"
proof -
  have "list_all subscribers_ok (map_set Namespace_lt ns m (sv_subscribe_state s))"
    using assms by (intro list_all_set) (simp_all add: server_inv_def subscribers_ok_def)
  with assms(1) show ?thesis by (simp add: server_inv_def set_subscribers_def ns_order.wf_set)
qed

lemma keeps_set_subscribers:
  assumes "ns_wf ns"
    and "\<And>m. map_wf u64_lt m \<Longrightarrow> map_wf u64_lt (f m)"
    and "\<And>m. list_all (\<lambda>c. cx_transport_context_id (snd c) = fst c) m \<Longrightarrow>
      list_all (\<lambda>c. cx_transport_context_id (snd c) = fst c) (f m)"
  shows "op_keeps server_inv (op_modify (\<lambda>s. set_subscribers ns (f (subscribers_of ns s)) s))"
  by (rule keeps_modify) (intro server_inv_set_subscribers assms subscribers_of_ok)

lemma keeps_touch_namespace: "ns_wf ns \<Longrightarrow> op_keeps server_inv (touch_namespace ns)"
proof -
  assume ns: "ns_wf ns"
  have "list_all subscribers_ok (map_emplace Namespace_lt ns [] m)" if "list_all subscribers_ok m" for m
    using that ns by (intro list_all_emplace) (simp_all add: subscribers_ok_def)
  then show ?thesis
    unfolding touch_namespace_def
    by (intro keeps_modify) (simp add: server_inv_def map_touch_def ns_order.wf_emplace)
qed

lemma keeps_erase_namespace:
  "op_keeps server_inv (op_modify (\<lambda>s. s\<lparr>sv_subscribe_state := map_erase Namespace_lt ns (sv_subscribe_state s)\<rparr>))"
  by (rule keeps_modify) (simp add: server_inv_def ns_order.wf_erase list_all_erase)

lemma keeps_erase_id:
  "op_keeps server_inv (op_modify (\<lambda>s. s\<lparr>sv_subscribe_id_state := map_erase u64_lt i (sv_subscribe_id_state s)\<rparr>))"
  by (rule keeps_modify) (simp add: server_inv_def u64_order.wf_erase list_all_erase)

lemma keeps_set_id:
  "ssc_subscriber_id c = i \<Longrightarrow>
     op_keeps server_inv (op_modify (\<lambda>s. s\<lparr>sv_subscribe_id_state := map_set u64_lt i c (sv_subscribe_id_state s)\<rparr>))"
  by (rule keeps_modify)
    (simp add: server_inv_def u64_order.wf_set u64_order.list_all_set_total)

lemma keeps_new_subscriber: "ns_wf ns \<Longrightarrow> op_keeps server_inv (new_subscriber ns ctx stream)"
  unfolding new_subscriber_def Let_def
  by (intro keeps_bind keeps_get keeps_then keeps_set_subscribers keeps_set_id keeps_modify)
    (simp_all add: server_inv_def u64_order.wf_set u64_order.list_all_set_total)

lemma erase_published_subset: "erase_published ns st = Inr st' \<Longrightarrow> set st' \<subseteq> set st"
  by (induction st arbitrary: st') (auto simp: rbind_Inr_iff split: if_splits)

lemma erase_published_wf: "erase_published ns st = Inr st' \<Longrightarrow> map_wf Name_lt st \<Longrightarrow> map_wf Name_lt st'"
proof (induction st arbitrary: st')
  case (Cons e st)
  then obtain c rest where c: "erase_published ns st = Inr rest" "st' = (if c then rest else e # rest)"
    by (auto simp: rbind_Inr_iff)
  with Cons erase_published_subset [OF c(1)] show ?case by (cases e) (auto simp: map_wf_Cons)
qed simp

lemma keeps_erase_published:
  assumes "\<And>x. op_keeps server_inv (k x)"
  shows "op_keeps server_inv (op_bind (op_get sv_publish_state) (\<lambda>st.
    op_bind (op_lift (erase_published ns st)) (\<lambda>st'.
    op_then (op_modify (\<lambda>s. s\<lparr>sv_publish_state := st'\<rparr>)) (k st'))))"
proof
  fix s
  let ?op = "op_bind (op_get sv_publish_state) (\<lambda>st. op_bind (op_lift (erase_published ns st)) (\<lambda>st'.
    op_then (op_modify (\<lambda>s. s\<lparr>sv_publish_state := st'\<rparr>)) (k st')))"
  assume inv: "server_inv s" and nub: "fst (?op s) \<noteq> Inl undefined_behaviour"
  show "server_inv (snd (?op s))"
  proof (cases "erase_published ns (sv_publish_state s)")
    case (Inr st')
    then have "server_inv (s\<lparr>sv_publish_state := st'\<rparr>)"
      using inv erase_published_wf by (auto simp: server_inv_def)
    with Inr nub assms [of st'] show ?thesis by (simp add: op_simps op_keeps_def)
  qed (use inv in \<open>simp add: op_simps\<close>)
qed

lemma keeps_server_recv_loop:
  assumes "\<And>data. op_keeps I (handle data)"
  shows "op_keeps I (server_recv_loop n dequeue i handle)"
  by (induction n arbitrary: i) (auto intro!: keeps_intros assms split: option.splits)

locale server_delegate =
  fixes del :: "'d ServerDelegate"
  assumes public_callbacks:
    "op_public (onPublishIntent del ns payload)"
    "op_public (onPublishIntentEnd del ns payload)"
    "op_public (onPublisherObject del ctx stream datagram)"
    "op_public (onSubscribe del ns i ctx stream intent)"
    "op_public (onUnsubscribe del ns i)"
begin

lemmas keeps_callbacks = public_callbacks [THEN keeps_public]

lemma keeps_handle_subscribe: "op_keeps server_inv (handle_subscribe del ctx stream msg)"
  unfolding handle_subscribe_def
proof (rule keeps_lift_bind, clarsimp simp: Let_def)
  fix m rest assume "get_Subscribe 0 msg = Inr (m, rest)"
  then have ns: "ns_wf (s_namespace m)" by (rule decoded_namespaces)
  show "op_keeps server_inv
     (op_then (touch_namespace (s_namespace m))
       (op_bind (op_get (subscribers_of (s_namespace m)))
         (\<lambda>ma. op_then (op_when (\<not> map_has (<) ctx ma) (new_subscriber (s_namespace m) ctx stream))
                (op_bind (op_get (\<lambda>s. map_get (<) empty_SubscribeContext ctx (subscribers_of (s_namespace m) s)))
                  (\<lambda>context. onSubscribe del (s_namespace m) (ssc_subscriber_id context) ctx stream (s_intent m))))))"
    by (intro keeps_intros keeps_touch_namespace keeps_new_subscriber keeps_callbacks ns)
qed

lemma keeps_handle_unsubscribe: "op_keeps server_inv (handle_unsubscribe del ctx stream msg)"
  unfolding handle_unsubscribe_def
proof (rule keeps_lift_bind, clarify)
  fix m rest assume "get_Unsubscribe 0 msg = Inr (m, rest)"
  then have ns: "ns_wf (u_namespace m)" by (rule decoded_namespaces)
  show "op_keeps server_inv
     (let ns = u_namespace m in
     op_then (touch_namespace ns) (
     op_bind (op_get (subscribers_of ns)) (\<lambda>m.
     case map_find u64_lt ctx m of
       None \<Rightarrow> op_return ()
     | Some context \<Rightarrow>
         op_then (onUnsubscribe del ns (ssc_subscriber_id context)) (
         op_then (op_modify (\<lambda>s. s\<lparr>sv_subscribe_id_state :=
           map_erase u64_lt (ssc_subscriber_id context) (sv_subscribe_id_state s)\<rparr>)) (
         op_then (op_modify (\<lambda>s. set_subscribers ns (map_erase u64_lt ctx (subscribers_of ns s)) s)) (
         op_bind (op_get (subscribers_of ns)) (\<lambda>m.
         op_when (length m > 0)
           (op_modify (\<lambda>s. s\<lparr>sv_subscribe_state :=
              map_erase Namespace_lt ns (sv_subscribe_state s)\<rparr>)))))))))"
    unfolding Let_def
    by (intro keeps_intros keeps_touch_namespace keeps_callbacks keeps_erase_id keeps_set_subscribers
        keeps_erase_namespace u64_order.wf_erase list_all_erase ns)
qed

lemma keeps_handle_publish: "op_keeps server_inv (handle_publish del ctx stream msg)"
  unfolding handle_publish_def Let_def case_prod_beta
  by (intro keeps_intros keeps_callbacks keeps_modify)
    (simp add: server_inv_def name_order.wf_set)

lemma keeps_handle_publish_intent: "op_keeps server_inv (handle_publish_intent del ctx stream msg)"
  unfolding handle_publish_intent_def case_prod_beta Let_def
proof (rule keeps_lift_bind)
  fix x assume "get_PublishIntent msg = Inr x"
  then have ns: "ns_wf (pi_namespace (fst x))" by (cases x) (simp add: decoded_namespaces)
  let ?c = "\<lparr>cx_state = Context_Pending, cx_transport_context_id = ctx,
           cx_transport_stream_id = stream, pic_transaction_id = pi_transaction_id (fst x)\<rparr>"
  have "server_inv (s\<lparr>sv_publish_namespaces := map_set Namespace_lt (pi_namespace (fst x)) ?c (sv_publish_namespaces s)\<rparr>)"
    if "server_inv s" for s :: "'d Server"
    using that ns by (auto simp: server_inv_def ns_order.wf_set intent_answered_def intro!: list_all_set)
  then show "op_keeps server_inv (op_bind (op_get sv_publish_namespaces)
         (\<lambda>ps. op_then (op_when (\<not> map_has Namespace_lt (pi_namespace (fst x)) ps)
              (op_modify (\<lambda>s. s\<lparr>sv_publish_namespaces :=
                 map_set Namespace_lt (pi_namespace (fst x)) ?c (sv_publish_namespaces s)\<rparr>)))
            (onPublishIntent del (pi_namespace (fst x)) (pi_payload (fst x)))))"
    by (intro keeps_intros keeps_callbacks keeps_modify)
qed

lemma keeps_handle_publish_intent_end: "op_keeps server_inv (handle_publish_intent_end del ctx stream msg)"
  unfolding handle_publish_intent_end_def case_prod_beta Let_def
  by (intro keeps_bind keeps_lift keeps_get keeps_if keeps_return keeps_then keeps_callbacks
      keeps_erase_published keeps_modify)
    (simp add: server_inv_def ns_order.wf_erase list_all_erase)

lemma keeps_server_handle: "op_keeps server_inv (server_handle del ctx stream data)"
  unfolding server_handle_def
  by (auto split: list.split MessageType.split
      intro: keeps_intros keeps_handle_subscribe keeps_handle_unsubscribe keeps_handle_publish
        keeps_handle_publish_intent keeps_handle_publish_intent_end)

lemma keeps_disconnect_loop: "op_keeps server_inv (disconnect_loop del ctx subs rm)"
proof (induction subs arbitrary: rm)
  case (Cons sub subs)
  show ?case
    unfolding disconnect_loop.simps
    by (intro keeps_bind keeps_case_option keeps_return keeps_then keeps_for keeps_callbacks keeps_erase_id
        keeps_erase_namespace Cons)
qed (simp add: keeps_return)

lemma keeps_on_connection_status: "op_keeps server_inv (server_on_connection_status del ctx status)"
  unfolding server_on_connection_status_def by (intro keeps_intros keeps_disconnect_loop)

lemma keeps_recv: "op_keeps server_inv (server_on_recv_notify del ctx stream dequeue)"
  unfolding server_on_recv_notify_def by (intro keeps_server_recv_loop keeps_server_handle)

end

section \<open>Subscribing and unsubscribing\<close>

text \<open>The server once a subscription is recorded: a connection that has the namespace already
  keeps its context and its id.\<close>

definition new_context :: "TransportContextId \<Rightarrow> StreamId \<Rightarrow> u64 \<Rightarrow> ServerSubscribeContext" where
  "new_context ctx stream i = empty_SubscribeContext\<lparr>cx_transport_context_id := ctx,
     cx_transport_stream_id := stream, ssc_subscriber_id := i\<rparr>"

definition subscribed :: "Namespace \<Rightarrow> TransportContextId \<Rightarrow> StreamId \<Rightarrow> 'd Server \<Rightarrow> 'd Server" where
  "subscribed ns ctx stream s =
     (if map_has u64_lt ctx (subscribers_of ns s) then s
      else let c = new_context ctx stream (sv_subscriber_id s) in
        s\<lparr>sv_subscribe_state := map_set Namespace_lt ns (map_set u64_lt ctx c (subscribers_of ns s)) (sv_subscribe_state s),
          sv_subscribe_id_state := map_set u64_lt (sv_subscriber_id s) c (sv_subscribe_id_state s),
          sv_subscriber_id := sv_subscriber_id s + 1\<rparr>)"

definition subscriber_of :: "Namespace \<Rightarrow> TransportContextId \<Rightarrow> 'd Server \<Rightarrow> u64" where
  "subscriber_of ns ctx s =
     (case map_find u64_lt ctx (subscribers_of ns s) of
        None \<Rightarrow> sv_subscriber_id s | Some c \<Rightarrow> ssc_subscriber_id c)"

lemma touch_namespace_run:
  "touch_namespace ns s = (Inr (), s\<lparr>sv_subscribe_state := map_touch Namespace_lt [] ns (sv_subscribe_state s)\<rparr>)"
  by (simp add: touch_namespace_def op_simps)

lemma touched_subscribers:
  "server_inv s \<Longrightarrow> subscribers_of ns (s\<lparr>sv_subscribe_state := map_touch Namespace_lt [] ns (sv_subscribe_state s)\<rparr>) =
     subscribers_of ns s"
  by (simp add: subscribers_of_def ns_order.get_touch server_inv_def)

lemma touch_present: "map_has u64_lt ctx (subscribers_of ns s) \<Longrightarrow>
    s\<lparr>sv_subscribe_state := map_touch Namespace_lt [] ns (sv_subscribe_state s)\<rparr> = s"
  by (auto simp: subscribers_of_def map_get_def map_touch_def map_emplace_def map_has_def split: option.splits)

lemma subscribers_set:
  "map_wf Namespace_lt m \<Longrightarrow> map_get Namespace_lt [] ns (map_set Namespace_lt ns v m) = v"
  by (simp add: map_get_def ns_order.find_set ns_order.eqv_refl)

lemma new_subscriber_run:
  assumes "server_inv s" and "\<not> map_has u64_lt ctx (subscribers_of ns s)"
  shows "op_then (touch_namespace ns) (new_subscriber ns ctx stream) s = (Inr (), subscribed ns ctx stream s)"
  using assms touched_subscribers [OF assms(1), of ns]
  by (simp add: touch_namespace_run new_subscriber_def op_simps Let_def set_subscribers_def
      subscribed_def new_context_def subscribers_of_def ns_order.set_touch)

lemma subscribed_id:
  assumes "server_inv s"
  shows "ssc_subscriber_id (map_get u64_lt empty_SubscribeContext ctx (subscribers_of ns (subscribed ns ctx stream s))) =
    subscriber_of ns ctx s"
proof (cases "map_find u64_lt ctx (subscribers_of ns s)")
  case None
  have "map_wf u64_lt (subscribers_of ns s)" using assms by (rule subscribers_of_ok)
  with None assms show ?thesis
    by (simp add: subscribed_def map_has_def Let_def subscribers_of_def subscribers_set server_inv_def
        subscriber_of_def map_get_def [of u64_lt] u64_order.find_set u64_order.eqv_refl new_context_def)
next
  case (Some c)
  then show ?thesis by (simp add: subscribed_def map_has_def subscriber_of_def map_get_def)
qed

lemma handle_subscribe_run:
  assumes "server_inv s" and get: "get_Subscribe 0 msg = Inr (m, rest)"
  shows "handle_subscribe del ctx stream msg s =
    onSubscribe del (s_namespace m) (subscriber_of (s_namespace m) ctx s) ctx stream (s_intent m)
      (subscribed (s_namespace m) ctx stream s)"
proof -
  let ?ns = "s_namespace m"
  note simps = handle_subscribe_def get op_simps Let_def touch_namespace_run touched_subscribers [OF assms(1)]
    subscribed_id [OF assms(1)]
  show ?thesis
  proof (cases "map_has u64_lt ctx (subscribers_of ?ns s)")
    case True
    then have "subscribed ?ns ctx stream s = s" by (simp add: subscribed_def)
    with True subscribed_id [OF assms(1), of ctx ?ns stream] show ?thesis
      by (simp add: simps touch_present)
  next
    case False
    have "new_subscriber ?ns ctx stream (s\<lparr>sv_subscribe_state := map_touch Namespace_lt [] ?ns (sv_subscribe_state s)\<rparr>) =
        (Inr (), subscribed ?ns ctx stream s)"
      using new_subscriber_run [OF assms(1) False] by (simp add: op_then_Inr [OF touch_namespace_run])
    with False show ?thesis by (simp add: simps)
  qed
qed

text \<open>What is left in \<^verbatim>\<open>subscribe_state\<close> when a connection unsubscribes.\<close>

definition after_unsubscribe :: "Namespace \<Rightarrow> TransportContextId \<Rightarrow> 'd Server \<Rightarrow> (Namespace \<times> subscriber_map) list" where
  "after_unsubscribe ns ctx s =
     (if map_erase u64_lt ctx (subscribers_of ns s) = [] then map_set Namespace_lt ns [] (sv_subscribe_state s)
      else map_erase Namespace_lt ns (sv_subscribe_state s))"

context server_delegate
begin

lemma public_run: "onUnsubscribe del ns i s = (r, t) \<Longrightarrow> public_effect s t"
  using public_callbacks(5) by (metis op_public_def snd_conv)

lemma handle_unsubscribe_run:
  assumes "server_inv s" and get: "get_Unsubscribe 0 msg = Inr (m, rest)"
    and "map_find u64_lt ctx (subscribers_of (u_namespace m) s) = Some c"
    and "onUnsubscribe del (u_namespace m) (ssc_subscriber_id c) s = (Inr (), t)"
  shows "handle_unsubscribe del ctx stream msg s =
    (Inr (), t\<lparr>sv_subscribe_state := after_unsubscribe (u_namespace m) ctx s,
       sv_subscribe_id_state := map_erase u64_lt (ssc_subscriber_id c) (sv_subscribe_id_state s)\<rparr>)"
proof -
  let ?ns = "u_namespace m"
  have has: "map_has u64_lt ctx (subscribers_of ?ns s)" using assms(3) by (simp add: map_has_def)
  have t: "sv_subscribe_state t = sv_subscribe_state s" "sv_subscribe_id_state t = sv_subscribe_id_state s"
    using public_run [OF assms(4)] by (simp_all add: public_effect_def)
  have wf: "map_wf Namespace_lt (sv_subscribe_state s)" using assms(1) by (simp add: server_inv_def)
  show ?thesis
    using assms(3)
    by (simp add: handle_unsubscribe_def get op_simps Let_def touch_namespace_run touch_present [OF has]
        op_then_Inr [where m = "onUnsubscribe del (u_namespace m) (ssc_subscriber_id c)", OF assms(4)] t set_subscribers_def subscribers_of_def subscribers_set [OF wf]
        after_unsubscribe_def ns_order.erase_set)
qed

end

lemma handle_unsubscribe_absent:
  assumes "server_inv s" and "get_Unsubscribe 0 msg = Inr (m, rest)"
    and "map_find u64_lt ctx (subscribers_of (u_namespace m) s) = None"
  shows "handle_unsubscribe del ctx stream msg s =
    (Inr (), s\<lparr>sv_subscribe_state := map_touch Namespace_lt [] (u_namespace m) (sv_subscribe_state s)\<rparr>)"
  using assms(2,3)
  by (simp add: handle_unsubscribe_def op_simps Let_def touch_namespace_run touched_subscribers [OF assms(1)])

section \<open>Losing a connection\<close>

definition connection_ids :: "TransportContextId \<Rightarrow> (Namespace \<times> subscriber_map) list \<Rightarrow> u64 list" where
  "connection_ids ctx subs =
     concat (map (\<lambda>e. case map_find u64_lt ctx (snd e) of None \<Rightarrow> [] | Some c \<Rightarrow> [ssc_subscriber_id c]) subs)"

section \<open>Receiving\<close>

text \<open>A message whose decoder throws.\<close>

definition throws :: "('a \<times> bytes) res \<Rightarrow> bool" where
  "throws r \<longleftrightarrow> (case r of Inl e \<Rightarrow> is_std_exception e | Inr _ \<Rightarrow> False)"

definition malformed :: "bytes \<Rightarrow> bool" where
  "malformed data \<longleftrightarrow>
     (case data of
        [] \<Rightarrow> False
      | b # _ \<Rightarrow>
          (case MessageType_cast b of
             MT_Subscribe \<Rightarrow> throws (get_Subscribe 0 data)
           | MT_Publish \<Rightarrow> throws (get_PublishDatagram data)
           | MT_Unsubscribe \<Rightarrow> throws (get_Unsubscribe 0 data)
           | MT_PublishIntent \<Rightarrow> throws (get_PublishIntent data)
           | MT_PublishIntentEnd \<Rightarrow> throws (get_PublishIntentEnd data)
           | _ \<Rightarrow> False))"

lemma throws_lift: "throws r \<Longrightarrow> \<exists>e. is_std_exception e \<and> op_bind (op_lift r) f s = (Inl e, s)"
  by (cases r) (auto simp: throws_def op_simps)

lemma malformed_throws:
  assumes "malformed data"
  shows "\<exists>e. is_std_exception e \<and> server_handle del ctx stream data s = (Inl e, s)"
  using assms
  by (auto simp: malformed_def server_handle_def handle_subscribe_def handle_unsubscribe_def
      handle_publish_def handle_publish_intent_def handle_publish_intent_end_def
      intro: throws_lift split: list.splits MessageType.splits)

definition caught :: "(bytes \<Rightarrow> ('s, unit) op) \<Rightarrow> bytes \<Rightarrow> ('s, unit) op" where
  "caught handle m = op_catch (handle m) (\<lambda>e. op_return ())"

lemma caught_malformed: "malformed m \<Longrightarrow> caught (server_handle del ctx stream) m s = (Inr (), s)"
  using malformed_throws [of m del ctx stream s] by (auto simp: caught_def op_catch_def op_run)

lemma server_recv_loop_eq:
  assumes "\<forall>j < length ms. dequeue (i + j) = Some (ms ! j)" and "dequeue (i + length ms) = None"
    and "length ms \<le> n"
  shows "server_recv_loop n dequeue i handle s = op_for ms (caught handle) s"
  using assms
proof (induction ms arbitrary: n i s)
  case Nil
  then show ?case by (cases n) (simp_all add: op_simps)
next
  case (Cons m ms)
  then obtain k where n: "n = Suc k" by (cases n) auto
  have m: "dequeue i = Some m" using Cons.prems(1) by (metis add_0_right length_greater_0_conv list.distinct(1) nth_Cons_0)
  have IH: "server_recv_loop k dequeue (Suc i) handle t = op_for ms (caught handle) t" for t
    by (rule Cons.IH) (use Cons.prems n in \<open>auto dest: spec [of _ "Suc _"]\<close>)
  show ?case
    by (cases "caught handle m s") (auto simp: n m caught_def [symmetric] op_then_def op_bind_def IH split: sum.split)
qed

lemma op_for_skip:
  "(\<And>m s. P m \<Longrightarrow> f m s = (Inr (), s)) \<Longrightarrow> op_for ms f s = op_for (filter (\<lambda>m. \<not> P m) ms) f s"
proof (induction ms arbitrary: s)
  case (Cons m ms)
  then show ?case
    by (cases "P m"; cases "f m s") (auto simp: op_then_def op_bind_def split: sum.split)
qed simp

section \<open>Correctness\<close>

text \<open>C30. A malformed message is as good as not sent: one notification of the server handles the
  queued messages in order and goes on after one that throws, and the messages whose decoder throws
  leave no trace in the state.\<close>

theorem server_skips_malformed:
  assumes "\<forall>i < length ms. dequeue i = Some (ms ! i)" and "dequeue (length ms) = None" and "length ms \<le> 150"
  shows "server_on_recv_notify del ctx stream dequeue s =
    op_for (filter (\<lambda>m. \<not> malformed m) ms)
      (\<lambda>m. op_catch (server_handle del ctx stream m) (\<lambda>e. op_return ())) s"
proof -
  have "server_on_recv_notify del ctx stream dequeue s = op_for ms (caught (server_handle del ctx stream)) s"
    unfolding server_on_recv_notify_def RECV_LIMIT_def
    by (rule server_recv_loop_eq) (use assms in simp_all)
  also have "\<dots> = op_for (filter (\<lambda>m. \<not> malformed m) ms) (caught (server_handle del ctx stream)) s"
    by (rule op_for_skip) (rule caught_malformed)
  finally show ?thesis by (simp only: caught_def [abs_def])
qed

definition silent_delegate :: "unit ServerDelegate" where
  "silent_delegate = \<lparr>onPublishIntent = \<lambda>ns payload. op_return (), onPublishIntentEnd = \<lambda>ns payload. op_return (),
     onPublisherObject = \<lambda>ctx stream datagram. op_return (), onSubscribe = default_onSubscribe,
     onUnsubscribe = default_onUnsubscribe\<rparr>"

theorem server_skips_malformed_witness:
  "server_on_recv_notify silent_delegate 1 2 (\<lambda>i. if i < 2 then Some [4] else None) (QuicRServer ()) =
     (Inr (), QuicRServer ())"
proof -
  have "malformed [4]"
    by (simp add: malformed_def throws_def MessageType_cast_def get_Unsubscribe_def get_Namespace_def dbind_u8_Cons
        MessageType_code.simps dbind_def get_Name_outcome is_std_exception_def)
  then show ?thesis
    using server_skips_malformed [of "[[4], [4]]" "\<lambda>i. if i < 2 then Some [4] else None" silent_delegate 1 2 "QuicRServer ()"]
    by (auto simp: less_Suc_eq op_simps)
qed

lemma run_poll_eq:
  assumes "\<forall>j < n. status (i + j) = TS_Connecting" and "status (i + n) \<noteq> TS_Connecting"
  shows "run_poll status i = Some (i + n + 1)"
  using assms
proof (induction n arbitrary: i)
  case 0
  then show ?case by (subst run_poll.simps) simp
next
  case (Suc n)
  have "status i = TS_Connecting" using Suc.prems(1) by (metis add_0_right zero_less_Suc)
  moreover have "run_poll status (i + 1) = Some (i + 1 + n + 1)"
    by (rule Suc.IH) (use Suc.prems in \<open>auto dest: spec [of _ "Suc _"]\<close>)
  ultimately show ?case by (subst run_poll.simps) simp
qed

lemma run_poll_Some:
  assumes "run_poll status i = Some k"
  shows "\<exists>n. k = i + n + 1 \<and> status (i + n) \<noteq> TS_Connecting"
  using assms
proof (rule run_poll.raw_induct [of "\<lambda>status i k. \<exists>n. k = i + n + 1 \<and> status (i + n) \<noteq> TS_Connecting", rotated])
  fix poll :: "(nat \<Rightarrow> TransportStatus) \<Rightarrow> nat \<Rightarrow> nat option" and status :: "nat \<Rightarrow> TransportStatus" and i k
  assume IH: "\<And>status i k. poll status i = Some k \<Longrightarrow> \<exists>n. k = i + n + 1 \<and> status (i + n) \<noteq> TS_Connecting"
    and step: "(if status i = TS_Connecting then poll status (i + 1) else Some (i + 1)) = Some k"
  show "\<exists>n. k = i + n + 1 \<and> status (i + n) \<noteq> TS_Connecting"
  proof (cases "status i = TS_Connecting")
    case True
    then obtain n where "k = i + 1 + n + 1" "status (i + 1 + n) \<noteq> TS_Connecting"
      using IH [of status "i + 1" k] step by auto
    then show ?thesis by (intro exI [of _ "Suc n"]) simp
  next
    case False
    with step show ?thesis by (intro exI [of _ 0]) simp
  qed
qed

text \<open>\<^verbatim>\<open>run\<close> returns exactly when a poll finds the transport decided, and then returns whether the
  poll after it is \<^verbatim>\<open>Ready\<close>: true is success, although its comment promises true for an error.\<close>

lemma server_run_outcome:
  "(server_run status s = None \<longleftrightarrow> (\<forall>j. status j = TS_Connecting)) \<and>
   ((\<forall>j < n. status j = TS_Connecting) \<and> status n \<noteq> TS_Connecting \<longrightarrow>
      server_run status s = Some (is_transport_ready (status (n + 1)), s\<lparr>sv_running := True\<rparr>))"
proof
  show "server_run status s = None \<longleftrightarrow> (\<forall>j. status j = TS_Connecting)"
  proof
    assume none: "server_run status s = None"
    show "\<forall>j. status j = TS_Connecting"
    proof (rule ccontr)
      assume "\<not> (\<forall>j. status j = TS_Connecting)"
      then obtain n where "status n \<noteq> TS_Connecting" "\<forall>j < n. status j = TS_Connecting"
        using exists_least_iff [of "\<lambda>n. status n \<noteq> TS_Connecting"] by auto
      then have "run_poll status 0 = Some (n + 1)" using run_poll_eq [of n status 0] by simp
      with none show False by (simp add: server_run_def)
    qed
  next
    assume "\<forall>j. status j = TS_Connecting"
    then have "run_poll status 0 = None" using run_poll_Some [of status 0] by (cases "run_poll status 0") auto
    then show "server_run status s = None" by (simp add: server_run_def)
  qed
  show "(\<forall>j < n. status j = TS_Connecting) \<and> status n \<noteq> TS_Connecting \<longrightarrow>
      server_run status s = Some (is_transport_ready (status (n + 1)), s\<lparr>sv_running := True\<rparr>)"
    using run_poll_eq [of n status 0] by (simp add: server_run_def is_transport_ready_def)
qed

lemma server_run_outcome_witness:
  "server_run (\<lambda>i. if i < 3 then TS_Connecting else TS_Ready) (QuicRServer ()) =
     Some (True, (QuicRServer ())\<lparr>sv_running := True\<rparr>)"
  using server_run_outcome [of "\<lambda>i. if i < 3 then TS_Connecting else TS_Ready" "QuicRServer ()" 3]
  by (simp add: is_transport_ready_def)

end
