(* ===== verification/Machine_Shifts.thy ===== *)
theory Machine_Shifts
  imports Quicr_Namespace
begin

text \<open>
  What a compiled program computes where the language leaves a shift open. The language gives \<^verbatim>\<open>x >> n\<close> no
  meaning when \<open>n\<close> is 64 or more, and \<open>shr64\<close> answers \<open>undefined_behaviour\<close> there; on a machine the
  instruction leaves some value in the register. That value is a parameter \<open>machine\<close> of the definitions of this
  theory, which are the right shift of a name (\<^verbatim>\<open>src/quicr_name.cpp\<close>) and the constructor of a namespace
  (\<^verbatim>\<open>src/quicr_namespace.cpp\<close>) over again with \<open>shr64_on machine\<close> in the place of \<open>shr64\<close>. Nothing is assumed of
  the value: the results below hold for every function \<open>machine\<close>, and the two readings agree wherever the
  language defines the program. What a compiler may do beyond choosing a value, from the knowledge that such a shift is never
  executed, is outside of the model.
\<close>

unbundle bit_operations_syntax

type_synonym machine = "u64 \<Rightarrow> nat \<Rightarrow> u64"

definition shr64_on :: "machine \<Rightarrow> u64 \<Rightarrow> nat \<Rightarrow> u64 res" where
  "shr64_on machine x n = (case shr64 x n of Inr y \<Rightarrow> Inr y | Inl _ \<Rightarrow> Inr (machine x n))"

definition Name_shr_assign_on :: "machine \<Rightarrow> Name \<Rightarrow> u16 \<Rightarrow> Name res" where
  "Name_shr_assign_on machine n value =
     (let v = unat value in
      if v = 0 then Inr n
      else if v < uint64_t_bit_size then
        rbind (shr64_on machine (name_low n) v) (\<lambda>l.
        rbind (shl64 (name_hi n) (uint64_t_bit_size - v)) (\<lambda>carry.
        rbind (shr64_on machine (name_hi n) v) (\<lambda>h.
        Inr (Name h (l OR carry)))))
      else
        rbind (shr64_on machine (name_hi n) (v - uint64_t_bit_size)) (\<lambda>l. Inr (Name 0 l)))"

definition Name_shr_on :: "machine \<Rightarrow> Name \<Rightarrow> u16 \<Rightarrow> Name res" where
  "Name_shr_on machine n value = Name_shr_assign_on machine n value"

definition prefix_mask_on :: "machine \<Rightarrow> u8 \<Rightarrow> Name res" where
  "prefix_mask_on machine bits =
     rbind (Name_shr_on machine (Name_not zero_name) (ucast bits)) (\<lambda>m. Inr (Name_not m))"

definition mk_Namespace_on :: "machine \<Rightarrow> Name \<Rightarrow> u8 \<Rightarrow> Namespace res" where
  "mk_Namespace_on machine name bits =
     rbind (prefix_mask_on machine bits) (\<lambda>m. Inr \<lparr>ns_name = Name_and name m, sig_bits = bits\<rparr>)"

text \<open>The shift instruction of x86-64 takes the count modulo 64.\<close>

definition x86_64 :: machine where
  "x86_64 x n = drop_bit (n mod 64) x"

section \<open>The two readings\<close>

lemma shr64_on_eq [simp]: "shr64_on machine x n = Inr (if n < 64 then drop_bit n x else machine x n)"
  by (simp add: shr64_on_def shr64_def)

text \<open>Where the language defines a shift, a machine computes that value.\<close>

lemma Name_shr_on_defined:
  assumes "Name_shr n v = Inr m"
  shows "Name_shr_on machine n v = Inr m"
  using assms
  by (auto simp: Name_shr_def Name_shr_on_def Name_shr_assign_def Name_shr_assign_on_def Let_def rbind_Inr_iff
      shr64_def uint64_t_bit_size_def sizeof_Name_def split: if_splits)

text \<open>On a machine every shift of a name to the right yields a name.\<close>

lemma Name_shr_on_total: "\<exists>m. Name_shr_on machine n v = Inr m"
  by (simp add: Name_shr_on_def Name_shr_assign_on_def Let_def uint64_t_bit_size_def sizeof_Name_def)

lemma mk_Namespace_on_defined: "mk_Namespace n b = Inr ns \<Longrightarrow> mk_Namespace_on machine n b = Inr ns"
  by (auto simp: mk_Namespace_def mk_Namespace_on_def prefix_mask_def prefix_mask_on_def rbind_Inr_iff
      dest!: Name_shr_on_defined [of _ _ _ machine])

lemma mk_Namespace_on_total: "\<exists>ns. mk_Namespace_on machine n b = Inr ns"
  using Name_shr_on_total [of machine "Name_not zero_name" "ucast b"]
  by (auto simp: mk_Namespace_on_def prefix_mask_on_def)

end
