(* ===== verification/Subscriptions.thy ===== *)
theory Subscriptions
  imports Machine_Shifts
begin

text \<open>
  The relay's table of subscriptions, \<^verbatim>\<open>class Subscriptions\<close> (\<^verbatim>\<open>cmd/really/subscription.h\<close>,
  \<^verbatim>\<open>cmd/really/subscription.cpp\<close>): one map from masked names to sets of subscribers for every
  prefix length from 0 to 128. The abstract view, \<open>subs_abs\<close>, is the set of pairs of a namespace and
  a subscriber of it; adding is insertion there and finding is the set of subscribers
  of the namespaces that contain the name.

  All three operations build a \<^verbatim>\<open>quicr::Namespace\<close>, and \<open>find\<close> builds one of every length up to 128
  inclusive. For 128 bits the language gives that constructor no meaning (\<open>Namespace_prefix_match\<close>). The
  constructor is therefore an argument \<open>mk\<close> of the operations, and there are two readings of the program: with
  \<open>mk_Namespace\<close> every call of \<open>find\<close> is undefined, and with \<open>mk_Namespace_on machine\<close> it works with
  whatever value a machine leaves behind the shift. No namespace the table is given has 128
  bits, so the last map stays empty and the value does not matter to what is found.
\<close>

unbundle bit_operations_syntax

section \<open>The class\<close>

record Remote =
  rm_subscribe_id :: u64
  rm_context_id :: u64
  rm_stream_id :: u64

definition Remote_eq :: "Remote \<Rightarrow> Remote \<Rightarrow> bool" where
  "Remote_eq a b \<longleftrightarrow> rm_subscribe_id a = rm_subscribe_id b \<and> rm_context_id a = rm_context_id b \<and>
     rm_stream_id a = rm_stream_id b"

definition Remote_lt :: "Remote \<Rightarrow> Remote \<Rightarrow> bool" where
  "Remote_lt a b \<longleftrightarrow> rm_subscribe_id a < rm_subscribe_id b \<or>
     rm_subscribe_id a = rm_subscribe_id b \<and>
       (rm_context_id a < rm_context_id b \<or>
        rm_context_id a = rm_context_id b \<and> rm_stream_id a < rm_stream_id b)"

type_synonym subs_map = "(Name \<times> Remote list) list"
type_synonym Subscriptions = "subs_map list"
type_synonym namespace_ctor = "Name \<Rightarrow> u8 \<Rightarrow> Namespace res"

definition Subscriptions_new :: Subscriptions where
  "Subscriptions_new = replicate 129 []"

text \<open>\<^verbatim>\<open>subscriptions[len]\<close>\<close>

definition subscriptions_at :: "Subscriptions \<Rightarrow> int \<Rightarrow> subs_map res" where
  "subscriptions_at subs len =
     (if 0 \<le> len \<and> nat len < length subs then Inr (subs ! nat len) else Inl undefined_behaviour)"

definition Subscriptions_add ::
  "namespace_ctor \<Rightarrow> Name \<Rightarrow> int \<Rightarrow> Remote \<Rightarrow> Subscriptions \<Rightarrow> Subscriptions res" where
  "Subscriptions_add mk name len remote subs =
     rbind (mk name (word_of_int len)) (\<lambda>prefix.
     rbind (subscriptions_at subs len) (\<lambda>m.
     case map_find Name_lt (ns_name prefix) m of
       None \<Rightarrow>
         Inr (subs[nat len := map_emplace Name_lt (ns_name prefix) (set_insert Remote_lt remote []) m])
     | Some list \<Rightarrow>
         if \<not> set_has Remote_lt remote list then
           Inr (subs[nat len := map_set Name_lt (ns_name prefix) (set_insert Remote_lt remote list) m])
         else Inr subs))"

definition Subscriptions_remove ::
  "namespace_ctor \<Rightarrow> Name \<Rightarrow> int \<Rightarrow> Remote \<Rightarrow> Subscriptions \<Rightarrow> Subscriptions res" where
  "Subscriptions_remove mk name len remote subs =
     rbind (mk name (word_of_int len)) (\<lambda>prefix.
     rbind (subscriptions_at subs len) (\<lambda>m.
     case map_find Name_lt (ns_name prefix) m of
       None \<Rightarrow> Inr subs
     | Some list \<Rightarrow>
         if \<not> set_has Remote_lt remote list then
           Inr (subs[nat len := map_set Name_lt (ns_name prefix) (set_erase Remote_lt remote list) m])
         else Inr subs))"

text \<open>The loop of \<open>find\<close> over the lengths that are left, with the list gathered so far.\<close>

fun find_loop ::
  "namespace_ctor \<Rightarrow> Name \<Rightarrow> Subscriptions \<Rightarrow> int list \<Rightarrow> Remote list \<Rightarrow> Remote list res" where
  "find_loop mk name subs [] ret = Inr ret"
| "find_loop mk name subs (len # lens) ret =
     rbind (mk name (word_of_int len)) (\<lambda>prefix.
     rbind (subscriptions_at subs len) (\<lambda>m.
     find_loop mk name subs lens
       (case map_find Name_lt (ns_name prefix) m of None \<Rightarrow> ret | Some list \<Rightarrow> ret @ list)))"

definition Subscriptions_find :: "namespace_ctor \<Rightarrow> Name \<Rightarrow> Subscriptions \<Rightarrow> Remote list res" where
  "Subscriptions_find mk name subs = find_loop mk name subs [0..128] []"

section \<open>The table as a relation\<close>

interpretation remote_order: strict_total_order Remote_lt
  by unfold_locales (auto simp: Remote_lt_def not_less order.order_iff_strict)

definition name_masked :: "Name \<Rightarrow> nat \<Rightarrow> Name" where
  "name_masked n k = name_of_word (name_abs n AND prefix_word k)"

definition subs_abs :: "Subscriptions \<Rightarrow> (Namespace \<times> Remote) set" where
  "subs_abs subs = {(ns, r). unat (sig_bits ns) < length subs \<and>
     r \<in> set (map_get Name_lt [] (ns_name ns) (subs ! unat (sig_bits ns)))}"

text \<open>The invariant: 129 maps, each a well-formed map to well-formed sets, and at each length
  below 128 only names masked to it.\<close>

definition subs_map_wf :: "subs_map \<Rightarrow> bool" where
  "subs_map_wf m \<longleftrightarrow> map_wf Name_lt m \<and> list_all (\<lambda>e. set_wf Remote_lt (snd e)) m"

definition subs_wf :: "Subscriptions \<Rightarrow> bool" where
  "subs_wf subs \<longleftrightarrow> length subs = 129 \<and> list_all subs_map_wf subs \<and>
     (\<forall>k < 128. list_all (\<lambda>e. name_masked (fst e) k = fst e) (subs ! k))"

text \<open>What the lemmas use of a constructor: that it is the one of the class below 128 bits, which holds of
  both readings, and that it moreover yields some namespace at 128, which holds on every machine.\<close>

definition ctor_agrees :: "namespace_ctor \<Rightarrow> bool" where
  "ctor_agrees mk \<longleftrightarrow> (\<forall>n b. b < 128 \<longrightarrow> mk n b = mk_Namespace n b)"

definition ctor_defined :: "namespace_ctor \<Rightarrow> bool" where
  "ctor_defined mk \<longleftrightarrow> ctor_agrees mk \<and> (\<forall>n. \<exists>ns. mk n 128 = Inr ns)"

lemma ctor_defined_machine: "ctor_defined (mk_Namespace_on machine)"
  by (simp add: ctor_defined_def ctor_agrees_def mk_Namespace_ok mk_Namespace_on_defined mk_Namespace_on_total)

lemma ctor_agrees_class: "ctor_agrees mk_Namespace"
  by (simp add: ctor_agrees_def)

lemma ctor_defined_agrees: "ctor_defined mk \<Longrightarrow> ctor_agrees mk"
  by (simp add: ctor_defined_def)

lemmas ctor_agrees_machine = ctor_defined_agrees [OF ctor_defined_machine]

lemma ctor_below: "ctor_agrees mk \<Longrightarrow> b < 128 \<Longrightarrow>
    mk n b = Inr \<lparr>ns_name = name_masked n (unat b), sig_bits = b\<rparr>"
  by (simp add: ctor_agrees_def mk_Namespace_ok name_masked_def)

lemma subs_wf_new: "subs_wf Subscriptions_new"
  by (simp add: subs_wf_def Subscriptions_new_def subs_map_wf_def list_all_length)

lemma subs_abs_new: "subs_abs Subscriptions_new = {}"
  by (auto simp: subs_abs_def Subscriptions_new_def)

lemma subs_map_get_wf: "subs_map_wf m \<Longrightarrow> set_wf Remote_lt (map_get Name_lt [] n m)"
  using map_find_in_set [of Name_lt n m]
  by (fastforce simp: subs_map_wf_def map_get_def list_all_iff split: option.splits)

lemma subs_map_wf_set:
  assumes "subs_map_wf m" and "set_wf Remote_lt rs"
  shows "subs_map_wf (map_set Name_lt n rs m)"
  using assms map_set_values [of Name_lt n rs m]
  by (fastforce simp: subs_map_wf_def name_order.wf_set list_all_iff)

text \<open>Adding is one update of the map at the length: what it becomes, whatever was there.\<close>

lemma add_map_set:
  assumes "map_wf Name_lt m"
  shows "(case map_find Name_lt n m of
      None \<Rightarrow> map_emplace Name_lt n (set_insert Remote_lt r []) m
    | Some list \<Rightarrow> if \<not> set_has Remote_lt r list
        then map_set Name_lt n (set_insert Remote_lt r list) m else m) =
    map_set Name_lt n (set_insert Remote_lt r (map_get Name_lt [] n m)) m"
proof (cases "map_find Name_lt n m")
  case None
  then show ?thesis by (simp add: map_emplace_def map_has_def map_get_def)
next
  case (Some list)
  have same: "map_set Name_lt n list m = m"
    by (rule name_order.wf_ext)
      (use assms Some in \<open>auto simp: name_order.wf_set name_order.find_set name_order.eqv_iff_eq\<close>)
  show ?thesis
    using Some same
    by (simp add: map_get_def set_insert_def set_has_def map_emplace_def comp_def)
qed

section \<open>The operations on the abstract view\<close>

lemma add_ok:
  assumes "ctor_agrees mk" and "subs_wf subs" and "ns_wf ns"
  shows "Subscriptions_add mk (ns_name ns) (uint (sig_bits ns)) r subs =
    Inr (subs[unat (sig_bits ns) := map_set Name_lt (ns_name ns)
      (set_insert Remote_lt r (map_get Name_lt [] (ns_name ns) (subs ! unat (sig_bits ns))))
      (subs ! unat (sig_bits ns))])"
proof -
  have less: "sig_bits ns < 128" using assms(3) by (simp add: ns_wf_def)
  then have mk: "mk (ns_name ns) (sig_bits ns) = Inr ns"
    using assms(1,3) by (simp add: ctor_agrees_def mk_Namespace_self)
  have k: "unat (sig_bits ns) < length subs" "subs_map_wf (subs ! unat (sig_bits ns))"
    using assms(2) less by (auto simp: subs_wf_def list_all_length sig_bits_less_iff)
  then have wf: "map_wf Name_lt (subs ! unat (sig_bits ns))" by (simp add: subs_map_wf_def)
  show ?thesis
    using add_map_set [OF wf, of "ns_name ns" r] k(1)
    by (auto simp: Subscriptions_add_def mk subscriptions_at_def list_update_id split: option.splits)
qed

lemma name_masked_self: "ns_wf ns \<Longrightarrow> name_masked (ns_name ns) (unat (sig_bits ns)) = ns_name ns"
  by (simp add: ns_wf_def name_masked_def)

lemma subs_wf_add:
  assumes "ctor_agrees mk" and "subs_wf subs" and "ns_wf ns"
    and "Subscriptions_add mk (ns_name ns) (uint (sig_bits ns)) r subs = Inr subs'"
  shows "subs_wf subs'"
proof -
  let ?k = "unat (sig_bits ns)" and ?n = "ns_name ns"
  let ?m = "map_set Name_lt ?n (set_insert Remote_lt r (map_get Name_lt [] ?n (subs ! ?k))) (subs ! ?k)"
  have k: "?k < 128" using assms(3) by (simp add: ns_wf_def sig_bits_less_iff)
  have subs': "subs' = subs[?k := ?m]" using add_ok [OF assms(1-3)] assms(4) by simp
  have "subs_map_wf (subs ! ?k)" using assms(2) k by (auto simp: subs_wf_def list_all_length)
  then have "subs_map_wf ?m"
    by (intro subs_map_wf_set) (auto intro: remote_order.set_insert_wf subs_map_get_wf)
  moreover have "list_all (\<lambda>e. name_masked (fst e) ?k = fst e) ?m"
    using assms(2) k map_set_keys [of Name_lt ?n _ "subs ! ?k"] name_masked_self [OF assms(3)]
    by (fastforce simp: subs_wf_def list_all_iff)
  ultimately show ?thesis
    using assms(2) k unfolding subs_wf_def subs'
    by (auto simp: list_all_length nth_list_update)
qed

lemma subs_abs_add:
  assumes "ctor_agrees mk" and "subs_wf subs" and "ns_wf ns"
    and "Subscriptions_add mk (ns_name ns) (uint (sig_bits ns)) r subs = Inr subs'"
  shows "subs_abs subs' = insert (ns, r) (subs_abs subs)"
proof -
  let ?k = "unat (sig_bits ns)" and ?n = "ns_name ns"
  have k: "?k < length subs" using assms(2,3) by (simp add: subs_wf_def ns_wf_def sig_bits_less_iff)
  have subs': "subs' = subs[?k := map_set Name_lt ?n
      (set_insert Remote_lt r (map_get Name_lt [] ?n (subs ! ?k))) (subs ! ?k)]"
    using add_ok [OF assms(1-3)] assms(4) by simp
  have m: "subs_map_wf (subs ! ?k)" "map_wf Name_lt (subs ! ?k)"
    using assms(2) k by (auto simp: subs_wf_def list_all_length subs_map_wf_def)
  have eq: "ns = ns'" if "unat (sig_bits ns') = ?k" "ns_name ns' = ?n" for ns' :: Namespace
    using that by (intro Namespace.equality) (simp_all add: word_unat_eq_iff)
  have "(ns', r') \<in> subs_abs subs' \<longleftrightarrow> (ns', r') \<in> insert (ns, r) (subs_abs subs)" for ns' r'
  proof (cases "unat (sig_bits ns') = ?k")
    case False
    then show ?thesis by (auto simp: subs_abs_def subs')
  next
    case True
    have get: "map_get Name_lt [] n (map_set Name_lt ?n rs (subs ! ?k)) =
        (if n = ?n then rs else map_get Name_lt [] n (subs ! ?k))" for n rs
      by (simp add: map_get_def name_order.find_set [OF m(2)] name_order.eqv_iff_eq)
    show ?thesis
      using True k eq [of ns']
      by (auto simp: subs_abs_def subs' get remote_order.set_set_insert subs_map_get_wf [OF m(1)])
  qed
  then show ?thesis by auto
qed

lemma remove_noop:
  assumes "ctor_agrees mk" and "subs_wf subs" and "ns_wf ns"
  shows "Subscriptions_remove mk (ns_name ns) (uint (sig_bits ns)) r subs = Inr subs"
proof -
  let ?k = "unat (sig_bits ns)"
  have less: "sig_bits ns < 128" using assms(3) by (simp add: ns_wf_def)
  then have mk: "mk (ns_name ns) (sig_bits ns) = Inr ns"
    using assms(1,3) by (simp add: ctor_agrees_def mk_Namespace_self)
  have k: "?k < length subs" "map_wf Name_lt (subs ! ?k)"
    using assms(2) less by (auto simp: subs_wf_def list_all_length subs_map_wf_def sig_bits_less_iff)
  have same: "subs[?k := map_set Name_lt n l (subs ! ?k)] = subs" if "map_find Name_lt n (subs ! ?k) = Some l" for n l
  proof -
    have "map_set Name_lt n l (subs ! ?k) = subs ! ?k"
      by (rule name_order.wf_ext)
        (use k(2) that in \<open>auto simp: name_order.wf_set name_order.find_set name_order.eqv_iff_eq\<close>)
    then show ?thesis by (metis list_update_id)
  qed
  show ?thesis
    using k(1) by (auto simp: Subscriptions_remove_def mk subscriptions_at_def set_erase_absent same
        split: option.splits)
qed

section \<open>Finding the subscribers of a name\<close>

definition found_at :: "Subscriptions \<Rightarrow> Name \<Rightarrow> nat \<Rightarrow> Remote list" where
  "found_at subs name k = map_get Name_lt [] (name_masked name k) (subs ! k)"

lemma find_loop_append:
  "find_loop mk name subs (xs @ ys) ret = rbind (find_loop mk name subs xs ret) (find_loop mk name subs ys)"
proof (induction xs arbitrary: ret)
  case (Cons x xs)
  then show ?case
    by (cases "mk name (word_of_int x)"; cases "subscriptions_at subs x") simp_all
qed simp

lemma find_loop_below:
  assumes "ctor_agrees mk" and "length subs = 129"
  shows "\<forall>k \<in> set ks. k < 128 \<Longrightarrow>
    find_loop mk name subs (map int ks) ret = Inr (ret @ concat (map (found_at subs name) ks))"
proof (induction ks arbitrary: ret)
  case (Cons k ks)
  then have "k < 128" by simp
  then have b: "unat (word_of_nat k :: u8) = k" by (simp add: unsigned_of_nat take_bit_nat_eq_self)
  then have "(word_of_nat k :: u8) < 128" using \<open>k < 128\<close> by (simp add: sig_bits_less_iff)
  from ctor_below [OF assms(1) this, of name] b
  have mk: "mk name (word_of_nat k) = Inr \<lparr>ns_name = name_masked name k, sig_bits = word_of_nat k\<rparr>" by simp
  have at: "subscriptions_at subs (int k) = Inr (subs ! k)"
    using \<open>k < 128\<close> assms(2) by (simp add: subscriptions_at_def)
  have "(case map_find Name_lt (name_masked name k) (subs ! k) of None \<Rightarrow> ret | Some list \<Rightarrow> ret @ list) =
      ret @ found_at subs name k"
    by (simp add: found_at_def map_get_def split: option.split)
  with Cons show ?case by (simp add: mk at)
qed simp

lemma upto_int: "[0..int n] = map int [0..<n] @ [int n]"
proof -
  have "[0..int n] = map int [0..<Suc n]" by (rule nth_equalityI) (simp_all add: nth_upto del: upt_Suc)
  then show ?thesis by simp
qed

lemmas lengths_split = upto_int [of 128, unfolded of_nat_numeral]

text \<open>\<open>find\<close> is the concatenation over the lengths, in increasing order.\<close>

lemma find_eq:
  assumes "ctor_agrees mk" and "length subs = 129" and "mk name 128 = Inr w"
  shows "Subscriptions_find mk name subs =
    Inr (concat (map (found_at subs name) [0..<128]) @ map_get Name_lt [] (ns_name w) (subs ! 128))"
proof -
  have "find_loop mk name subs (map int [0..<128]) [] = Inr (concat (map (found_at subs name) [0..<128]))"
    using find_loop_below [OF assms(1,2), of "[0..<128]" name "[]"] by simp
  with assms(2,3) show ?thesis
    unfolding Subscriptions_find_def lengths_split find_loop_append
    by (simp add: subscriptions_at_def map_get_def split: option.split)
qed

text \<open>With the constructor of the language the last round of the loop is undefined.\<close>

lemma lookup_undefined: "Subscriptions_find mk_Namespace name subs = Inl undefined_behaviour"
proof -
  have last: "find_loop mk_Namespace name subs [128] ret = Inl undefined_behaviour" for ret
    by (simp add: mk_Namespace_ub)
  have "find_loop mk_Namespace name subs xs ret = Inl undefined_behaviour \<or>
      (\<exists>ret'. find_loop mk_Namespace name subs xs ret = Inr ret')" for xs ret
  proof (induction xs arbitrary: ret)
    case (Cons x xs)
    then show ?case
      by (cases "(word_of_int x :: u8) < 128"; cases "subscriptions_at subs x")
        (auto simp: mk_Namespace_ok mk_Namespace_ub subscriptions_at_def split: if_splits)
  qed simp
  from this [of "map int [0..<128]" "[]"] show ?thesis
    unfolding Subscriptions_find_def lengths_split find_loop_append using last by auto
qed

lemma found_at_abs:
  assumes "length subs = 129" and "k < 128"
  shows "r \<in> set (found_at subs name k) \<longleftrightarrow>
    (\<lparr>ns_name = name_masked name k, sig_bits = word_of_nat k\<rparr>, r) \<in> subs_abs subs"
proof -
  have "unat (word_of_nat k :: u8) = k" using assms(2) by (simp add: unsigned_of_nat take_bit_nat_eq_self)
  with assms show ?thesis by (simp add: subs_abs_def found_at_def)
qed

lemma found_at_distinct: "subs_wf subs \<Longrightarrow> k < 128 \<Longrightarrow> distinct (found_at subs name k)"
proof -
  assume "subs_wf subs" "k < 128"
  then have "subs_map_wf (subs ! k)" by (simp add: subs_wf_def list_all_length)
  then have "set_wf Remote_lt (found_at subs name k)" unfolding found_at_def by (rule subs_map_get_wf)
  then show "distinct (found_at subs name k)"
    unfolding set_wf_def using remote_order.distinct_keys by (fastforce simp: comp_def)
qed

text \<open>The namespaces of length below 128 that contain a name are its masked forms.\<close>

lemma contains_iff_masked:
  assumes "ns_wf ns"
  shows "contains ns name = Inr True \<longleftrightarrow> name_masked name (unat (sig_bits ns)) = ns_name ns"
proof -
  have "sig_bits ns < 128" using assms by (simp add: ns_wf_def)
  then show ?thesis
    by (auto simp: contains_def prefix_mask_ok name_masked_def simp flip: name_abs_inj)
qed

section \<open>Sequences of calls\<close>

datatype subs_call = Add_call Namespace Remote | Remove_call Namespace Remote

fun call_namespace :: "subs_call \<Rightarrow> Namespace" where
  "call_namespace (Add_call ns r) = ns"
| "call_namespace (Remove_call ns r) = ns"

fun subs_exec :: "namespace_ctor \<Rightarrow> subs_call \<Rightarrow> Subscriptions \<Rightarrow> Subscriptions res" where
  "subs_exec mk (Add_call ns r) subs = Subscriptions_add mk (ns_name ns) (uint (sig_bits ns)) r subs"
| "subs_exec mk (Remove_call ns r) subs = Subscriptions_remove mk (ns_name ns) (uint (sig_bits ns)) r subs"

fun subs_run :: "namespace_ctor \<Rightarrow> subs_call list \<Rightarrow> Subscriptions \<Rightarrow> Subscriptions res" where
  "subs_run mk [] subs = Inr subs"
| "subs_run mk (c # cs) subs = rbind (subs_exec mk c subs) (subs_run mk cs)"

lemma subs_run_ok:
  assumes "ctor_agrees mk" and "list_all (\<lambda>c. ns_wf (call_namespace c)) cs" and "subs_wf subs"
    and "subs ! 128 = []"
  shows "\<exists>subs'. subs_run mk cs subs = Inr subs' \<and> subs_wf subs' \<and> subs' ! 128 = [] \<and>
    subs_abs subs' = subs_abs subs \<union> {(ns, r). Add_call ns r \<in> set cs}"
  using assms(2-)
proof (induction cs arbitrary: subs)
  case (Cons c cs)
  show ?case
  proof (cases c)
    case (Add_call ns r)
    then have ns: "ns_wf ns" using Cons.prems(1) by simp
    obtain t where t: "Subscriptions_add mk (ns_name ns) (uint (sig_bits ns)) r subs = Inr t"
      using add_ok [OF assms(1) Cons.prems(2) ns] by blast
    have "unat (sig_bits ns) \<noteq> 128" using ns by (auto simp: ns_wf_def sig_bits_less_iff)
    then have t128: "t ! 128 = []"
      using add_ok [OF assms(1) Cons.prems(2) ns, of r] t Cons.prems(3) by auto
    from Cons.IH [OF _ subs_wf_add [OF assms(1) Cons.prems(2) ns t] t128] Cons.prems(1)
    obtain u where u: "subs_run mk cs t = Inr u" "subs_wf u" "u ! 128 = []"
      "subs_abs u = subs_abs t \<union> {(ns, r). Add_call ns r \<in> set cs}" by auto
    with t Add_call show ?thesis
      by (auto simp: subs_abs_add [OF assms(1) Cons.prems(2) ns t])
  next
    case (Remove_call ns r)
    then have ns: "ns_wf ns" using Cons.prems(1) by simp
    from Cons.IH [OF _ Cons.prems(2,3)] Cons.prems(1)
    obtain u where "subs_run mk cs subs = Inr u" "subs_wf u" "u ! 128 = []"
      "subs_abs u = subs_abs subs \<union> {(ns, r). Add_call ns r \<in> set cs}" by auto
    with Remove_call show ?thesis by (simp add: remove_noop [OF assms(1) Cons.prems(2) ns])
  qed
qed simp

text \<open>On namespaces below 128 bits the two readings run alike.\<close>

lemma subs_run_agree:
  assumes "ctor_agrees mk" and "ctor_agrees mk'" and "list_all (\<lambda>c. ns_wf (call_namespace c)) cs"
  shows "subs_run mk cs subs = subs_run mk' cs subs"
  using assms(3)
proof (induction cs arbitrary: subs)
  case (Cons c cs)
  have "mk n b = mk' n b" if "b < 128" for n b using assms(1,2) that by (simp add: ctor_agrees_def)
  then have "subs_exec mk c subs = subs_exec mk' c subs"
    using Cons.prems by (cases c) (simp_all add: Subscriptions_add_def Subscriptions_remove_def ns_wf_def)
  with Cons show ?case by (cases "subs_exec mk' c subs") simp_all
qed simp

lemma count_concat: "count_list (concat xss) x = sum_list (map (\<lambda>xs. count_list xs x) xss)"
  by (induction xss) simp_all

lemma count_distinct: "distinct xs \<Longrightarrow> count_list xs x = (if x \<in> set xs then 1 else 0)"
  by (induction xs) auto

lemma count_card_mem:
  assumes "\<forall>r. count_list rs r = card (N r)" and "r \<in> set rs"
  obtains x where "x \<in> N r"
proof -
  have "card (N r) \<noteq> 0" using assms by (metis count_list_0_iff)
  then have "N r \<noteq> {}" by auto
  with that show ?thesis by blast
qed

text \<open>How often a subscriber is found: once for every namespace of it that contains the name.\<close>

lemma find_count:
  assumes "ctor_defined mk" and "subs_wf subs" and "subs ! 128 = []"
  shows "\<exists>rs. Subscriptions_find mk name subs = Inr rs \<and>
    (\<forall>r. count_list rs r = card {ns. ns_wf ns \<and> (ns, r) \<in> subs_abs subs \<and> contains ns name = Inr True})"
proof -
  let ?rs = "concat (map (found_at subs name) [0..<128])"
  let ?ns = "\<lambda>k. \<lparr>ns_name = name_masked name k, sig_bits = word_of_nat k\<rparr> :: Namespace"
  have len: "length subs = 129" using assms(2) by (simp add: subs_wf_def)
  obtain w where w: "mk name 128 = Inr w" using assms(1) unfolding ctor_defined_def by blast
  have find: "Subscriptions_find mk name subs = Inr ?rs"
    using find_eq [OF ctor_defined_agrees [OF assms(1)] len w] assms(3) by (simp only: map_find_Nil_get append_Nil2)
  have b: "unat (word_of_nat k :: u8) = k" if "k < 128" for k
    using that by (simp add: unsigned_of_nat take_bit_nat_eq_self)
  have count: "count_list ?rs r = card {ns. ns_wf ns \<and> (ns, r) \<in> subs_abs subs \<and> contains ns name = Inr True}" for r
  proof -
    let ?K = "{k. k < 128 \<and> (?ns k, r) \<in> subs_abs subs}"
    have "count_list ?rs r = (\<Sum>k \<leftarrow> [0..<128]. if (?ns k, r) \<in> subs_abs subs then 1 else 0)"
      unfolding count_concat map_map
      by (intro arg_cong [where f = sum_list] map_cong refl)
        (simp add: count_distinct found_at_distinct [OF assms(2)] found_at_abs [OF len])
    also have "\<dots> = (\<Sum>k < 128. if (?ns k, r) \<in> subs_abs subs then 1 else 0)"
      by (simp add: interv_sum_list_conv_sum_set_nat atLeast0LessThan)
    also have "\<dots> = card ?K" by (simp add: sum.If_cases Int_def)
    also have "\<dots> = card (?ns ` ?K)"
      by (rule card_image [symmetric]) (auto intro!: inj_onI dest!: arg_cong [where f = unat] simp: b)
    also have "?ns ` ?K = {ns. ns_wf ns \<and> (ns, r) \<in> subs_abs subs \<and> contains ns name = Inr True}"
    proof (intro set_eqI iffI)
      fix ns assume "ns \<in> ?ns ` ?K"
      then obtain k where k: "ns = ?ns k" "k < 128" "(?ns k, r) \<in> subs_abs subs" by auto
      have "mk_Namespace name (word_of_nat k) = Inr ns"
        using k b by (simp add: mk_Namespace_ok sig_bits_less_iff name_masked_def)
      then have wf: "ns_wf ns" by (rule mk_Namespace_wf)
      with k b show "ns \<in> {ns. ns_wf ns \<and> (ns, r) \<in> subs_abs subs \<and> contains ns name = Inr True}"
        by (simp add: contains_iff_masked)
    next
      fix ns assume "ns \<in> {ns. ns_wf ns \<and> (ns, r) \<in> subs_abs subs \<and> contains ns name = Inr True}"
      then have ns: "ns_wf ns" "(ns, r) \<in> subs_abs subs" "name_masked name (unat (sig_bits ns)) = ns_name ns"
        using contains_iff_masked [of ns name] by auto
      then have "ns = ?ns (unat (sig_bits ns))" by (intro Namespace.equality) simp_all
      moreover have "unat (sig_bits ns) < 128" using ns(1) by (simp add: ns_wf_def sig_bits_less_iff)
      ultimately show "ns \<in> ?ns ` ?K" using ns(2) by (intro image_eqI [of _ _ "unat (sig_bits ns)"]) auto
    qed
    finally show ?thesis .
  qed
  from find count show ?thesis by blast
qed

section \<open>Correctness\<close>

text \<open>C13. The table refines the set of pairs of a namespace and a subscriber. Any sequence of additions
  and removals of namespaces below 128 bits is defined and ends in a table that holds exactly the
  pairs ever added: an addition is never lost and is held once however often it is
  repeated, and a removal takes nothing away. Looking a name up in it is undefined in the language; a
  machine, whatever value it leaves behind the undefined shift, comes to the same table and finds a subscriber once for
  every namespace it was added under that contains the name.\<close>

theorem subscriptions_refinement:
  assumes "list_all (\<lambda>c. ns_wf (call_namespace c)) calls"
  shows "\<exists>subs rs. subs_run mk_Namespace calls Subscriptions_new = Inr subs \<and>
    subs_abs subs = {(ns, r). Add_call ns r \<in> set calls} \<and>
    Subscriptions_find mk_Namespace name subs = Inl undefined_behaviour \<and>
    subs_run (mk_Namespace_on machine) calls Subscriptions_new = Inr subs \<and>
    Subscriptions_find (mk_Namespace_on machine) name subs = Inr rs \<and>
    (\<forall>r. count_list rs r = card {ns. Add_call ns r \<in> set calls \<and> contains ns name = Inr True})"
proof -
  have "Subscriptions_new ! 128 = []" by (simp add: Subscriptions_new_def)
  then obtain subs where subs: "subs_run mk_Namespace calls Subscriptions_new = Inr subs" "subs_wf subs" "subs ! 128 = []"
    "subs_abs subs = {(ns, r). Add_call ns r \<in> set calls}"
    using subs_run_ok [OF ctor_agrees_class assms subs_wf_new] by (auto simp: subs_abs_new)
  have "ns_wf ns" if "Add_call ns r \<in> set calls" for ns r
    using assms that by (fastforce simp: list_all_iff)
  then have "{ns. ns_wf ns \<and> (ns, r) \<in> subs_abs subs \<and> contains ns name = Inr True} =
      {ns. Add_call ns r \<in> set calls \<and> contains ns name = Inr True}" for r
    unfolding subs(4) by auto
  with find_count [OF ctor_defined_machine subs(2,3), of machine name] subs(1,4) show ?thesis
    by (auto simp: lookup_undefined subs_run_agree [OF ctor_agrees_machine ctor_agrees_class assms])
qed

definition sample_remote :: Remote where
  "sample_remote = \<lparr>rm_subscribe_id = 7, rm_context_id = 0, rm_stream_id = 0\<rparr>"

theorem subscriptions_refinement_witness:
  "\<exists>subs rs. subs_run mk_Namespace
       [Add_call \<lparr>ns_name = zero_name, sig_bits = 8\<rparr> sample_remote,
        Remove_call \<lparr>ns_name = zero_name, sig_bits = 8\<rparr> sample_remote] Subscriptions_new = Inr subs \<and>
     Subscriptions_find mk_Namespace (Name 0 5) subs = Inl undefined_behaviour \<and>
     Subscriptions_find (mk_Namespace_on x86_64) (Name 0 5) subs = Inr rs \<and> count_list rs sample_remote = 1"
proof -
  let ?ns = "\<lparr>ns_name = zero_name, sig_bits = 8\<rparr> :: Namespace"
  let ?calls = "[Add_call ?ns sample_remote, Remove_call ?ns sample_remote]"
  have "ns_wf ?ns" by (simp add: ns_wf_def)
  then have "list_all (\<lambda>c. ns_wf (call_namespace c)) ?calls" by simp
  from subscriptions_refinement [OF this, of "Name 0 5" x86_64]
  obtain subs rs where s: "subs_run mk_Namespace ?calls Subscriptions_new = Inr subs"
    "Subscriptions_find mk_Namespace (Name 0 5) subs = Inl undefined_behaviour"
    "Subscriptions_find (mk_Namespace_on x86_64) (Name 0 5) subs = Inr rs"
    "count_list rs sample_remote = card {ns. Add_call ns sample_remote \<in> set ?calls \<and> contains ns (Name 0 5) = Inr True}"
    by blast
  have "contains ?ns (Name 0 5) = Inr True" by code_simp
  then have "{ns. Add_call ns sample_remote \<in> set ?calls \<and> contains ns (Name 0 5) = Inr True} = {?ns}" by auto
  with s show ?thesis by auto
qed

text \<open>C35. As the class stands, every lookup is undefined, whatever the table holds: the last round of
  the loop builds a namespace of 128 bits.\<close>

theorem find_undefined: "Subscriptions_find mk_Namespace name subs = Inl undefined_behaviour"
  by (rule lookup_undefined)

end
