(* ===== verification/Really.thy ===== *)
theory Really
  imports Quicr_Server Subscriptions
begin

text \<open>
  The relay, \<^verbatim>\<open>class ReallyServer\<close> of \<^verbatim>\<open>cmd/really/really.cpp\<close>: a \<^verbatim>\<open>ServerDelegate\<close> that keeps the
  table of \<^verbatim>\<open>Subscriptions\<close> and calls back into its server. The callbacks are assembled into
  \<open>really_delegate\<close>; \<open>mk\<close> is the constructor of namespaces the table uses (see
  \<^verbatim>\<open>Subscriptions\<close>). The relay is an instance of the delegate contract, and the results on
  subscribing, unsubscribing, losing a connection and forwarding are about the server with this
  delegate. The log lines are left out; the process around the relay is the subject of \<^verbatim>\<open>Really_Main\<close>.
\<close>

section \<open>The callbacks\<close>

type_synonym relay = "Subscriptions Server"

definition remote_of :: "u64 \<Rightarrow> Remote" where
  "remote_of subscriber_id = \<lparr>rm_subscribe_id = subscriber_id, rm_context_id = 0, rm_stream_id = 0\<rparr>"

definition really_onPublishIntent :: "Namespace \<Rightarrow> bytes \<Rightarrow> (relay, unit) op" where
  "really_onPublishIntent ns e2e_token =
     publishIntentResponse ns \<lparr>pres_status = Response_Ok, pres_redirectInfo = empty_RelayInfo, reassignedName = zero_name\<rparr>"

definition really_onPublishIntentEnd :: "Namespace \<Rightarrow> bytes \<Rightarrow> (relay, unit) op" where
  "really_onPublishIntentEnd ns e2e_token = op_return ()"

definition forward_to ::
  "TransportContextId \<Rightarrow> StreamId \<Rightarrow> PublishDatagram \<Rightarrow> Remote \<Rightarrow> (relay, unit) op" where
  "forward_to context_id stream_id datagram dest =
     (if rm_context_id dest = context_id \<and> rm_stream_id dest = stream_id then op_return ()
      else sendNamedObject (rm_subscribe_id dest) datagram)"

definition really_onPublisherObject ::
  "namespace_ctor \<Rightarrow> TransportContextId \<Rightarrow> StreamId \<Rightarrow> PublishDatagram \<Rightarrow> (relay, unit) op" where
  "really_onPublisherObject mk context_id stream_id datagram =
     op_bind (op_get sv_delegate) (\<lambda>subs.
     op_bind (op_lift (Subscriptions_find mk (h_name (pd_header datagram)) subs)) (\<lambda>list.
     op_for list (forward_to context_id stream_id datagram)))"

definition really_onUnsubscribe :: "namespace_ctor \<Rightarrow> Namespace \<Rightarrow> u64 \<Rightarrow> (relay, unit) op" where
  "really_onUnsubscribe mk ns subscriber_id =
     op_then (subscriptionEnded subscriber_id ns Status_Ok) (
     op_bind (op_get sv_delegate) (\<lambda>subs.
     op_bind (op_lift (Subscriptions_remove mk (ns_name ns) (uint (sig_bits ns)) (remote_of subscriber_id) subs)) (\<lambda>subs'.
     op_modify (\<lambda>s. s\<lparr>sv_delegate := subs'\<rparr>))))"

definition really_onSubscribe ::
  "namespace_ctor \<Rightarrow> Namespace \<Rightarrow> u64 \<Rightarrow> TransportContextId \<Rightarrow> StreamId \<Rightarrow> SubscribeIntent \<Rightarrow> (relay, unit) op" where
  "really_onSubscribe mk ns subscriber_id context_id stream_id subscribe_intent =
     op_bind (op_get sv_delegate) (\<lambda>subs.
     op_bind (op_lift (Subscriptions_add mk (ns_name ns) (uint (sig_bits ns)) (remote_of subscriber_id) subs)) (\<lambda>subs'.
     op_then (op_modify (\<lambda>s. s\<lparr>sv_delegate := subs'\<rparr>))
       (subscribeResponse subscriber_id ns (SubscribeResult_of Status_Ok))))"

definition really_delegate :: "namespace_ctor \<Rightarrow> Subscriptions ServerDelegate" where
  "really_delegate mk =
     \<lparr>onPublishIntent = really_onPublishIntent, onPublishIntentEnd = really_onPublishIntentEnd,
      onPublisherObject = really_onPublisherObject mk, onSubscribe = really_onSubscribe mk,
      onUnsubscribe = really_onUnsubscribe mk\<rparr>"

definition ReallyServer :: relay where
  "ReallyServer = QuicRServer Subscriptions_new"

interpretation really: server_delegate "really_delegate mk" for mk
  by unfold_locales
    (simp_all add: really_delegate_def really_onPublishIntent_def really_onPublishIntentEnd_def
      really_onPublisherObject_def really_onSubscribe_def really_onUnsubscribe_def forward_to_def
      public_intros)

section \<open>What the relay keeps invariant\<close>

definition zero_remote :: "Remote \<Rightarrow> bool" where
  "zero_remote r \<longleftrightarrow> rm_context_id r = 0 \<and> rm_stream_id r = 0"

text \<open>The subscribers listed in the table under a masked name, with any length.\<close>

definition listed :: "Subscriptions \<Rightarrow> Name \<Rightarrow> Remote set" where
  "listed subs n = {r. \<exists>ns. ns_wf ns \<and> ns_name ns = n \<and> (ns, r) \<in> subs_abs subs}"

definition all_listed :: "Subscriptions \<Rightarrow> Namespace \<times> subscriber_map \<Rightarrow> bool" where
  "all_listed subs e \<longleftrightarrow>
     list_all (\<lambda>c. remote_of (ssc_subscriber_id (snd c)) \<in> listed subs (ns_name (fst e))) (snd e)"

text \<open>The table and the server's subscriptions: every subscriber the server knows under a
  namespace is in the table under that name, the table has nothing of length 128, and nothing in it
  names the connection it came from.\<close>

definition table_inv :: "relay \<Rightarrow> bool" where
  "table_inv s \<longleftrightarrow> subs_wf (sv_delegate s) \<and> sv_delegate s ! 128 = [] \<and>
     subs_abs (sv_delegate s) \<subseteq> {p. zero_remote (snd p)} \<and>
     list_all (all_listed (sv_delegate s)) (sv_subscribe_state s)"

definition relay_inv :: "relay \<Rightarrow> bool" where
  "relay_inv s \<longleftrightarrow> server_inv s \<and> table_inv s"

lemma keeps_conj: "op_keeps A m \<Longrightarrow> op_keeps B m \<Longrightarrow> op_keeps (\<lambda>s. A s \<and> B s) m"
  by (simp add: op_keeps_def)

lemma relay_inv_keeps: "op_keeps server_inv m \<Longrightarrow> op_keeps table_inv m \<Longrightarrow> op_keeps relay_inv m"
  unfolding relay_inv_def [abs_def] by (rule keeps_conj)

lemma table_modify:
  "(\<And>s. sv_delegate (f s) = sv_delegate s) \<Longrightarrow> (\<And>s. sv_subscribe_state (f s) = sv_subscribe_state s) \<Longrightarrow>
     op_keeps table_inv (op_modify f)"
  by (rule keeps_modify) (simp add: table_inv_def)

lemma table_methods:
  "op_keeps table_inv (publishIntentResponse ns result)" "op_keeps table_inv (subscribeResponse i ns res)"
  "op_keeps table_inv (subscriptionEnded i ns reason)" "op_keeps table_inv (sendNamedObject i datagram)"
  unfolding publishIntentResponse_def subscribeResponse_def subscriptionEnded_def sendNamedObject_def
    server_enqueue_def
  by (intro keeps_intros table_modify; simp)+

lemma all_listed_Nil [simp]: "all_listed subs (ns, [])"
  by (simp add: all_listed_def)

lemma table_subscribers:
  assumes "\<And>m. set (f m) \<subseteq> set m"
  shows "op_keeps table_inv (op_modify (\<lambda>s. set_subscribers ns (f (subscribers_of ns s)) s))"
proof (rule keeps_modify)
  fix s assume inv: "table_inv s"
  let ?L = "all_listed (sv_delegate s)"
  have shrink: "?L (a, f m)" if "?L (a, m)" for a m
    using that assms [of m] by (auto simp: all_listed_def list_all_iff)
  have "list_all ?L (map_set Namespace_lt ns (f (map_get Namespace_lt [] ns m)) m)" if "list_all ?L m" for m
    using that
  proof (induction m)
    case Nil
    have "f [] = []" using assms [of "[]"] by simp
    then show ?case by simp
  next
    case (Cons e m)
    have "f [] = []" using assms [of "[]"] by simp
    then show ?case using Cons shrink by (cases e) (auto simp: map_get_def split: option.splits)
  qed
  then show "table_inv (set_subscribers ns (f (subscribers_of ns s)) s)"
    using inv by (simp add: table_inv_def set_subscribers_def subscribers_of_def)
qed

lemma table_touch: "op_keeps table_inv (touch_namespace ns)"
proof -
  have "list_all (all_listed subs) (map_touch Namespace_lt [] ns m)" if "list_all (all_listed subs) m" for subs m
    unfolding map_touch_def using that by (rule list_all_emplace) simp_all
  then show ?thesis unfolding touch_namespace_def by (intro keeps_modify) (simp add: table_inv_def)
qed

lemma table_erase_namespace:
  "op_keeps table_inv (op_modify (\<lambda>s. s\<lparr>sv_subscribe_state := map_erase Namespace_lt ns (sv_subscribe_state s)\<rparr>))"
  by (rule keeps_modify) (simp add: table_inv_def list_all_erase)

lemma table_onUnsubscribe:
  assumes "ctor_agrees mk" and "ns_wf ns"
  shows "op_keeps table_inv (onUnsubscribe (really_delegate mk) ns i)"
proof -
  have "op_keeps table_inv (op_bind (op_get sv_delegate) (\<lambda>subs.
     op_bind (op_lift (Subscriptions_remove mk (ns_name ns) (uint (sig_bits ns)) (remote_of i) subs)) (\<lambda>subs'.
     op_modify (\<lambda>s. s\<lparr>sv_delegate := subs'\<rparr>))))"
    by rule (simp add: op_simps table_inv_def remove_noop [OF assms(1) _ assms(2)])
  then show ?thesis
    by (simp add: really_delegate_def really_onUnsubscribe_def keeps_then table_methods)
qed

lemma table_handle_unsubscribe:
  assumes "ctor_agrees mk"
  shows "op_keeps table_inv (handle_unsubscribe (really_delegate mk) ctx stream msg)"
  unfolding handle_unsubscribe_def case_prod_beta Let_def
proof (rule keeps_lift_bind)
  fix x assume "get_Unsubscribe 0 msg = Inr x"
  then have ns: "ns_wf (u_namespace (fst x))" by (cases x) (simp add: decoded_namespaces)
  show "op_keeps table_inv
     (op_then (touch_namespace (u_namespace (fst x))) (
     op_bind (op_get (subscribers_of (u_namespace (fst x)))) (\<lambda>m.
     case map_find u64_lt ctx m of
       None \<Rightarrow> op_return ()
     | Some context \<Rightarrow>
         op_then (onUnsubscribe (really_delegate mk) (u_namespace (fst x)) (ssc_subscriber_id context)) (
         op_then (op_modify (\<lambda>s. s\<lparr>sv_subscribe_id_state :=
           map_erase u64_lt (ssc_subscriber_id context) (sv_subscribe_id_state s)\<rparr>)) (
         op_then (op_modify (\<lambda>s. set_subscribers (u_namespace (fst x))
            (map_erase u64_lt ctx (subscribers_of (u_namespace (fst x)) s)) s)) (
         op_bind (op_get (subscribers_of (u_namespace (fst x)))) (\<lambda>m.
         op_when (length m > 0)
           (op_modify (\<lambda>s. s\<lparr>sv_subscribe_state :=
              map_erase Namespace_lt (u_namespace (fst x)) (sv_subscribe_state s)\<rparr>)))))))))"
    by (intro keeps_intros table_touch table_onUnsubscribe table_subscribers table_erase_namespace
        map_erase_subset assms ns table_modify) simp_all
qed

lemma table_publish_handlers:
  "op_keeps table_inv (handle_publish (really_delegate mk) ctx stream msg)"
  "op_keeps table_inv (handle_publish_intent (really_delegate mk) ctx stream msg)"
  "op_keeps table_inv (handle_publish_intent_end (really_delegate mk) ctx stream msg)"
  unfolding handle_publish_def handle_publish_intent_def handle_publish_intent_end_def case_prod_beta Let_def
    really_delegate_def ServerDelegate.simps really_onPublisherObject_def really_onPublishIntent_def
    really_onPublishIntentEnd_def forward_to_def
  by (intro keeps_intros table_methods table_modify; simp)+

lemma table_disconnect:
  assumes "ctor_agrees mk" and "list_all (\<lambda>e. ns_wf (fst e)) subs"
  shows "op_keeps table_inv (disconnect_loop (really_delegate mk) ctx subs rm)"
  using assms(2)
proof (induction subs arbitrary: rm)
  case (Cons e subs)
  then have ns: "ns_wf (fst e)" by simp
  show ?case
    unfolding disconnect_loop.simps
    by (intro keeps_intros table_onUnsubscribe [OF assms(1) ns] table_modify table_erase_namespace Cons.IH)
      (use Cons.prems in simp_all)
qed (simp add: keeps_return)

section \<open>The relay's answers\<close>

text \<open>A message to a subscriber goes to the connection recorded under its id, if there is one.\<close>

definition message_to :: "u64 \<Rightarrow> bytes \<Rightarrow> 'd Server \<Rightarrow> (TransportContextId \<times> StreamId \<times> bytes) list" where
  "message_to i msg s =
     (case map_find u64_lt i (sv_subscribe_id_state s) of
        None \<Rightarrow> [] | Some c \<Rightarrow> [(cx_transport_context_id c, cx_transport_stream_id c, msg)])"

definition subscribe_ok_msg :: "u64 \<Rightarrow> Namespace \<Rightarrow> bytes" where
  "subscribe_ok_msg i ns =
     enc_SubscribeResponse \<lparr>sr_namespace = ns, sr_response = Status_Ok, sr_transaction_id = i\<rparr>"

definition subscribe_end_msg :: "Namespace \<Rightarrow> bytes" where
  "subscribe_end_msg ns = enc_SubscribeEnd \<lparr>se_namespace = ns, se_reason = Status_Ok\<rparr>"

lemma status_ok_named: "status.named Status_Ok"
  by (simp add: status.named_def SubscribeStatus_cast_def)

lemma subscribeResponse_run:
  assumes "ns_wf ns"
  shows "subscribeResponse i ns (SubscribeResult_of Status_Ok) s =
    (Inr (), s\<lparr>sv_sent := sv_sent s @ message_to i (subscribe_ok_msg i ns) s\<rparr>)"
proof -
  let ?r = "\<lparr>sr_namespace = ns, sr_response = Status_Ok, sr_transaction_id = i\<rparr>"
  have "put_SubscribeResponse [] ?r = Inr (enc_SubscribeResponse ?r)"
    using subscribe_response.put_enc [of ?r "[]"] assms status_ok_named by (simp add: SubscribeResponse_ok_def)
  then show ?thesis
    by (simp add: subscribeResponse_def op_simps SubscribeResult_of_def message_to_def subscribe_ok_msg_def
        server_enqueue_def split: option.split)
qed

lemma subscriptionEnded_run:
  assumes "ns_wf ns"
  shows "subscriptionEnded i ns Status_Ok s =
    (Inr (), s\<lparr>sv_sent := sv_sent s @ message_to i (subscribe_end_msg ns) s\<rparr>)"
proof -
  let ?r = "\<lparr>se_namespace = ns, se_reason = Status_Ok\<rparr>"
  have "put_SubscribeEnd [] ?r = Inr (enc_SubscribeEnd ?r)"
    using subscribe_end.put_enc [of ?r "[]"] assms status_ok_named by (simp add: SubscribeEnd_ok_def)
  then show ?thesis
    by (simp add: subscriptionEnded_def op_simps message_to_def subscribe_end_msg_def
        server_enqueue_def split: option.split)
qed

lemma sendNamedObject_run:
  assumes "PublishDatagram_ok d"
  shows "sendNamedObject i d s = (Inr (), s\<lparr>sv_sent := sv_sent s @ message_to i (enc_PublishDatagram d) s\<rparr>)"
  using publish_datagram.put_enc [OF assms, of "[]"]
  by (simp add: sendNamedObject_def op_simps message_to_def server_enqueue_def split: option.split)

lemma onUnsubscribe_run:
  assumes "ctor_agrees mk" and "subs_wf (sv_delegate s)" and "ns_wf ns"
  shows "onUnsubscribe (really_delegate mk) ns i s =
    (Inr (), s\<lparr>sv_sent := sv_sent s @ message_to i (subscribe_end_msg ns) s\<rparr>)"
  using assms
  by (simp add: really_delegate_def really_onUnsubscribe_def subscriptionEnded_run op_simps remove_noop)

lemma onSubscribe_run:
  assumes "ns_wf ns" and "Subscriptions_add mk (ns_name ns) (uint (sig_bits ns)) (remote_of i) (sv_delegate s) = Inr subs'"
  shows "onSubscribe (really_delegate mk) ns i ctx stream intent s =
    (Inr (), s\<lparr>sv_delegate := subs', sv_sent := sv_sent s @ message_to i (subscribe_ok_msg i ns) s\<rparr>)"
  using assms
  by (simp add: really_delegate_def really_onSubscribe_def subscribeResponse_run op_simps message_to_def)

lemma message_to_sent [simp]: "message_to i msg (s\<lparr>sv_sent := x\<rparr>) = message_to i msg s"
  by (simp add: message_to_def)

lemma listed_add:
  assumes "ctor_agrees mk" and "subs_wf subs" and "ns_wf ns"
    and "Subscriptions_add mk (ns_name ns) (uint (sig_bits ns)) r subs = Inr subs'"
  shows "listed subs n \<subseteq> listed subs' n" and "r \<in> listed subs' (ns_name ns)"
  using assms(3) unfolding listed_def subs_abs_add [OF assms] by blast+

lemma all_listed_mono: "(\<And>n. listed subs n \<subseteq> listed subs' n) \<Longrightarrow> all_listed subs e \<Longrightarrow> all_listed subs' e"
  unfolding all_listed_def by (erule list.pred_mono_strong) blast

lemma all_listed_set:
  assumes "list_all (all_listed subs) m" and "remote_of (ssc_subscriber_id c) \<in> listed subs (ns_name ns)"
  shows "list_all (all_listed subs) (map_set Namespace_lt ns (map_set u64_lt ctx c (map_get Namespace_lt [] ns m)) m)"
  using assms(1)
proof (induction m)
  case Nil
  then show ?case using assms(2) by (simp add: all_listed_def)
next
  case (Cons e m)
  obtain a v where e: "e = (a, v)" by (cases e)
  have same: "ns_name a = ns_name ns" if "\<not> Namespace_lt a ns" "\<not> Namespace_lt ns a"
    using that by (simp flip: ns_eqv_iff add: eqv_def)
  have v: "all_listed subs (k, map_set u64_lt ctx c w)" if "all_listed subs (k, w)" "ns_name k = ns_name ns" for k w
    using that assms(2) by (auto simp: all_listed_def intro: u64_order.list_all_set_total)
  have "all_listed subs (ns, map_set u64_lt ctx c [])" by (rule v) (simp_all add: all_listed_def)
  then show ?case using Cons v same by (auto simp: e map_get_def split: option.splits)
qed

lemma subscribed_delegate [simp]: "sv_delegate (subscribed ns ctx stream s) = sv_delegate s"
  by (simp add: subscribed_def Let_def)

lemma table_handle_subscribe:
  assumes "ctor_agrees mk" and "relay_inv s" and get: "get_Subscribe 0 msg = Inr (m, rest)"
  shows "\<exists>t. handle_subscribe (really_delegate mk) ctx stream msg s = (Inr (), t) \<and> table_inv t"
proof -
  let ?ns = "s_namespace m" and ?i = "subscriber_of (s_namespace m) ctx s"
  let ?s = "subscribed ?ns ctx stream s"
  have inv: "server_inv s" "table_inv s" using assms(2) by (simp_all add: relay_inv_def)
  have ns: "ns_wf ?ns" using get by (rule decoded_namespaces)
  have wf: "subs_wf (sv_delegate s)" using inv(2) by (simp add: table_inv_def)
  obtain subs' where add: "Subscriptions_add mk (ns_name ?ns) (uint (sig_bits ?ns)) (remote_of ?i) (sv_delegate s) = Inr subs'"
    using add_ok [OF assms(1) wf ns] by blast
  let ?t = "?s\<lparr>sv_delegate := subs', sv_sent := sv_sent ?s @ message_to ?i (subscribe_ok_msg ?i ?ns) ?s\<rparr>"
  have run: "handle_subscribe (really_delegate mk) ctx stream msg s = (Inr (), ?t)"
    using handle_subscribe_run [OF inv(1) get] onSubscribe_run [OF ns, of mk ?i ?s] add by simp
  have "unat (sig_bits ?ns) \<noteq> 128" using ns by (auto simp: ns_wf_def sig_bits_less_iff)
  then have "subs' ! 128 = sv_delegate s ! 128" using add_ok [OF assms(1) wf ns] add by auto
  moreover have "subs_abs subs' \<subseteq> {p. zero_remote (snd p)}"
    using inv(2) subs_abs_add [OF assms(1) wf ns add] by (simp add: table_inv_def zero_remote_def remote_of_def)
  moreover have "list_all (all_listed subs') (sv_subscribe_state ?s)"
  proof -
    have old: "list_all (all_listed subs') (sv_subscribe_state s)"
      using inv(2) all_listed_mono [OF listed_add(1) [OF assms(1) wf ns add]]
      by (auto simp: table_inv_def elim: list.pred_mono_strong)
    show ?thesis
    proof (cases "map_find u64_lt ctx (subscribers_of ?ns s)")
      case None
      then have "?i = sv_subscriber_id s" by (simp add: subscriber_of_def)
      then have "remote_of (ssc_subscriber_id (new_context ctx stream (sv_subscriber_id s))) \<in> listed subs' (ns_name ?ns)"
        using listed_add(2) [OF assms(1) wf ns add] by (simp add: new_context_def)
      from all_listed_set [OF old this] None show ?thesis
        by (simp add: subscribed_def map_has_def Let_def subscribers_of_def)
    qed (use old in \<open>simp add: subscribed_def map_has_def\<close>)
  qed
  ultimately have "table_inv ?t"
    using inv(2) subs_wf_add [OF assms(1) wf ns add] by (simp add: table_inv_def)
  with run show ?thesis by blast
qed

lemma relay_handle_subscribe:
  assumes "ctor_agrees mk"
  shows "op_keeps relay_inv (handle_subscribe (really_delegate mk) ctx stream msg)"
proof
  fix s assume inv: "relay_inv s"
    and nub: "fst (handle_subscribe (really_delegate mk) ctx stream msg s) \<noteq> Inl undefined_behaviour"
  have "server_inv (snd (handle_subscribe (really_delegate mk) ctx stream msg s))"
    using really.keeps_handle_subscribe inv nub by (simp add: op_keeps_def relay_inv_def)
  moreover have "table_inv (snd (handle_subscribe (really_delegate mk) ctx stream msg s))"
  proof (cases "get_Subscribe 0 msg")
    case (Inl e)
    then show ?thesis using inv by (simp add: handle_subscribe_def op_simps relay_inv_def)
  next
    case (Inr x)
    then obtain m rest where "get_Subscribe 0 msg = Inr (m, rest)" by (cases x) auto
    from table_handle_subscribe [OF assms inv this, of ctx stream] show ?thesis by auto
  qed
  ultimately show "relay_inv (snd (handle_subscribe (really_delegate mk) ctx stream msg s))"
    by (simp add: relay_inv_def)
qed

section \<open>Sequences of calls\<close>

datatype relay_call =
    Relay_recv_notify TransportContextId StreamId "nat \<Rightarrow> bytes option"
  | Relay_connection_status TransportContextId TransportStatus

fun relay_exec :: "namespace_ctor \<Rightarrow> relay_call \<Rightarrow> (relay, unit) op" where
  "relay_exec mk (Relay_recv_notify ctx stream dequeue) = server_on_recv_notify (really_delegate mk) ctx stream dequeue"
| "relay_exec mk (Relay_connection_status ctx status) = server_on_connection_status (really_delegate mk) ctx status"

lemma relay_server_handle:
  assumes "ctor_agrees mk"
  shows "op_keeps relay_inv (server_handle (really_delegate mk) ctx stream data)"
proof -
  note handlers = relay_handle_subscribe [OF assms]
    relay_inv_keeps [OF really.keeps_handle_unsubscribe table_handle_unsubscribe [OF assms]]
    relay_inv_keeps [OF really.keeps_handle_publish table_publish_handlers(1)]
    relay_inv_keeps [OF really.keeps_handle_publish_intent table_publish_handlers(2)]
    relay_inv_keeps [OF really.keeps_handle_publish_intent_end table_publish_handlers(3)]
  show ?thesis
    unfolding server_handle_def by (auto split: list.split MessageType.split intro: keeps_intros handlers)
qed

lemma subscribe_state_namespaces: "server_inv s \<Longrightarrow> list_all (\<lambda>e. ns_wf (fst e)) (sv_subscribe_state s)"
  unfolding server_inv_def by (auto simp: subscribers_ok_def elim: list.pred_mono_strong)

lemma relay_on_connection_status:
  assumes "ctor_agrees mk"
  shows "op_keeps relay_inv (server_on_connection_status (really_delegate mk) ctx status)"
proof
  fix s
  let ?m = "server_on_connection_status (really_delegate mk) ctx status"
  assume inv: "relay_inv s" and nub: "fst (?m s) \<noteq> Inl undefined_behaviour"
  have "server_inv (snd (?m s))"
    using really.keeps_on_connection_status inv nub by (simp add: op_keeps_def relay_inv_def)
  moreover have "op_keeps table_inv (disconnect_loop (really_delegate mk) ctx (sv_subscribe_state s) [])"
    by (rule table_disconnect [OF assms subscribe_state_namespaces]) (use inv in \<open>simp add: relay_inv_def\<close>)
  then have "table_inv (snd (?m s))"
    using inv nub by (cases "status = TS_Disconnected")
      (simp_all add: server_on_connection_status_def op_simps op_keeps_def relay_inv_def)
  ultimately show "relay_inv (snd (?m s))" by (simp add: relay_inv_def)
qed

locale relay_ctor =
  fixes mk :: namespace_ctor
  assumes agrees: "ctor_agrees mk"
begin

lemma relay_exec_keeps: "op_keeps relay_inv (relay_exec mk l)"
  by (cases l) (simp_all add: relay_on_connection_status [OF agrees] server_on_recv_notify_def
      keeps_server_recv_loop relay_server_handle [OF agrees])

lemma relay_inv_new: "relay_inv ReallyServer"
proof -
  have "table_inv ReallyServer"
    by (simp add: table_inv_def ReallyServer_def QuicRServer_def subs_wf_new subs_abs_new)
      (simp add: Subscriptions_new_def)
  then show ?thesis by (simp add: relay_inv_def ReallyServer_def server_inv_new)
qed

sublocale op_invariant "relay_exec mk" "\<lambda>s. s = ReallyServer" relay_inv
  by unfold_locales (simp_all add: relay_inv_new relay_exec_keeps)

lemma reachable_inv: "op_run_all (relay_exec mk) calls ReallyServer = Some s \<Longrightarrow> relay_inv s"
  by (rule inv_reachable [OF refl])

end

interpretation class_relay: relay_ctor mk_Namespace
  by unfold_locales (rule ctor_agrees_class)

interpretation machine_relay: relay_ctor "mk_Namespace_on machine" for machine
  by unfold_locales (rule ctor_agrees_machine)

lemma relay_reachable:
  assumes "ctor_agrees mk" and "op_run_all (relay_exec mk) calls ReallyServer = Some s"
  shows "relay_inv s"
proof -
  have "relay_ctor mk" by unfold_locales (rule assms(1))
  from relay_ctor.reachable_inv [OF this assms(2)] show ?thesis .
qed

section \<open>Forwarding an object\<close>

definition publisher_context :: "TransportContextId \<Rightarrow> StreamId \<Rightarrow> ServerPublishContext" where
  "publisher_context ctx stream = \<lparr>cx_state = Context_Unknown, cx_transport_context_id = ctx,
     cx_transport_stream_id = stream, spc_group_id = 0, spc_object_id = 0, spc_offset = 0\<rparr>"

text \<open>The connection a name was first published on.\<close>

definition origin :: "Name \<Rightarrow> TransportContextId \<Rightarrow> StreamId \<Rightarrow> 'd Server \<Rightarrow> TransportContextId \<times> StreamId" where
  "origin name ctx stream s =
     (case map_find Name_lt name (sv_publish_state s) of
        None \<Rightarrow> (ctx, stream) | Some c \<Rightarrow> (cx_transport_context_id c, cx_transport_stream_id c))"

definition published :: "Name \<Rightarrow> TransportContextId \<Rightarrow> StreamId \<Rightarrow> 'd Server \<Rightarrow> 'd Server" where
  "published name ctx stream s = s\<lparr>sv_publish_state :=
     map_emplace Name_lt name (publisher_context ctx stream) (sv_publish_state s)\<rparr>"

lemma handle_publish_run:
  assumes "get_PublishDatagram msg = Inr (d, rest)"
    and "publish_namespace_found (h_name (pd_header d)) (sv_publish_namespaces s) = Inr True"
  shows "handle_publish del ctx stream msg s =
    (let src = origin (h_name (pd_header d)) ctx stream s in
     onPublisherObject del (fst src) (snd src) d (published (h_name (pd_header d)) ctx stream s))"
  using assms
  by (simp add: handle_publish_def op_simps Let_def origin_def published_def publisher_context_def
      map_emplace_def map_has_def split: option.split)

text \<open>What is sent for one object: a message for every subscriber found that is not its origin and
  is still known.\<close>

definition forwards :: "TransportContextId \<times> StreamId \<Rightarrow> bytes \<Rightarrow> Remote list \<Rightarrow> 'd Server
    \<Rightarrow> (TransportContextId \<times> StreamId \<times> bytes) list" where
  "forwards src msg rs s = concat (map (\<lambda>r. message_to (rm_subscribe_id r) msg s)
     (filter (\<lambda>r. \<not> (rm_context_id r = fst src \<and> rm_stream_id r = snd src)) rs))"

lemma forward_run:
  assumes "PublishDatagram_ok d"
  shows "op_for rs (forward_to c st d) s =
    (Inr (), s\<lparr>sv_sent := sv_sent s @ forwards (c, st) (enc_PublishDatagram d) rs s\<rparr>)"
proof (induction rs arbitrary: s)
  case Nil
  show ?case by (simp add: op_simps forwards_def)
next
  case (Cons r rs)
  have step: "forward_to c st d r s = (Inr (), s\<lparr>sv_sent := sv_sent s @ forwards (c, st) (enc_PublishDatagram d) [r] s\<rparr>)"
    using assms by (simp add: forward_to_def forwards_def op_simps sendNamedObject_run)
  show ?case by (simp add: op_then_Inr [where m = "forward_to c st d r", OF step] Cons) (simp add: forwards_def)
qed

lemma relay_publish_object:
  assumes "PublishDatagram_ok d"
    and "publish_namespace_found (h_name (pd_header d)) (sv_publish_namespaces s) = Inr True"
  shows "server_handle (really_delegate mk) ctx stream (enc_PublishDatagram d) s =
    (let src = origin (h_name (pd_header d)) ctx stream s in
     really_onPublisherObject mk (fst src) (snd src) d (published (h_name (pd_header d)) ctx stream s))"
proof -
  have get: "get_PublishDatagram (enc_PublishDatagram d) = Inr (d, [])"
    using publish_datagram.get_enc [OF assms(1), of "[]"] by simp
  obtain tl where "enc_PublishDatagram d = MessageType_code MT_Publish # tl"
    by (simp add: enc_PublishDatagram_def enc_type_def enc_u8_def)
  then have "server_handle (really_delegate mk) ctx stream (enc_PublishDatagram d) s =
      handle_publish (really_delegate mk) ctx stream (enc_PublishDatagram d) s"
    by (simp add: server_handle_def MessageType_cast_def)
  then show ?thesis by (simp add: handle_publish_run [OF get assms(2)] really_delegate_def)
qed

lemma relay_publish_run:
  assumes "PublishDatagram_ok d"
    and "publish_namespace_found (h_name (pd_header d)) (sv_publish_namespaces s) = Inr True"
    and "Subscriptions_find mk (h_name (pd_header d)) (sv_delegate s) = Inr rs"
  shows "server_handle (really_delegate mk) ctx stream (enc_PublishDatagram d) s =
    (let t = published (h_name (pd_header d)) ctx stream s in
     (Inr (), t\<lparr>sv_sent := sv_sent s @
        forwards (origin (h_name (pd_header d)) ctx stream s) (enc_PublishDatagram d) rs s\<rparr>))"
proof -
  let ?t = "published (h_name (pd_header d)) ctx stream s"
  have msgs: "message_to i m ?t = message_to i m s" for i m by (simp add: message_to_def published_def)
  have fwd: "forwards o' m rs ?t = forwards o' m rs s" for o' m by (simp add: forwards_def msgs)
  have t: "sv_delegate ?t = sv_delegate s" "sv_sent ?t = sv_sent s" by (simp_all add: published_def)
  show ?thesis
    by (simp add: relay_publish_object [OF assms(1,2)] Let_def really_onPublisherObject_def
        op_simps t assms(3) forward_run [OF assms(1)] fwd)
qed

text \<open>In the language the lookup of the subscribers is undefined, and with it the handling of the object.\<close>

lemma relay_publish_undefined:
  assumes "PublishDatagram_ok d"
    and "publish_namespace_found (h_name (pd_header d)) (sv_publish_namespaces s) = Inr True"
  shows "fst (server_handle (really_delegate mk_Namespace) ctx stream (enc_PublishDatagram d) s) = Inl undefined_behaviour"
  by (simp add: relay_publish_object [OF assms] Let_def really_onPublisherObject_def op_simps lookup_undefined)

lemma publish_namespace_found_eq:
  "list_all (\<lambda>e. ns_wf (fst e)) ps \<Longrightarrow>
     publish_namespace_found name ps = Inr (list_ex (\<lambda>e. contains (fst e) name = Inr True) ps)"
proof (induction ps)
  case (Cons e ps)
  then have ns: "ns_wf (fst e)" by simp
  then obtain b where "contains (fst e) name = Inr b" by (simp add: contains_ok)
  with Cons show ?case by (cases b) simp_all
qed simp

definition intent_ok_msg :: "Namespace \<Rightarrow> u64 \<Rightarrow> bytes" where
  "intent_ok_msg ns tid = enc_PublishIntentResponse \<lparr>pir_message_type = MT_PublishIntentResponse,
     pir_namespace = ns, pir_response = Response_Ok, pir_transaction_id = tid\<rparr>"

lemma onPublishIntent_run:
  assumes "ns_wf ns" and "map_find Namespace_lt ns (sv_publish_namespaces s) = Some c"
  shows "onPublishIntent (really_delegate mk) ns payload s =
    (Inr (), s\<lparr>sv_publish_namespaces := map_set Namespace_lt ns (c\<lparr>cx_state := Context_Ready\<rparr>) (sv_publish_namespaces s),
       sv_sent := sv_sent s @ [(cx_transport_context_id c, cx_transport_stream_id c, intent_ok_msg ns (pic_transaction_id c))]\<rparr>)"
proof -
  let ?r = "\<lparr>pir_message_type = MT_PublishIntentResponse, pir_namespace = ns, pir_response = Response_Ok,
     pir_transaction_id = pic_transaction_id c\<rparr>"
  have "put_PublishIntentResponse [] ?r = Inr (enc_PublishIntentResponse ?r)"
    using publish_intent_response.put_enc [of ?r "[]"] assms(1)
    by (simp add: PublishIntentResponse_ok_def message_type.named_def response.named_def MessageType_cast_def Response_cast_def)
  with assms(2) show ?thesis
    by (simp add: really_delegate_def really_onPublishIntent_def publishIntentResponse_def op_simps
        intent_ok_msg_def server_enqueue_def)
qed

text \<open>The context of a publish intent: the first one for a namespace is kept.\<close>

definition intent_context :: "Namespace \<Rightarrow> TransportContextId \<Rightarrow> StreamId \<Rightarrow> u64 \<Rightarrow> 'd Server \<Rightarrow> PublishIntentContext" where
  "intent_context ns ctx stream tid s =
     (case map_find Namespace_lt ns (sv_publish_namespaces s) of
        Some c \<Rightarrow> c
      | None \<Rightarrow> \<lparr>cx_state = Context_Pending, cx_transport_context_id = ctx, cx_transport_stream_id = stream,
                 pic_transaction_id = tid\<rparr>)"

lemma handle_publish_intent_run:
  assumes "server_inv s" and "get_PublishIntent msg = Inr (m, rest)"
  shows "handle_publish_intent (really_delegate mk) ctx stream msg s =
    (let ns = pi_namespace m; c = intent_context ns ctx stream (pi_transaction_id m) s in
     (Inr (), s\<lparr>sv_publish_namespaces := map_set Namespace_lt ns (c\<lparr>cx_state := Context_Ready\<rparr>) (sv_publish_namespaces s),
       sv_sent := sv_sent s @ [(cx_transport_context_id c, cx_transport_stream_id c, intent_ok_msg ns (pic_transaction_id c))]\<rparr>))"
proof -
  let ?ns = "pi_namespace m" and ?ps = "sv_publish_namespaces s"
  have ns: "ns_wf ?ns" using assms(2) by (rule decoded_namespaces)
  show ?thesis
  proof (cases "map_find Namespace_lt ?ns ?ps")
    case None
    have wf: "map_wf Namespace_lt ?ps" using assms(1) by (simp add: server_inv_def)
    show ?thesis
      using None assms(2)
      by (simp add: handle_publish_intent_def op_simps Let_def map_has_def intent_context_def
          onPublishIntent_run [OF ns] ns_order.find_set [OF wf] ns_order.eqv_refl ns_order.set_set)
  next
    case (Some c)
    with assms(2) show ?thesis
      by (simp add: handle_publish_intent_def op_simps Let_def map_has_def intent_context_def onPublishIntent_run [OF ns])
  qed
qed

section \<open>Correctness of the relay\<close>

text \<open>C6. In every state the relay reaches without undefined behaviour, the server's maps are
  well-formed and keyed consistently, every publish intent is at least \<^verbatim>\<open>Pending\<close>, and every subscriber the
  server knows under a namespace is in the relay's table under that name, so that an object
  published below it is looked up for it.\<close>

theorem relay_reachable_invariant:
  assumes "ctor_agrees mk" and "op_run_all (relay_exec mk) calls ReallyServer = Some s"
  shows "map_wf Namespace_lt (sv_subscribe_state s) \<and>
    list_all (\<lambda>e. ns_wf (fst e) \<and> map_wf u64_lt (snd e) \<and>
      list_all (\<lambda>c. cx_transport_context_id (snd c) = fst c) (snd e) \<and>
      list_all (\<lambda>c. \<exists>ns. ns_wf ns \<and> ns_name ns = ns_name (fst e) \<and>
        (ns, remote_of (ssc_subscriber_id (snd c))) \<in> subs_abs (sv_delegate s)) (snd e)) (sv_subscribe_state s) \<and>
    map_wf u64_lt (sv_subscribe_id_state s) \<and>
    list_all (\<lambda>e. ssc_subscriber_id (snd e) = fst e) (sv_subscribe_id_state s) \<and>
    list_all (\<lambda>e. ns_wf (fst e) \<and> cx_state (snd e) \<noteq> Context_Unknown) (sv_publish_namespaces s)"
proof -
  have inv: "server_inv s" "table_inv s"
    using relay_reachable [OF assms] by (simp_all add: relay_inv_def)
  have "list_all (\<lambda>e. subscribers_ok e \<and> all_listed (sv_delegate s) e) (sv_subscribe_state s)"
    using inv unfolding server_inv_def table_inv_def by (simp add: list_all_iff)
  moreover have "list_all (\<lambda>e. ns_wf (fst e) \<and> intent_answered e) (sv_publish_namespaces s)"
    using inv unfolding server_inv_def by (simp add: list_all_iff)
  ultimately show ?thesis
    using inv unfolding server_inv_def subscribers_ok_def all_listed_def listed_def intent_answered_def
    by (simp add: list_all_iff)
qed

text \<open>A publish intent is always answered with \<^verbatim>\<open>Ok\<close>, to the connection that announced the
  namespace first and under its transaction id, and from then on the names below it are published.\<close>

lemma relay_publish_intent:
  assumes "relay_inv s" and "PublishIntent_ok m" and "pi_message_type m = MT_PublishIntent"
  shows "\<exists>t c. server_handle (really_delegate mk) ctx stream (enc_PublishIntent m) s = (Inr (), t) \<and>
    c = (case map_find Namespace_lt (pi_namespace m) (sv_publish_namespaces s) of
           None \<Rightarrow> \<lparr>cx_state = Context_Pending, cx_transport_context_id = ctx, cx_transport_stream_id = stream,
                    pic_transaction_id = pi_transaction_id m\<rparr>
         | Some c \<Rightarrow> c) \<and>
    map_find Namespace_lt (pi_namespace m) (sv_publish_namespaces t) = Some (c\<lparr>cx_state := Context_Ready\<rparr>) \<and>
    sv_sent t = sv_sent s @ [(cx_transport_context_id c, cx_transport_stream_id c,
      enc_PublishIntentResponse \<lparr>pir_message_type = MT_PublishIntentResponse, pir_namespace = pi_namespace m,
        pir_response = Response_Ok, pir_transaction_id = pic_transaction_id c\<rparr>)]"
proof -
  let ?c = "intent_context (pi_namespace m) ctx stream (pi_transaction_id m) s"
  have inv: "server_inv s" using assms(1) by (simp add: relay_inv_def)
  then have wf: "map_wf Namespace_lt (sv_publish_namespaces s)" by (simp add: server_inv_def)
  have get: "get_PublishIntent (enc_PublishIntent m) = Inr (m, [])"
    using publish_intent.get_enc [OF assms(2), of "[]"] by simp
  obtain tl where "enc_PublishIntent m = MessageType_code MT_PublishIntent # tl"
    using assms(3) by (simp add: enc_PublishIntent_def enc_type_def enc_u8_def)
  then have "server_handle (really_delegate mk) ctx stream (enc_PublishIntent m) s =
      handle_publish_intent (really_delegate mk) ctx stream (enc_PublishIntent m) s"
    by (simp add: server_handle_def MessageType_cast_def)
  with handle_publish_intent_run [OF inv get, of mk ctx stream] show ?thesis
    by (intro exI [of _ "snd (server_handle (really_delegate mk) ctx stream (enc_PublishIntent m) s)"] exI [of _ ?c])
      (simp add: Let_def intent_ok_msg_def intent_context_def ns_order.find_set [OF wf] ns_order.eqv_refl)
qed

text \<open>The state after a subscription.\<close>

definition table_add :: "Namespace \<Rightarrow> Remote \<Rightarrow> Subscriptions \<Rightarrow> Subscriptions" where
  "table_add ns r subs = subs[unat (sig_bits ns) := map_set Name_lt (ns_name ns)
     (set_insert Remote_lt r (map_get Name_lt [] (ns_name ns) (subs ! unat (sig_bits ns))))
     (subs ! unat (sig_bits ns))]"

definition relay_subscribed :: "Namespace \<Rightarrow> TransportContextId \<Rightarrow> StreamId \<Rightarrow> relay \<Rightarrow> relay" where
  "relay_subscribed ns ctx stream s =
     (let i = subscriber_of ns ctx s; t = subscribed ns ctx stream s in
      t\<lparr>sv_delegate := table_add ns (remote_of i) (sv_delegate s),
        sv_sent := sv_sent s @ message_to i (subscribe_ok_msg i ns) t\<rparr>)"

lemma subscribed_sent [simp]: "sv_sent (subscribed ns ctx stream s) = sv_sent s"
  by (simp add: subscribed_def Let_def)

lemma table_inv_wf: "relay_inv s \<Longrightarrow> subs_wf (sv_delegate s)"
  by (simp add: relay_inv_def table_inv_def)

lemma relay_subscribe_run:
  assumes "ctor_agrees mk" and "relay_inv s" and "Subscribe_ok 0 m"
  shows "server_handle (really_delegate mk) ctx stream (enc_Subscribe m) s =
      (Inr (), relay_subscribed (s_namespace m) ctx stream s)"
    and "relay_inv (relay_subscribed (s_namespace m) ctx stream s)"
proof -
  let ?ns = "s_namespace m"
  have ns: "ns_wf ?ns" using assms(3) by (simp add: Subscribe_ok_def)
  have get: "get_Subscribe 0 (enc_Subscribe m) = Inr (m, [])"
    using subscribe.get_enc [OF assms(3), of "[]"] by simp
  obtain tl where "enc_Subscribe m = MessageType_code MT_Subscribe # tl"
    by (simp add: enc_Subscribe_def enc_type_def enc_u8_def)
  then have "server_handle (really_delegate mk) ctx stream (enc_Subscribe m) s =
      handle_subscribe (really_delegate mk) ctx stream (enc_Subscribe m) s"
    by (simp add: server_handle_def MessageType_cast_def)
  moreover have "server_inv s" using assms(2) by (simp add: relay_inv_def)
  moreover have "Subscriptions_add mk (ns_name ?ns) (uint (sig_bits ?ns)) r (sv_delegate s) =
      Inr (table_add ?ns r (sv_delegate s))" for r
    using add_ok [OF assms(1) table_inv_wf [OF assms(2)] ns] by (simp add: table_add_def)
  ultimately show run: "server_handle (really_delegate mk) ctx stream (enc_Subscribe m) s =
      (Inr (), relay_subscribed (s_namespace m) ctx stream s)"
    by (simp add: handle_subscribe_run [OF _ get] onSubscribe_run [OF ns] relay_subscribed_def Let_def)
  show "relay_inv (relay_subscribed (s_namespace m) ctx stream s)"
    using op_keepsD [OF relay_server_handle [OF assms(1)] assms(2) run] by simp
qed

lemma subs_abs_table_add:
  assumes "relay_inv s" and "ns_wf ns"
  shows "subs_abs (table_add ns r (sv_delegate s)) = insert (ns, r) (subs_abs (sv_delegate s))"
proof -
  have "Subscriptions_add mk_Namespace (ns_name ns) (uint (sig_bits ns)) r (sv_delegate s) =
      Inr (table_add ns r (sv_delegate s))"
    using add_ok [OF ctor_agrees_class table_inv_wf [OF assms(1)] assms(2)] by (simp add: table_add_def)
  then show ?thesis by (rule subs_abs_add [OF ctor_agrees_class table_inv_wf [OF assms(1)] assms(2)])
qed

text \<open>A first subscription of a connection gets the next subscriber id, is recorded under it and
  answered with \<^verbatim>\<open>Ok\<close> and the id in place of the transaction id; a repeated one keeps the id,
  the stream and all the server's state and is answered if the id is still known. In either
  case the subscriber is in the relay's table under the namespace.\<close>

lemma relay_subscribe:
  assumes "ctor_agrees mk" and "relay_inv s" and "Subscribe_ok 0 m"
  shows "\<exists>t i. server_handle (really_delegate mk) ctx stream (enc_Subscribe m) s = (Inr (), t) \<and>
    subs_abs (sv_delegate t) = insert (s_namespace m, remote_of i) (subs_abs (sv_delegate s)) \<and>
    (case map_find u64_lt ctx (subscribers_of (s_namespace m) s) of
       None \<Rightarrow> i = sv_subscriber_id s \<and> sv_subscriber_id t = i + 1 \<and>
         map_find u64_lt i (sv_subscribe_id_state t) = Some (new_context ctx stream i) \<and>
         map_find u64_lt ctx (subscribers_of (s_namespace m) t) = Some (new_context ctx stream i) \<and>
         sv_sent t = sv_sent s @ [(ctx, stream, enc_SubscribeResponse
           \<lparr>sr_namespace = s_namespace m, sr_response = Status_Ok, sr_transaction_id = i\<rparr>)]
     | Some c \<Rightarrow> i = ssc_subscriber_id c \<and> sv_subscriber_id t = sv_subscriber_id s \<and>
         sv_subscribe_state t = sv_subscribe_state s \<and> sv_subscribe_id_state t = sv_subscribe_id_state s \<and>
         sv_sent t = sv_sent s @ message_to i (enc_SubscribeResponse
           \<lparr>sr_namespace = s_namespace m, sr_response = Status_Ok, sr_transaction_id = i\<rparr>) s)"
proof -
  let ?ns = "s_namespace m" and ?i = "subscriber_of (s_namespace m) ctx s"
  let ?t = "relay_subscribed ?ns ctx stream s"
  have inv: "server_inv s" using assms(2) by (simp add: relay_inv_def)
  have ns: "ns_wf ?ns" using assms(3) by (simp add: Subscribe_ok_def)
  have abs: "subs_abs (sv_delegate ?t) = insert (?ns, remote_of ?i) (subs_abs (sv_delegate s))"
    using subs_abs_table_add [OF assms(2) ns] by (simp add: relay_subscribed_def Let_def)
  have wf: "map_wf u64_lt (sv_subscribe_id_state s)" "map_wf u64_lt (subscribers_of ?ns s)"
    "map_wf Namespace_lt (sv_subscribe_state s)"
    using inv subscribers_of_ok(1) [OF inv] by (simp_all add: server_inv_def)
  note simps = relay_subscribed_def Let_def subscriber_of_def subscribed_def map_has_def message_to_def
    u64_order.find_set [OF wf(1)] u64_order.eqv_refl new_context_def subscribe_ok_msg_def
  have sub: "subscribers_of ?ns ?t = map_set u64_lt ctx (new_context ctx stream (sv_subscriber_id s)) (subscribers_of ?ns s)"
    if "map_find u64_lt ctx (subscribers_of ?ns s) = None"
    using that subscribers_set [OF wf(3)]
    by (simp add: relay_subscribed_def Let_def subscribed_def map_has_def subscribers_of_def)
  show ?thesis
  proof (cases "map_find u64_lt ctx (subscribers_of ?ns s)")
    case None
    have "map_find u64_lt ctx (subscribers_of ?ns ?t) = Some (new_context ctx stream (sv_subscriber_id s))"
      unfolding sub [OF None] by (simp add: u64_order.find_set [OF wf(2)] u64_order.eqv_refl)
    moreover have "?i = sv_subscriber_id s" using None by (simp add: subscriber_of_def)
    ultimately show ?thesis
      using relay_subscribe_run(1) [OF assms, of ctx stream] abs None
      by (intro exI [of _ ?t] exI [of _ ?i]) (simp add: simps)
  next
    case (Some c)
    then show ?thesis
      using relay_subscribe_run(1) [OF assms, of ctx stream] abs
      by (intro exI [of _ ?t] exI [of _ ?i]) (simp add: simps)
  qed
qed

text \<open>C7. A published object is looked up in the table of the relay. In the language that is undefined. On a machine,
  whatever value it leaves behind the undefined shift, the object is forwarded, byte for byte, to the connections of the subscribers in
  the table: once for every namespace a subscriber is listed under that contains the name, provided its
  id is still known. The check that should keep an object from its own publisher
  compares with ids the table never stores: it drops the object for everybody when the publisher is connection
  0 on stream 0, and for nobody otherwise.\<close>

theorem relay_forwards:
  assumes "relay_inv s" and "PublishDatagram_ok d" and "name = h_name (pd_header d)"
    and "publish_namespace_found name (sv_publish_namespaces s) = Inr True"
  shows "fst (server_handle (really_delegate mk_Namespace) ctx stream (enc_PublishDatagram d) s) = Inl undefined_behaviour \<and>
    (\<exists>rs. server_handle (really_delegate (mk_Namespace_on machine)) ctx stream (enc_PublishDatagram d) s =
      (Inr (), (published name ctx stream s)\<lparr>sv_sent := sv_sent s @
         (if origin name ctx stream s = (0, 0) then []
          else concat (map (\<lambda>r. message_to (rm_subscribe_id r) (enc_PublishDatagram d) s) rs))\<rparr>) \<and>
      (\<forall>r. count_list rs r = card {ns. ns_wf ns \<and> (ns, r) \<in> subs_abs (sv_delegate s) \<and> contains ns name = Inr True}))"
proof -
  have t: "subs_wf (sv_delegate s)" "sv_delegate s ! 128 = []" "subs_abs (sv_delegate s) \<subseteq> {p. zero_remote (snd p)}"
    using assms(1) by (simp_all add: relay_inv_def table_inv_def)
  obtain rs where rs: "Subscriptions_find (mk_Namespace_on machine) name (sv_delegate s) = Inr rs"
    "\<forall>r. count_list rs r = card {ns. ns_wf ns \<and> (ns, r) \<in> subs_abs (sv_delegate s) \<and> contains ns name = Inr True}"
    using find_count [OF ctor_defined_machine t(1,2)] by blast
  have zero: "zero_remote r" if r: "r \<in> set rs" for r
  proof -
    obtain ns where "ns \<in> {ns. ns_wf ns \<and> (ns, r) \<in> subs_abs (sv_delegate s) \<and> contains ns name = Inr True}"
      using rs(2) r by (rule count_card_mem)
    then have "(ns, r) \<in> subs_abs (sv_delegate s)" by simp
    with t(3) show ?thesis by auto
  qed
  let ?o = "origin name ctx stream s"
  have "filter (\<lambda>r. \<not> (rm_context_id r = fst ?o \<and> rm_stream_id r = snd ?o)) rs = (if ?o = (0, 0) then [] else rs)"
  proof (cases "?o = (0, 0)")
    case True
    then show ?thesis using zero by (auto simp: zero_remote_def filter_empty_conv)
  next
    case False
    then show ?thesis using zero by (cases ?o) (auto simp: zero_remote_def filter_id_conv)
  qed
  then have "forwards ?o (enc_PublishDatagram d) rs s =
      (if ?o = (0, 0) then [] else concat (map (\<lambda>r. message_to (rm_subscribe_id r) (enc_PublishDatagram d) s) rs))"
    by (simp add: forwards_def)
  then show ?thesis
    using relay_publish_run [OF assms(2), of s "mk_Namespace_on machine" rs ctx stream]
      relay_publish_undefined [OF assms(2), of s ctx stream] assms(3,4) rs
    by (intro conjI exI [of _ rs]) (simp_all add: Let_def)
qed

definition relay_unsubscribed :: "Namespace \<Rightarrow> TransportContextId \<Rightarrow> u64 \<Rightarrow> relay \<Rightarrow> relay" where
  "relay_unsubscribed ns ctx i s =
     s\<lparr>sv_sent := sv_sent s @ message_to i (subscribe_end_msg ns) s,
       sv_subscribe_state := after_unsubscribe ns ctx s,
       sv_subscribe_id_state := map_erase u64_lt i (sv_subscribe_id_state s)\<rparr>"

lemma dispatch_unsubscribe:
  "server_handle del ctx stream (enc_Unsubscribe m) s = handle_unsubscribe del ctx stream (enc_Unsubscribe m) s"
proof -
  obtain tl where "enc_Unsubscribe m = MessageType_code MT_Unsubscribe # tl"
    by (simp add: enc_Unsubscribe_def enc_type_def enc_u8_def)
  then show ?thesis by (simp add: server_handle_def MessageType_cast_def)
qed

lemma relay_unsubscribe_run:
  assumes "ctor_agrees mk" and "relay_inv s" and "Unsubscribe_ok 0 m"
    and "map_find u64_lt ctx (subscribers_of (u_namespace m) s) = Some c"
  shows "server_handle (really_delegate mk) ctx stream (enc_Unsubscribe m) s =
      (Inr (), relay_unsubscribed (u_namespace m) ctx (ssc_subscriber_id c) s)"
    and "relay_inv (relay_unsubscribed (u_namespace m) ctx (ssc_subscriber_id c) s)"
    and "subscribers_of (u_namespace m) (relay_unsubscribed (u_namespace m) ctx (ssc_subscriber_id c) s) = []"
proof -
  let ?ns = "u_namespace m" and ?i = "ssc_subscriber_id c"
  have inv: "server_inv s" using assms(2) by (simp add: relay_inv_def)
  have ns: "ns_wf ?ns" using assms(3) by (simp add: Unsubscribe_ok_def)
  have get: "get_Unsubscribe 0 (enc_Unsubscribe m) = Inr (m, [])"
    using unsubscribe.get_enc [OF assms(3), of "[]"] by simp
  note cb = onUnsubscribe_run [OF assms(1) table_inv_wf [OF assms(2)] ns, of ?i]
  show run: "server_handle (really_delegate mk) ctx stream (enc_Unsubscribe m) s =
      (Inr (), relay_unsubscribed ?ns ctx ?i s)"
    using really.handle_unsubscribe_run [OF inv get assms(4) cb] by (simp add: dispatch_unsubscribe relay_unsubscribed_def)
  show "relay_inv (relay_unsubscribed ?ns ctx ?i s)"
    using op_keepsD [OF relay_server_handle [OF assms(1)] assms(2) run] by simp
  have wf: "map_wf Namespace_lt (sv_subscribe_state s)" using inv by (simp add: server_inv_def)
  show "subscribers_of ?ns (relay_unsubscribed ?ns ctx ?i s) = []"
    by (simp add: relay_unsubscribed_def subscribers_of_def after_unsubscribe_def map_get_def ns_order.find_set [OF wf]
        ns_order.find_erase [OF wf] ns_order.eqv_refl)
qed

text \<open>C17. When a connection unsubscribes, the subscription is ended and its id forgotten, but so is every
  other connection's context under the namespace: from then on the unsubscribe of another
  subscriber is ignored, and that subscriber, whose id is still known, is sent objects as before.\<close>

theorem relay_unsubscribe:
  assumes "ctor_agrees mk" and "relay_inv s" and "Unsubscribe_ok 0 m"
    and "map_find u64_lt ctx (subscribers_of (u_namespace m) s) = Some c"
  shows "\<exists>t. server_handle (really_delegate mk) ctx stream (enc_Unsubscribe m) s = (Inr (), t) \<and>
    sv_sent t = sv_sent s @ message_to (ssc_subscriber_id c)
      (enc_SubscribeEnd \<lparr>se_namespace = u_namespace m, se_reason = Status_Ok\<rparr>) s \<and>
    sv_subscribe_id_state t = map_erase u64_lt (ssc_subscriber_id c) (sv_subscribe_id_state s) \<and>
    subscribers_of (u_namespace m) t = [] \<and> sv_delegate t = sv_delegate s \<and>
    (\<forall>ctx' stream'. \<exists>u. server_handle (really_delegate mk) ctx' stream' (enc_Unsubscribe m) t = (Inr (), u) \<and>
       sv_sent u = sv_sent t \<and> sv_subscribe_id_state u = sv_subscribe_id_state t \<and> sv_delegate u = sv_delegate t)"
proof -
  let ?t = "relay_unsubscribed (u_namespace m) ctx (ssc_subscriber_id c) s"
  note run = relay_unsubscribe_run [OF assms]
  have get: "get_Unsubscribe 0 (enc_Unsubscribe m) = Inr (m, [])"
    using unsubscribe.get_enc [OF assms(3), of "[]"] by simp
  have "server_inv ?t" using run(2) by (simp add: relay_inv_def)
  from handle_unsubscribe_absent [OF this get] run(3)
  have "server_handle (really_delegate mk) ctx' stream' (enc_Unsubscribe m) ?t =
      (Inr (), ?t\<lparr>sv_subscribe_state := map_touch Namespace_lt [] (u_namespace m) (sv_subscribe_state ?t)\<rparr>)" for ctx' stream'
    by (simp add: dispatch_unsubscribe)
  with run(1,3) show ?thesis by (intro exI [of _ ?t]) (simp add: relay_unsubscribed_def subscribe_end_msg_def)
qed

lemma find_fold_erase:
  assumes "map_wf u64_lt m"
  shows "map_find u64_lt k (fold (map_erase u64_lt) ks m) = (if k \<in> set ks then None else map_find u64_lt k m)"
  using assms
  by (induction ks arbitrary: m) (auto simp: u64_order.find_erase u64_order.wf_erase u64_order.eqv_iff_eq)

lemma connection_ids_mem:
  "map_find Namespace_lt ns subs = Some m \<Longrightarrow> map_find u64_lt ctx m = Some c \<Longrightarrow>
     ssc_subscriber_id c \<in> set (connection_ids ctx subs)"
  by (induction subs) (auto simp: connection_ids_def split: if_splits)

lemma relay_disconnect_loop:
  assumes "ctor_agrees mk" and "list_all (\<lambda>e. ns_wf (fst e)) subs" and "subs_wf (sv_delegate x)"
  shows "\<exists>t. disconnect_loop (really_delegate mk) ctx subs [] x = (Inr (), t) \<and>
      sv_subscribe_state t = sv_subscribe_state x \<and>
      sv_subscribe_id_state t = fold (map_erase u64_lt) (connection_ids ctx subs) (sv_subscribe_id_state x)"
  using assms(2,3)
proof (induction subs arbitrary: x)
  case Nil
  show ?case by (simp add: op_simps connection_ids_def)
next
  case (Cons e subs)
  then have ns: "ns_wf (fst e)" by simp
  show ?case
  proof (cases "map_find u64_lt ctx (snd e)")
    case None
    from Cons.IH [of x] Cons.prems None show ?thesis by (simp add: op_simps connection_ids_def)
  next
    case (Some c)
    let ?i = "ssc_subscriber_id c"
    note cb = onUnsubscribe_run [OF assms(1) Cons.prems(2) ns, of ?i]
    let ?y = "x\<lparr>sv_sent := sv_sent x @ message_to ?i (subscribe_end_msg (fst e)) x,
      sv_subscribe_id_state := map_erase u64_lt ?i (sv_subscribe_id_state x)\<rparr>"
    have "snd e \<noteq> []" using Some by auto
    then have "disconnect_loop (really_delegate mk) ctx (e # subs) [] x = disconnect_loop (really_delegate mk) ctx subs [] ?y"
      using Some
      by (simp add: op_simps op_then_Inr [where m = "onUnsubscribe (really_delegate mk) (fst e) ?i", OF cb])
    with Cons.IH [of ?y] Cons.prems Some show ?thesis by (simp add: connection_ids_def)
  qed
qed

text \<open>C23. When a connection is lost, the ids of its subscriptions are forgotten and no others, but its
  contexts stay: if the transport reports a new connection under the same context id, a subscription
  of a namespace it had is neither answered nor given a live id.\<close>

theorem relay_disconnect:
  assumes "ctor_agrees mk" and "relay_inv s"
  shows "\<exists>t. server_on_connection_status (really_delegate mk) ctx TS_Disconnected s = (Inr (), t) \<and>
    sv_subscribe_state t = sv_subscribe_state s \<and>
    (\<forall>i. map_find u64_lt i (sv_subscribe_id_state t) =
       (if i \<in> set (connection_ids ctx (sv_subscribe_state s)) then None
        else map_find u64_lt i (sv_subscribe_id_state s))) \<and>
    (\<forall>stream m. Subscribe_ok 0 m \<and> map_has u64_lt ctx (subscribers_of (s_namespace m) s) \<longrightarrow>
       (\<exists>u. server_handle (really_delegate mk) ctx stream (enc_Subscribe m) t = (Inr (), u) \<and>
          sv_sent u = sv_sent t \<and> sv_subscribe_id_state u = sv_subscribe_id_state t))"
proof -
  have inv: "server_inv s" using assms(2) by (simp add: relay_inv_def)
  note wfs = table_inv_wf [OF assms(2)] subscribe_state_namespaces [OF inv]
  from relay_disconnect_loop [OF assms(1) wfs(2,1)] obtain t where t: "disconnect_loop (really_delegate mk) ctx (sv_subscribe_state s) [] s = (Inr (), t)"
    "sv_subscribe_state t = sv_subscribe_state s"
    "sv_subscribe_id_state t = fold (map_erase u64_lt) (connection_ids ctx (sv_subscribe_state s)) (sv_subscribe_id_state s)"
    by blast
  have run: "server_on_connection_status (really_delegate mk) ctx TS_Disconnected s = (Inr (), t)"
    using t(1) by (simp add: server_on_connection_status_def op_simps)
  have ids: "map_find u64_lt i (sv_subscribe_id_state t) =
       (if i \<in> set (connection_ids ctx (sv_subscribe_state s)) then None
        else map_find u64_lt i (sv_subscribe_id_state s))" for i
    using inv by (simp add: t(3) find_fold_erase server_inv_def)
  have inv': "relay_inv t"
    using op_keepsD [OF relay_on_connection_status [OF assms(1)] assms(2) run] by simp
  have "\<exists>u. server_handle (really_delegate mk) ctx stream (enc_Subscribe m) t = (Inr (), u) \<and>
      sv_sent u = sv_sent t \<and> sv_subscribe_id_state u = sv_subscribe_id_state t"
    if m: "Subscribe_ok 0 m" "map_has u64_lt ctx (subscribers_of (s_namespace m) s)" for stream m
  proof -
    let ?ns = "s_namespace m"
    obtain c where c: "map_find u64_lt ctx (subscribers_of ?ns s) = Some c"
      using m(2) by (auto simp: map_has_def)
    obtain sm where sm: "map_find Namespace_lt ?ns (sv_subscribe_state s) = Some sm" "map_find u64_lt ctx sm = Some c"
      using c by (auto simp: subscribers_of_def map_get_def split: option.splits)
    have same: "subscribers_of ?ns t = subscribers_of ?ns s" by (simp add: subscribers_of_def t(2))
    have "map_find u64_lt (ssc_subscriber_id c) (sv_subscribe_id_state t) = None"
      using ids connection_ids_mem [OF sm] by simp
    then have "sv_sent (relay_subscribed ?ns ctx stream t) = sv_sent t"
      "sv_subscribe_id_state (relay_subscribed ?ns ctx stream t) = sv_subscribe_id_state t"
      using c by (simp_all add: relay_subscribed_def Let_def subscribed_def map_has_def same subscriber_of_def message_to_def)
    with relay_subscribe_run(1) [OF assms(1) inv' m(1), of ctx stream] show ?thesis by blast
  qed
  with run t(2) ids show ?thesis by (intro exI [of _ t]) blast
qed

section \<open>A relay with two subscribers and a publisher\<close>

definition sample_sub :: Subscribe where
  "sample_sub = \<lparr>s_version = 0, s_transaction_id = 5, s_namespace = sample_ns, s_intent = immediate\<rparr>"

definition sample_unsub :: Unsubscribe where
  "sample_unsub = \<lparr>u_version = 0, u_namespace = sample_ns\<rparr>"

definition sample_intent :: PublishIntent where
  "sample_intent = \<lparr>pi_message_type = MT_PublishIntent, pi_transaction_id = 9, pi_namespace = sample_ns,
     pi_payload = [], pi_media_id = 3, pi_datagram_capable = 1\<rparr>"

definition relay_one :: relay where
  "relay_one = relay_subscribed sample_ns 1 10 ReallyServer"

definition relay_two :: relay where
  "relay_two = relay_subscribed sample_ns 2 20 relay_one"

definition relay_three :: relay where
  "relay_three = relay_two\<lparr>sv_publish_namespaces := [(sample_ns, \<lparr>cx_state = Context_Ready,
     cx_transport_context_id = 3, cx_transport_stream_id = 30, pic_transaction_id = 9\<rparr>)]\<rparr>"

lemma sample_sub_ok: "Subscribe_ok 0 sample_sub"
  by (simp add: sample_sub_def Subscribe_ok_def sample_ns_wf intent.named_def SubscribeIntent_cast_def)

lemma sample_unsub_ok: "Unsubscribe_ok 0 sample_unsub"
  by (simp add: sample_unsub_def Unsubscribe_ok_def sample_ns_wf)

lemma sample_intent_ok: "PublishIntent_ok sample_intent"
  by (simp add: sample_intent_def PublishIntent_ok_def sample_ns_wf message_type.named_def MessageType_cast_def
      vec_ok_def uintVar_ok_def)

lemma sample_relays: "relay_inv ReallyServer" "relay_inv relay_one" "relay_inv relay_two" "relay_inv relay_three"
proof -
  show new: "relay_inv ReallyServer" by (rule class_relay.relay_inv_new)
  have sub: "relay_inv (relay_subscribed sample_ns ctx stream s)" if "relay_inv s" for ctx stream s
    using relay_subscribe_run(2) [OF ctor_agrees_class that sample_sub_ok] by (simp add: sample_sub_def)
  show one: "relay_inv relay_one" unfolding relay_one_def by (rule sub [OF new])
  show two: "relay_inv relay_two" unfolding relay_two_def by (rule sub [OF one])
  then show "relay_inv relay_three"
    by (simp add: relay_three_def relay_inv_def server_inv_def table_inv_def map_wf_def sample_ns_wf intent_answered_def)
qed

lemma relay_two_contexts:
  "map_find u64_lt 1 (subscribers_of sample_ns relay_two) = Some (new_context 1 10 0)"
  "sv_subscribe_id_state relay_two = [(0, new_context 1 10 0), (1, new_context 2 20 1)]"
  by (simp_all add: relay_two_def relay_one_def relay_subscribed_def Let_def subscribed_def subscribers_of_def
      ReallyServer_def QuicRServer_def map_get_def map_has_def ns_order.irrefl new_context_def)

lemma relay_one_reached:
  "op_run_all (relay_exec mk_Namespace)
     [Relay_recv_notify 1 10 (\<lambda>i. if i = 0 then Some (enc_Subscribe sample_sub) else None)] ReallyServer = Some relay_one"
proof -
  have "server_handle (really_delegate mk_Namespace) 1 10 (enc_Subscribe sample_sub) ReallyServer = (Inr (), relay_one)"
    using relay_subscribe_run(1) [OF ctor_agrees_class sample_relays(1) sample_sub_ok, of 1 10]
    by (simp add: relay_one_def sample_sub_def)
  then show ?thesis
    using server_recv_loop_eq [of "[enc_Subscribe sample_sub]" "\<lambda>i. if i = 0 then Some (enc_Subscribe sample_sub) else None"
        0 RECV_LIMIT "server_handle (really_delegate mk_Namespace) 1 10" ReallyServer]
    by (simp add: server_on_recv_notify_def RECV_LIMIT_def op_simps caught_def op_catch_def)
qed

theorem relay_reachable_invariant_witness:
  "list_all (\<lambda>e. list_all (\<lambda>c. \<exists>ns. ns_wf ns \<and> ns_name ns = ns_name (fst e) \<and>
     (ns, remote_of (ssc_subscriber_id (snd c))) \<in> subs_abs (sv_delegate relay_one)) (snd e)) (sv_subscribe_state relay_one)"
  using relay_reachable_invariant [OF ctor_agrees_class relay_one_reached] by (simp add: list_all_iff)

lemma relay_publish_intent_witness:
  "\<exists>t. server_handle (really_delegate mk_Namespace) 3 30 (enc_PublishIntent sample_intent) relay_two = (Inr (), t) \<and>
     sv_sent t = sv_sent relay_two @ [(3, 30, enc_PublishIntentResponse
       \<lparr>pir_message_type = MT_PublishIntentResponse, pir_namespace = sample_ns, pir_response = Response_Ok,
        pir_transaction_id = 9\<rparr>)]"
proof -
  have "sv_publish_namespaces relay_two = []"
    by (simp add: relay_two_def relay_one_def relay_subscribed_def Let_def subscribed_def ReallyServer_def QuicRServer_def)
  with relay_publish_intent [OF sample_relays(3) sample_intent_ok, of mk_Namespace 3 30] show ?thesis
    by (auto simp: sample_intent_def)
qed

lemma relay_subscribe_witness:
  "\<exists>t. server_handle (really_delegate mk_Namespace) 1 10 (enc_Subscribe sample_sub) ReallyServer = (Inr (), t) \<and>
     subs_abs (sv_delegate t) = insert (sample_ns, remote_of 0) (subs_abs (sv_delegate ReallyServer)) \<and>
     sv_sent t = [(1, 10, enc_SubscribeResponse
       \<lparr>sr_namespace = sample_ns, sr_response = Status_Ok, sr_transaction_id = 0\<rparr>)]"
proof -
  have new: "subscribers_of sample_ns ReallyServer = []" "sv_subscriber_id ReallyServer = 0" "sv_sent ReallyServer = []"
    by (simp_all add: subscribers_of_def ReallyServer_def QuicRServer_def)
  have ns: "s_namespace sample_sub = sample_ns" by (simp add: sample_sub_def)
  show ?thesis
    using relay_subscribe [OF ctor_agrees_class sample_relays(1) sample_sub_ok, of 1 10] unfolding ns
    by (auto simp: new)
qed

definition sample_datagram :: PublishDatagram where
  "sample_datagram = \<lparr>pd_header = \<lparr>h_media_id = 3, h_name = Name 0x1234567800000001 5, h_group_id = 0,
     h_object_id = 0, h_offset_and_fin = 1, h_flags = 0\<rparr>, pd_media_type = RealtimeMedia,
     pd_media_data_length = 2, pd_media_data = [7, 8]\<rparr>"

theorem relay_forwards_witness:
  "\<exists>rs. sv_sent (snd (server_handle (really_delegate (mk_Namespace_on x86_64)) 3 30 (enc_PublishDatagram sample_datagram) relay_three)) =
      sv_sent relay_three @ concat (map (\<lambda>r. message_to (rm_subscribe_id r) (enc_PublishDatagram sample_datagram) relay_three) rs) \<and>
    (\<forall>r. count_list rs r = card {ns. ns_wf ns \<and> (ns, r) \<in> subs_abs (sv_delegate relay_three) \<and>
       contains ns (Name 0x1234567800000001 5) = Inr True})"
proof -
  let ?n = "Name 0x1234567800000001 5"
  have ok: "PublishDatagram_ok sample_datagram"
    by (simp add: sample_datagram_def PublishDatagram_ok_def Header_ok_def uintVar_ok_def vec_ok_def
        media_type.named_def MediaType_cast_def)
  have "contains sample_ns ?n = Inr True" by code_simp
  then have found: "publish_namespace_found ?n (sv_publish_namespaces relay_three) = Inr True"
    by (simp add: relay_three_def)
  have "sv_publish_state relay_three = []"
    by (simp add: relay_three_def relay_two_def relay_one_def relay_subscribed_def Let_def subscribed_def
        ReallyServer_def QuicRServer_def)
  then have "origin ?n 3 30 relay_three = (3, 30)" by (simp add: origin_def)
  with relay_forwards [OF sample_relays(4) ok _ found, of 3 30 x86_64] show ?thesis
    by (auto simp: sample_datagram_def published_def)
qed

theorem relay_unsubscribe_witness:
  "\<exists>t. server_handle (really_delegate mk_Namespace) 1 10 (enc_Unsubscribe sample_unsub) relay_two = (Inr (), t) \<and>
     sv_subscribe_id_state t = [(1, new_context 2 20 1)] \<and> subscribers_of sample_ns t = [] \<and>
     (\<exists>u. server_handle (really_delegate mk_Namespace) 2 20 (enc_Unsubscribe sample_unsub) t = (Inr (), u) \<and>
        sv_sent u = sv_sent t \<and> sv_subscribe_id_state u = [(1, new_context 2 20 1)])"
proof -
  have ns: "u_namespace sample_unsub = sample_ns" by (simp add: sample_unsub_def)
  have i: "ssc_subscriber_id (new_context 1 10 0) = 0" by (simp add: new_context_def)
  from relay_unsubscribe [OF ctor_agrees_class sample_relays(3) sample_unsub_ok, of 1 "new_context 1 10 0" 10]
  obtain t where t: "server_handle (really_delegate mk_Namespace) 1 10 (enc_Unsubscribe sample_unsub) relay_two = (Inr (), t)"
    "sv_subscribe_id_state t = map_erase u64_lt 0 (sv_subscribe_id_state relay_two)" "subscribers_of sample_ns t = []"
    "\<forall>ctx' stream'. \<exists>u. server_handle (really_delegate mk_Namespace) ctx' stream' (enc_Unsubscribe sample_unsub) t = (Inr (), u) \<and>
       sv_sent u = sv_sent t \<and> sv_subscribe_id_state u = sv_subscribe_id_state t \<and> sv_delegate u = sv_delegate t"
    unfolding ns i using relay_two_contexts(1) by blast
  have "sv_subscribe_id_state t = [(1, new_context 2 20 1)]" using t(2) by (simp add: relay_two_contexts(2))
  with t show ?thesis by metis
qed

theorem relay_disconnect_witness:
  "\<exists>t. server_on_connection_status (really_delegate mk_Namespace) 1 TS_Disconnected relay_two = (Inr (), t) \<and>
     sv_subscribe_state t = sv_subscribe_state relay_two \<and>
     (\<exists>u. server_handle (really_delegate mk_Namespace) 1 11 (enc_Subscribe sample_sub) t = (Inr (), u) \<and>
        sv_sent u = sv_sent t)"
proof -
  have "map_has u64_lt 1 (subscribers_of (s_namespace sample_sub) relay_two)"
    using relay_two_contexts(1) by (simp add: sample_sub_def map_has_def)
  with relay_disconnect [OF ctor_agrees_class sample_relays(3), of 1] sample_sub_ok show ?thesis by blast
qed

end
