(* ===== verification/Delivery.thy ===== *)
theory Delivery
  imports Client_Sessions Really
begin

text \<open>
  From publisher to subscriber: the composition of a publishing client, the relay and a
  subscribing client. The lemmas follow the messages of one object through the relay
  (\<open>relay_publish_all\<close>) and single out those that go to one connection (\<open>inbox\<close>).
\<close>

section \<open>A sequence of messages through the relay\<close>

lemma published_again:
  "published name ctx stream ((published name ctx stream s)\<lparr>sv_sent := x\<rparr>) = (published name ctx stream s)\<lparr>sv_sent := x\<rparr>"
  if "server_inv s"
proof -
  have wf: "map_wf Name_lt (sv_publish_state s)" using that by (simp add: server_inv_def)
  have "map_has Name_lt name (map_emplace Name_lt name c (sv_publish_state s))" for c
    by (simp add: map_has_def name_order.find_emplace [OF wf] name_order.eqv_refl)
  then show ?thesis by (simp add: published_def map_emplace_def [of _ _ _ "map_emplace _ _ _ _"])
qed

lemma origin_published:
  assumes "server_inv s"
  shows "origin name ctx stream ((published name ctx stream s)\<lparr>sv_sent := x\<rparr>) = origin name ctx stream s"
proof -
  have wf: "map_wf Name_lt (sv_publish_state s)" using assms by (simp add: server_inv_def)
  show ?thesis
    by (auto simp: origin_def published_def publisher_context_def name_order.find_emplace [OF wf]
        name_order.eqv_refl map_has_def split: option.split)
qed

lemma published_fields:
  "sv_publish_namespaces (published name ctx stream s) = sv_publish_namespaces s"
  "sv_delegate (published name ctx stream s) = sv_delegate s"
  "sv_sent (published name ctx stream s) = sv_sent s"
  "message_to i m (published name ctx stream s) = message_to i m s"
  by (simp_all add: published_def message_to_def)

lemma forwards_published: "forwards src m rs ((published name ctx stream s)\<lparr>sv_sent := x\<rparr>) = forwards src m rs s"
  by (simp add: forwards_def published_fields)

lemma relay_publish_more:
  assumes "server_inv s" and "publish_namespace_found name (sv_publish_namespaces s) = Inr True"
    and "Subscriptions_find mk name (sv_delegate s) = Inr rs"
    and "\<forall>d \<in> set ds. PublishDatagram_ok d \<and> h_name (pd_header d) = name"
  shows "op_for (map enc_PublishDatagram ds) (server_handle (really_delegate mk) ctx stream)
      ((published name ctx stream s)\<lparr>sv_sent := x\<rparr>) =
    (Inr (), (published name ctx stream s)\<lparr>sv_sent := x @
       concat (map (\<lambda>d. forwards (origin name ctx stream s) (enc_PublishDatagram d) rs s) ds)\<rparr>)"
  using assms(4)
proof (induction ds arbitrary: x)
  case Nil
  show ?case by (simp add: op_simps)
next
  case (Cons d ds)
  let ?p = "(published name ctx stream s)\<lparr>sv_sent := x\<rparr>"
  have d: "PublishDatagram_ok d" "h_name (pd_header d) = name" using Cons.prems by simp_all
  have step: "server_handle (really_delegate mk) ctx stream (enc_PublishDatagram d) ?p =
      (Inr (), (published name ctx stream s)\<lparr>sv_sent := x @ forwards (origin name ctx stream s) (enc_PublishDatagram d) rs s\<rparr>)"
    using relay_publish_run [OF d(1), of ?p mk rs ctx stream] assms(2,3)
    by (simp add: d(2) published_fields Let_def published_again [OF assms(1)] origin_published [OF assms(1)] forwards_published)
  show ?case
    using Cons.IH Cons.prems
    by (simp add: op_then_Inr [where m = "server_handle (really_delegate mk) ctx stream (enc_PublishDatagram d)", OF step])
qed

lemma relay_publish_all:
  assumes "server_inv s" and "publish_namespace_found name (sv_publish_namespaces s) = Inr True"
    and "Subscriptions_find mk name (sv_delegate s) = Inr rs"
    and "\<forall>d \<in> set ds. PublishDatagram_ok d \<and> h_name (pd_header d) = name" and "ds \<noteq> []"
  shows "op_for (map enc_PublishDatagram ds) (server_handle (really_delegate mk) ctx stream) s =
    (Inr (), (published name ctx stream s)\<lparr>sv_sent := sv_sent s @
       concat (map (\<lambda>d. forwards (origin name ctx stream s) (enc_PublishDatagram d) rs s) ds)\<rparr>)"
proof -
  obtain d es where ds: "ds = d # es" using assms(5) by (cases ds) auto
  have d: "PublishDatagram_ok d" "h_name (pd_header d) = name" using assms(4) by (simp_all add: ds)
  have step: "server_handle (really_delegate mk) ctx stream (enc_PublishDatagram d) s =
      (Inr (), (published name ctx stream s)\<lparr>sv_sent := sv_sent s @ forwards (origin name ctx stream s) (enc_PublishDatagram d) rs s\<rparr>)"
    using relay_publish_run [OF d(1), of s mk rs ctx stream] assms(2,3) by (simp add: d(2) Let_def)
  show ?thesis
    using relay_publish_more [OF assms(1-3), of es ctx stream] assms(4)
    by (simp add: ds op_then_Inr [where m = "server_handle (really_delegate mk) ctx stream (enc_PublishDatagram d)", OF step])
qed

lemma relay_publish_all_undefined:
  assumes "publish_namespace_found name (sv_publish_namespaces s) = Inr True"
    and "\<forall>d \<in> set ds. PublishDatagram_ok d \<and> h_name (pd_header d) = name" and "ds \<noteq> []"
  shows "fst (op_for (map enc_PublishDatagram ds) (server_handle (really_delegate mk_Namespace) ctx stream) s) =
    Inl undefined_behaviour"
proof -
  obtain d es where ds: "ds = d # es" using assms(3) by (cases ds) auto
  then have "fst (server_handle (really_delegate mk_Namespace) ctx stream (enc_PublishDatagram d) s) = Inl undefined_behaviour"
    using relay_publish_undefined [of d s ctx stream] assms(1,2) by simp
  then obtain t where "server_handle (really_delegate mk_Namespace) ctx stream (enc_PublishDatagram d) s = (Inl undefined_behaviour, t)"
    by (metis fst_eqD surj_pair)
  then show ?thesis by (simp add: ds op_then_def op_bind_def op_run)
qed

section \<open>What one connection is sent\<close>

definition inbox :: "TransportContextId \<Rightarrow> StreamId \<Rightarrow> (TransportContextId \<times> StreamId \<times> bytes) list \<Rightarrow> bytes list" where
  "inbox ctx stream sent = map (\<lambda>e. snd (snd e)) (filter (\<lambda>e. fst e = ctx \<and> fst (snd e) = stream) sent)"

lemma inbox_append [simp]: "inbox ctx stream (xs @ ys) = inbox ctx stream xs @ inbox ctx stream ys"
  by (simp add: inbox_def)

lemma inbox_concat: "inbox ctx stream (concat xss) = concat (map (inbox ctx stream) xss)"
  by (induction xss) (simp_all add: inbox_def)

text \<open>A subscriber is on a connection when messages to it go there.\<close>

definition on_connection :: "TransportContextId \<Rightarrow> StreamId \<Rightarrow> 'd Server \<Rightarrow> Remote \<Rightarrow> bool" where
  "on_connection ctx stream s r \<longleftrightarrow>
     (case map_find u64_lt (rm_subscribe_id r) (sv_subscribe_id_state s) of
        None \<Rightarrow> False
      | Some c \<Rightarrow> cx_transport_context_id c = ctx \<and> cx_transport_stream_id c = stream)"

lemma inbox_message_to:
  "inbox ctx stream (message_to (rm_subscribe_id r) m s) = (if on_connection ctx stream s r then [m] else [])"
  by (simp add: inbox_def message_to_def on_connection_def split: option.split)

lemma inbox_single:
  assumes "count_list rs r = 1" and "on_connection ctx stream s r"
    and "\<forall>r' \<in> set rs. on_connection ctx stream s r' \<longrightarrow> r' = r"
  shows "inbox ctx stream (concat (map (\<lambda>r. message_to (rm_subscribe_id r) m s) rs)) = [m]"
proof -
  have "filter (on_connection ctx stream s) rs = filter ((=) r) rs"
    using assms(2,3) by (intro filter_cong) auto
  moreover have "length (filter ((=) r) rs) = 1" using assms(1) by (simp add: count_list_eq_length_filter)
  moreover have "concat (map (\<lambda>r. if on_connection ctx stream s r then [m] else []) rs) =
      map (\<lambda>_. m) (filter (on_connection ctx stream s) rs)" by (induction rs) simp_all
  ultimately show ?thesis
    by (simp add: inbox_concat comp_def inbox_message_to map_replicate_const)
qed

lemma inbox_forwards:
  assumes "rm_context_id r = 0" and "src \<noteq> (0, 0)" and "count_list rs r = 1" and "on_connection ctx stream s r"
    and "\<forall>r' \<in> set rs. on_connection ctx stream s r' \<longrightarrow> r' = r"
    and "\<forall>r' \<in> set rs. zero_remote r'"
  shows "inbox ctx stream (forwards src m rs s) = [m]"
proof -
  have "filter (\<lambda>r. \<not> (rm_context_id r = fst src \<and> rm_stream_id r = snd src)) rs = rs"
    using assms(2,6) by (cases src) (auto simp: zero_remote_def filter_id_conv)
  then show ?thesis using inbox_single [OF assms(3-5)] by (simp add: forwards_def)
qed

section \<open>End to end\<close>

text \<open>One live subscription of a connection covers the name.\<close>

definition sole_subscription ::
  "TransportContextId \<Rightarrow> StreamId \<Rightarrow> Name \<Rightarrow> relay \<Rightarrow> Namespace \<Rightarrow> u64 \<Rightarrow> bool" where
  "sole_subscription ctx stream name s ns i \<longleftrightarrow>
     {p. ns_wf (fst p) \<and> p \<in> subs_abs (sv_delegate s) \<and> contains (fst p) name = Inr True \<and>
       on_connection ctx stream s (snd p)} = {(ns, remote_of i)}"

lemma sole_inbox:
  assumes "relay_inv s" and "sole_subscription ctx stream name s ns i" and "src \<noteq> (0, 0)"
    and count: "\<forall>r. count_list rs r = card {ns. ns_wf ns \<and> (ns, r) \<in> subs_abs (sv_delegate s) \<and> contains ns name = Inr True}"
  shows "inbox ctx stream (forwards src m rs s) = [m]"
proof -
  let ?P = "{p. ns_wf (fst p) \<and> p \<in> subs_abs (sv_delegate s) \<and> contains (fst p) name = Inr True \<and>
      on_connection ctx stream s (snd p)}"
  let ?N = "\<lambda>r. {ns. ns_wf ns \<and> (ns, r) \<in> subs_abs (sv_delegate s) \<and> contains ns name = Inr True}"
  have P: "?P = {(ns, remote_of i)}" using assms(2) by (simp only: sole_subscription_def)
  then have "(ns, remote_of i) \<in> ?P" by (simp only: singletonI)
  then have on: "on_connection ctx stream s (remote_of i)" and mem: "ns \<in> ?N (remote_of i)" by simp_all
  have sole: "ns' = ns \<and> r = remote_of i" if "ns' \<in> ?N r" "on_connection ctx stream s r" for ns' r
  proof -
    have "(ns', r) \<in> ?P" using that by simp
    then show ?thesis unfolding P by simp
  qed
  have "?N (remote_of i) = {ns}"
  proof (intro subset_antisym subsetI)
    fix x assume "x \<in> ?N (remote_of i)"
    from sole [OF this on] show "x \<in> {ns}" by simp
  next
    fix x assume "x \<in> {ns}"
    with mem show "x \<in> ?N (remote_of i)" by simp
  qed
  then have one: "count_list rs (remote_of i) = 1" using count by simp
  have listed: "(r = remote_of i \<or> \<not> on_connection ctx stream s r) \<and> zero_remote r" if r: "r \<in> set rs" for r
  proof -
    obtain ns' where ns': "ns' \<in> ?N r" using count r by (rule count_card_mem)
    have "subs_abs (sv_delegate s) \<subseteq> {p. zero_remote (snd p)}" using assms(1) by (simp add: relay_inv_def table_inv_def)
    moreover have "(ns', r) \<in> subs_abs (sv_delegate s)" using ns' by simp
    ultimately have "zero_remote r" by auto
    with sole [OF ns'] show ?thesis by blast
  qed
  show ?thesis
    by (rule inbox_forwards [OF _ assms(3) one on]) (use listed in \<open>auto simp: remote_of_def\<close>)
qed

lemma object_datagrams_ok:
  assumes "stream < 2 ^ 60" and "length data < 2 ^ 30"
  shows "\<forall>d \<in> set (object_datagrams stream name data). PublishDatagram_ok d \<and> h_name (pd_header d) = name"
proof
  fix d assume "d \<in> set (object_datagrams stream name data)"
  then obtain k where k: "k < frag_count data" "d = object_datagram stream name (frag_offset data k) (frag_bytes data k)"
    by (auto simp: object_datagrams_def)
  have "PublishDatagram_ok d"
    unfolding k(2) by (intro object_datagram_ok assms(1) frag_offset_bound length_frag_bytes)
      (use frag_count_less [OF k(1)] assms(2) in linarith)
  then show "PublishDatagram_ok d \<and> h_name (pd_header d) = name" by (simp add: k(2) object_datagram_def)
qed

lemma object_through_relay:
  assumes "transport_stream_id p < 2 ^ 60" and "publish_state p = []"
    and "\<forall>h m. accepts penv h (transport_context_id p) (transport_stream_id p) m"
    and "1200 < length data" and "length data < 2 ^ 30"
    and "relay_inv s"
    and "publish_namespace_found name (sv_publish_namespaces s) = Inr True" and "origin name pctx pstream s \<noteq> (0, 0)"
    and "sole_subscription cctx cstream name s ns i"
    and "room_for c name" and "namespaces_ok c"
  shows "\<exists>ms t out. publishNamedObject penv name data p = (Inr (), p\<lparr>events := events p @
      map (Enqueue (transport_context_id p) (transport_stream_id p)) ms\<rparr>) \<and>
    fst (op_for ms (server_handle (really_delegate mk_Namespace) pctx pstream) s) = Inl undefined_behaviour \<and>
    op_for ms (server_handle (really_delegate (mk_Namespace_on machine)) pctx pstream) s = (Inr (), t) \<and>
    sv_sent t = sv_sent s @ out \<and> inbox cctx cstream out = ms \<and>
    (\<forall>ms'. mset ms' = mset (inbox cctx cstream out) \<longrightarrow> op_for ms' (client_handle env) c =
       (Inr (), c\<lparr>fragments := map_touch int_lt [] (cindex_key c) (fragments c),
          events := events c @ map (\<lambda>d. OnSubscribedObject d name 0 0 False data) (subscribers env c name)\<rparr>))"
proof -
  let ?st = "transport_stream_id p"
  let ?ds = "object_datagrams ?st name data"
  let ?ms = "map enc_PublishDatagram ?ds"
  have inv: "server_inv s" "subs_wf (sv_delegate s)" "sv_delegate s ! 128 = []"
    using assms(6) by (simp_all add: relay_inv_def table_inv_def)
  have many: "1 < frag_count data"
    using frag_count_covers [of data] assms(4) by (cases "frag_count data") auto
  have pub: "publishNamedObject penv name data p = (Inr (), p\<lparr>events := events p @
      map (Enqueue (transport_context_id p) ?st) ?ms\<rparr>)"
    using publishNamedObject_run [OF assms(1,2,5), of penv name] assms(3) by (simp add: send_all_accepted)
  obtain rs where rs: "Subscriptions_find (mk_Namespace_on machine) name (sv_delegate s) = Inr rs"
    "\<forall>r. count_list rs r = card {ns. ns_wf ns \<and> (ns, r) \<in> subs_abs (sv_delegate s) \<and> contains ns name = Inr True}"
    using find_count [OF ctor_defined_machine inv(2,3)] by blast
  let ?o = "origin name pctx pstream s"
  let ?out = "concat (map (\<lambda>d. forwards ?o (enc_PublishDatagram d) rs s) ?ds)"
  have relay: "op_for ?ms (server_handle (really_delegate (mk_Namespace_on machine)) pctx pstream) s =
      (Inr (), (published name pctx pstream s)\<lparr>sv_sent := sv_sent s @ ?out\<rparr>)"
    by (rule relay_publish_all [OF inv(1) assms(7) rs(1) object_datagrams_ok [OF assms(1,5)] object_datagrams_not_Nil])
  have ub: "fst (op_for ?ms (server_handle (really_delegate mk_Namespace) pctx pstream) s) = Inl undefined_behaviour"
    by (rule relay_publish_all_undefined [OF assms(7) object_datagrams_ok [OF assms(1,5)] object_datagrams_not_Nil])
  have "inbox cctx cstream ?out = concat (map (\<lambda>d. [enc_PublishDatagram d]) ?ds)"
    by (simp add: inbox_concat comp_def sole_inbox [OF assms(6,9,8) rs(2)])
  then have inbox: "inbox cctx cstream ?out = ?ms" by simp
  have client: "op_for ms' (client_handle env) c =
       (Inr (), c\<lparr>fragments := map_touch int_lt [] (cindex_key c) (fragments c),
          events := events c @ map (\<lambda>d. OnSubscribedObject d name 0 0 False data) (subscribers env c name)\<rparr>)"
    if "mset ms' = mset (inbox cctx cstream ?out)" for ms'
    using receive_any_order [OF assms(1) many assms(5,10,11), of ms'] that by (simp add: inbox completed_def)
  show ?thesis
    using pub ub relay inbox client
    by (intro exI [of _ ?ms] exI [of _ "(published name pctx pstream s)\<lparr>sv_sent := sv_sent s @ ?out\<rparr>"] exI [of _ ?out]) simp
qed

text \<open>C3. From one application to the other: an object of more than one block and below 1 GiB that a client publishes goes out as
  a sequence of messages, as long as the transport accepts them. Let its name be in a namespace announced to the relay and in exactly one
  subscription on the connection of a subscriber, and let it not come from connection 0 on stream 0. In the language the relay's handling of them is undefined, at the lookup of the
  subscribers. A relay on a machine, whatever value that machine leaves behind the undefined shift, sends them to the connection of the
  subscriber message by message unchanged, and the client at the other end, with room for the name and receiving them in any order, hands the
  object, whole and once, to every delegate subscribed to its name.\<close>

theorem published_object_delivered:
  assumes "transport_stream_id p < 2 ^ 60" and "publish_state p = []"
    and "\<forall>h m. accepts penv h (transport_context_id p) (transport_stream_id p) m"
    and "1200 < length data" and "length data < 2 ^ 30"
    and "relay_inv s"
    and "publish_namespace_found name (sv_publish_namespaces s) = Inr True" and "origin name pctx pstream s \<noteq> (0, 0)"
    and "sole_subscription cctx cstream name s ns i"
    and "room_for c name" and "namespaces_ok c"
  shows "\<exists>ms t out. publishNamedObject penv name data p = (Inr (), p\<lparr>events := events p @
      map (Enqueue (transport_context_id p) (transport_stream_id p)) ms\<rparr>) \<and>
    fst (op_for ms (server_handle (really_delegate mk_Namespace) pctx pstream) s) = Inl undefined_behaviour \<and>
    op_for ms (server_handle (really_delegate (mk_Namespace_on machine)) pctx pstream) s = (Inr (), t) \<and>
    sv_sent t = sv_sent s @ out \<and> inbox cctx cstream out = ms \<and>
    (\<forall>ms'. mset ms' = mset (inbox cctx cstream out) \<longrightarrow> op_for ms' (client_handle env) c =
       (Inr (), c\<lparr>fragments := map_touch int_lt [] (cindex_key c) (fragments c),
          events := events c @ map (\<lambda>d. OnSubscribedObject d name 0 0 False data) (subscribers env c name)\<rparr>))"
  using assms by (rule object_through_relay)

lemma relay_three_table:
  "subs_abs (sv_delegate relay_three) = {(sample_ns, remote_of 0), (sample_ns, remote_of 1)}"
proof -
  have new: "subscriber_of sample_ns 1 ReallyServer = 0" "subs_abs (sv_delegate ReallyServer) = {}"
    by (simp_all add: subscriber_of_def subscribers_of_def ReallyServer_def QuicRServer_def subs_abs_new)
  have one: "subscriber_of sample_ns 2 relay_one = 1"
    by (simp add: relay_one_def relay_subscribed_def Let_def subscribed_def subscribers_of_def subscriber_of_def
        ReallyServer_def QuicRServer_def map_get_def map_has_def ns_order.irrefl)
  have "subs_abs (sv_delegate relay_one) = {(sample_ns, remote_of 0)}"
    using subs_abs_table_add [OF sample_relays(1) sample_ns_wf] new
    by (simp add: relay_one_def relay_subscribed_def Let_def)
  then have "subs_abs (sv_delegate relay_two) = {(sample_ns, remote_of 1), (sample_ns, remote_of 0)}"
    using subs_abs_table_add [OF sample_relays(2) sample_ns_wf] one
    by (simp add: relay_two_def relay_subscribed_def Let_def)
  then show ?thesis by (auto simp: relay_three_def)
qed

lemma relay_three_connections:
  "on_connection 1 10 relay_three (remote_of 0)" "\<not> on_connection 1 10 relay_three (remote_of 1)"
  using relay_two_contexts(2) by (simp_all add: on_connection_def relay_three_def remote_of_def new_context_def)

lemma sample_ns_contains: "contains sample_ns sample_name = Inr True"
  by code_simp

theorem published_object_delivered_witness:
  "\<exists>ms t out. publishNamedObject sample_env sample_name (replicate 2500 7) (new_client 1 2) =
      (Inr (), (new_client 1 2)\<lparr>events := events (new_client 1 2) @ map (Enqueue 1 2) ms\<rparr>) \<and>
    op_for ms (server_handle (really_delegate (mk_Namespace_on x86_64)) 3 30) relay_three = (Inr (), t) \<and>
    sv_sent t = sv_sent relay_three @ out \<and> inbox 1 10 out = ms \<and>
    events (snd (op_for (rev ms) (client_handle sample_env) sample_client)) =
      [OnSubscribedObject 0 sample_name 0 0 False (replicate 2500 7)]"
proof -
  let ?p = "new_client 1 2" and ?data = "replicate 2500 7 :: bytes"
  have sole: "sole_subscription 1 10 sample_name relay_three sample_ns 0"
    unfolding sole_subscription_def relay_three_table
    using relay_three_connections sample_ns_contains sample_ns_wf by auto
  have found: "publish_namespace_found sample_name (sv_publish_namespaces relay_three) = Inr True"
    by (simp add: relay_three_def sample_ns_contains)
  have "sv_publish_state relay_three = []"
    by (simp add: relay_three_def relay_two_def relay_one_def relay_subscribed_def Let_def subscribed_def
        ReallyServer_def QuicRServer_def)
  then have o: "origin sample_name 3 30 relay_three \<noteq> (0, 0)" by (simp add: origin_def)
  have client: "transport_stream_id ?p < 2 ^ 60" "publish_state ?p = []"
    "\<forall>h m. accepts sample_env h (transport_context_id ?p) (transport_stream_id ?p) m"
    "1200 < length ?data" "length ?data < 2 ^ 30"
    by (simp_all add: new_client_def sample_env_def)
  have subs: "subscribers sample_env sample_client sample_name = [0]" "events sample_client = []"
    by (simp_all add: subscribers_def sample_client_def sample_ns_contains sample_env_def new_client_def)
  from published_object_delivered [OF client sample_relays(4) found o sole sample_client_room,
      of x86_64 sample_env]
  obtain ms t out where r: "publishNamedObject sample_env sample_name ?data ?p = (Inr (), ?p\<lparr>events := events ?p @
      map (Enqueue (transport_context_id ?p) (transport_stream_id ?p)) ms\<rparr>)"
    "op_for ms (server_handle (really_delegate (mk_Namespace_on x86_64)) 3 30) relay_three = (Inr (), t)"
    "sv_sent t = sv_sent relay_three @ out" "inbox 1 10 out = ms"
    "\<forall>ms'. mset ms' = mset (inbox 1 10 out) \<longrightarrow> op_for ms' (client_handle sample_env) sample_client =
       (Inr (), sample_client\<lparr>fragments := map_touch int_lt [] (cindex_key sample_client) (fragments sample_client),
          events := events sample_client @ map (\<lambda>d. OnSubscribedObject d sample_name 0 0 False ?data)
            (subscribers sample_env sample_client sample_name)\<rparr>)" by blast
  have "op_for (rev ms) (client_handle sample_env) sample_client =
       (Inr (), sample_client\<lparr>fragments := map_touch int_lt [] (cindex_key sample_client) (fragments sample_client),
          events := [OnSubscribedObject 0 sample_name 0 0 False ?data]\<rparr>)"
    using r(5) [rule_format, of "rev ms"] r(4) by (simp add: subs)
  with r(1-4) show ?thesis
    by (intro exI [of _ ms] exI [of _ t] exI [of _ out]) (simp add: new_client_def)
qed

end
