(* ===== verification/Control_Flows.thy ===== *)
theory Control_Flows
  imports Delivery
begin

text \<open>
  The control flows between the clients and the relay, end to end: what a call of the client's API
  puts on the wire, what the relay does with it, and what the application is told when the answer
  comes back. The flows are compositions of the operations of \<^verbatim>\<open>quicr_client.cpp\<close>, \<^verbatim>\<open>quicr_server.cpp\<close>
  and \<^verbatim>\<open>really.cpp\<close>; the flow of an unsubscription is the first one of \<^verbatim>\<open>docs/unsubscribe-flows.md\<close>.
  \<open>session_delivers\<close> puts them together: a session of two clients with a fresh relay.
\<close>

section \<open>What the two ends leave behind\<close>

abbreviation (input) subscribe_request :: "u64 \<Rightarrow> Namespace \<Rightarrow> SubscribeIntent \<Rightarrow> bytes" where
  "subscribe_request tid ns intent \<equiv>
     enc_Subscribe \<lparr>s_version = 1, s_transaction_id = tid, s_namespace = ns, s_intent = intent\<rparr>"

abbreviation (input) unsubscribe_request :: "Namespace \<Rightarrow> bytes" where
  "unsubscribe_request ns \<equiv> enc_Unsubscribe \<lparr>u_version = 1, u_namespace = ns\<rparr>"

text \<open>The version is not sent: the relay decodes whatever its default-initialised message holds.\<close>

lemma version_not_sent:
  "enc_Subscribe (m\<lparr>s_version := v\<rparr>) = enc_Subscribe m" "enc_Unsubscribe (u\<lparr>u_version := v\<rparr>) = enc_Unsubscribe u"
  by (simp_all add: enc_Subscribe_def enc_Unsubscribe_def)

lemma relay_subscribe_request:
  assumes "ctor_agrees mk" and "relay_inv s" and "ns_wf ns" and "SubscribeIntent_cast (SubscribeIntent_code intent) = intent"
  shows "server_handle (really_delegate mk) ctx stream (subscribe_request tid ns intent) s =
      (Inr (), relay_subscribed ns ctx stream s)"
    and "relay_inv (relay_subscribed ns ctx stream s)"
proof -
  let ?m = "\<lparr>s_version = 0, s_transaction_id = tid, s_namespace = ns, s_intent = intent\<rparr>"
  have ok: "Subscribe_ok 0 ?m" using assms(3,4) by (simp add: Subscribe_ok_def intent.named_def)
  show "server_handle (really_delegate mk) ctx stream (subscribe_request tid ns intent) s =
      (Inr (), relay_subscribed ns ctx stream s)"
    using relay_subscribe_run(1) [OF assms(1,2) ok, of ctx stream] version_not_sent(1) [of 1 ?m] by simp
  show "relay_inv (relay_subscribed ns ctx stream s)"
    using relay_subscribe_run(2) [OF assms(1,2) ok, of ctx stream] by simp
qed

lemma relay_unsubscribe_request:
  assumes "ctor_agrees mk" and "relay_inv s" and "ns_wf ns"
    and "map_find u64_lt ctx (subscribers_of ns s) = Some sc"
  shows "server_handle (really_delegate mk) ctx stream (unsubscribe_request ns) s =
      (Inr (), relay_unsubscribed ns ctx (ssc_subscriber_id sc) s)"
proof -
  let ?m = "\<lparr>u_version = 0, u_namespace = ns\<rparr>"
  have ok: "Unsubscribe_ok 0 ?m" using assms(3) by (simp add: Unsubscribe_ok_def)
  show ?thesis
    using relay_unsubscribe_run(1) [OF assms(1,2) ok, of ctx sc stream] assms(4) version_not_sent(2) [of 1 ?m] by simp
qed

text \<open>A first subscription: the relay's answer and who the new subscriber is.\<close>

lemma first_subscription:
  assumes "relay_inv s" and "map_find u64_lt ctx (subscribers_of ns s) = None"
  defines "i \<equiv> sv_subscriber_id s"
  shows "sv_sent (relay_subscribed ns ctx stream s) = sv_sent s @ [(ctx, stream, subscribe_ok_msg i ns)]"
    and "map_find u64_lt i (sv_subscribe_id_state (relay_subscribed ns ctx stream s)) = Some (new_context ctx stream i)"
    and "map_find u64_lt ctx (subscribers_of ns (relay_subscribed ns ctx stream s)) = Some (new_context ctx stream i)"
    and "sv_delegate (relay_subscribed ns ctx stream s) = table_add ns (remote_of i) (sv_delegate s)"
proof -
  have inv: "server_inv s" using assms(1) by (simp add: relay_inv_def)
  have wf: "map_wf u64_lt (sv_subscribe_id_state s)" "map_wf u64_lt (subscribers_of ns s)"
    "map_wf Namespace_lt (sv_subscribe_state s)"
    using inv subscribers_of_ok(1) [OF inv] by (simp_all add: server_inv_def)
  note simps = relay_subscribed_def Let_def subscriber_of_def subscribed_def map_has_def message_to_def
    u64_order.find_set [OF wf(1)] u64_order.eqv_refl new_context_def assms(2) i_def
  show "sv_sent (relay_subscribed ns ctx stream s) = sv_sent s @ [(ctx, stream, subscribe_ok_msg i ns)]"
    and "map_find u64_lt i (sv_subscribe_id_state (relay_subscribed ns ctx stream s)) = Some (new_context ctx stream i)"
    and "sv_delegate (relay_subscribed ns ctx stream s) = table_add ns (remote_of i) (sv_delegate s)"
    by (simp_all add: simps)
  have "subscribers_of ns (relay_subscribed ns ctx stream s) = map_set u64_lt ctx (new_context ctx stream i) (subscribers_of ns s)"
    using subscribers_set [OF wf(3)] by (simp add: relay_subscribed_def Let_def subscribed_def map_has_def subscribers_of_def i_def assms(2)
       [unfolded subscribers_of_def])
  then show "map_find u64_lt ctx (subscribers_of ns (relay_subscribed ns ctx stream s)) = Some (new_context ctx stream i)"
    by (simp add: u64_order.find_set [OF wf(2)] u64_order.eqv_refl)
qed

lemma subscribe_ok_told:
  assumes "ns_wf ns"
  shows "client_handle env (subscribe_ok_msg i ns) c =
    (Inr (), c\<lparr>events := events c @ told env (sub_delegates c) ns (\<lambda>d. OnSubscribeResponse d ns (SubscribeResult_of Status_Ok))\<rparr>)"
  using told_SubscribeResponse [of "\<lparr>sr_namespace = ns, sr_response = Status_Ok, sr_transaction_id = i\<rparr>" env c] assms
  by (simp add: SubscribeResponse_ok_def status_ok_named subscribe_ok_msg_def)

lemma subscribe_end_told:
  assumes "ns_wf ns"
  shows "client_handle env (subscribe_end_msg ns) c =
    (Inr (), c\<lparr>subscribe_state := map_erase Namespace_lt ns (subscribe_state c),
       sub_delegates := map_erase Namespace_lt ns (sub_delegates c),
       events := events c @ told env (sub_delegates c) ns (\<lambda>d. OnSubscriptionEnded d ns Status_Ok)\<rparr>)"
  using told_SubscribeEnd [of "\<lparr>se_namespace = ns, se_reason = Status_Ok\<rparr>" env c] assms
  by (simp add: SubscribeEnd_ok_def status_ok_named subscribe_end_msg_def)

section \<open>Subscribing and unsubscribing through the relay\<close>

text \<open>C11. The flow of a first subscription: the client's one message, handled by the relay, is answered
  with one message to the same connection and stream, and on it the client tells the
  application \<^verbatim>\<open>Ok\<close>. Afterwards the subscriber is in the relay's table under the namespace, its id
  leads to the connection, the client has its delegate, and both invariants hold.\<close>

theorem subscribe_flow:
  assumes "client_inv N B c" and "ns_wf ns" and "SubscribeIntent_cast (SubscribeIntent_code intent) = intent"
    and "map_find Namespace_lt ns (sub_delegates c) = None" and "alive env d"
    and "ctor_agrees mk" and "relay_inv s" and "map_find u64_lt ctx (subscribers_of ns s) = None"
  shows "\<exists>m r c1 c2 t. subscribe env tid d ns intent c = (Inr (), c1) \<and>
    events c1 = events c @ [Enqueue (transport_context_id c) (transport_stream_id c) m] \<and>
    server_handle (really_delegate mk) ctx stream m s = (Inr (), t) \<and> sv_sent t = sv_sent s @ [(ctx, stream, r)] \<and>
    client_handle env r c1 = (Inr (), c2) \<and>
    events c2 = events c1 @ [OnSubscribeResponse d ns (SubscribeResult_of Status_Ok)] \<and>
    map_find Namespace_lt ns (sub_delegates c2) = Some d \<and> map_has Namespace_lt ns (subscribe_state c2) \<and>
    subs_abs (sv_delegate t) = insert (ns, remote_of (sv_subscriber_id s)) (subs_abs (sv_delegate s)) \<and>
    on_connection ctx stream t (remote_of (sv_subscriber_id s)) \<and> client_inv N B c2 \<and> relay_inv t"
proof -
  let ?t = "relay_subscribed ns ctx stream s" and ?i = "sv_subscriber_id s"
  obtain c1 where c1: "subscribe env tid d ns intent c = (Inr (), c1)"
    "sub_delegates c1 = map_emplace Namespace_lt ns d (sub_delegates c)"
    "events c1 = events c @ [Enqueue (transport_context_id c) (transport_stream_id c) (subscribe_request tid ns intent)]"
    "map_has Namespace_lt ns (subscribe_state c1)"
    using subscribe_run [OF assms(1-3), of env tid d] client_inv_pending(1) [OF assms(1)]
    by (simp add: map_has_def ns_order.find_emplace ns_order.eqv_refl)
  have inv1: "client_inv N B c1" using op_keepsD [OF keeps_subscribe assms(1) c1(1)] by simp
  have d: "map_find Namespace_lt ns (sub_delegates c1) = Some d"
    using client_inv_delegates_wf(1) [OF assms(1)] assms(4)
    by (simp add: c1(2) ns_order.find_emplace ns_order.eqv_refl)
  let ?c2 = "c1\<lparr>events := events c1 @ [OnSubscribeResponse d ns (SubscribeResult_of Status_Ok)]\<rparr>"
  have told: "client_handle env (subscribe_ok_msg ?i ns) c1 = (Inr (), ?c2)"
    using subscribe_ok_told [OF assms(2), of env ?i c1] d assms(5) by (simp add: told_def)
  note first = first_subscription [OF assms(7,8), of stream]
  have "subs_abs (sv_delegate ?t) = insert (ns, remote_of ?i) (subs_abs (sv_delegate s))"
    using subs_abs_table_add [OF assms(7,2)] by (simp add: first(4))
  moreover have "on_connection ctx stream ?t (remote_of ?i)"
    using first(2) by (simp add: on_connection_def remote_of_def new_context_def)
  ultimately show ?thesis
    using c1 d told inv1 first(1) relay_subscribe_request [OF assms(6,7,2,3)]
    by (intro exI [of _ "subscribe_request tid ns intent"] exI [of _ "subscribe_ok_msg ?i ns"] exI [of _ c1]
        exI [of _ ?c2] exI [of _ ?t]) simp
qed

text \<open>C10. The flow of an unsubscription (flow 1 of \<^verbatim>\<open>docs/unsubscribe-flows.md\<close>): the client's one message,
  handled by the relay, is answered with one message to the connection of the subscriber; on
  it the client tells the application, exactly once, that the subscription ended, and forgets the
  delegate and the context. The relay sends nothing to the subscriber from then on; yet, unlike the
  flow in the document, the application keeps its state for the subscription: the table is
  unchanged.\<close>

theorem unsubscribe_flow:
  assumes "client_inv N B c" and "ns_wf ns" and "map_find Namespace_lt ns (sub_delegates c) = Some d" and "alive env d"
    and "ctor_agrees mk" and "relay_inv s" and "map_find u64_lt ctx (subscribers_of ns s) = Some sc"
    and "map_find u64_lt (ssc_subscriber_id sc) (sv_subscribe_id_state s) = Some (new_context ctx stream (ssc_subscriber_id sc))"
  shows "\<exists>m r c1 c2 t. unsubscribe env ns c = (Inr (), c1) \<and>
    events c1 = events c @ [Enqueue (transport_context_id c) (transport_stream_id c) m] \<and>
    server_handle (really_delegate mk) ctx stream' m s = (Inr (), t) \<and> sv_sent t = sv_sent s @ [(ctx, stream, r)] \<and>
    client_handle env r c1 = (Inr (), c2) \<and> events c2 = events c1 @ [OnSubscriptionEnded d ns Status_Ok] \<and>
    \<not> map_has Namespace_lt ns (sub_delegates c2) \<and> \<not> map_has Namespace_lt ns (subscribe_state c2) \<and>
    (\<forall>msg. message_to (ssc_subscriber_id sc) msg t = []) \<and> sv_delegate t = sv_delegate s"
proof -
  let ?i = "ssc_subscriber_id sc"
  let ?t = "relay_unsubscribed ns ctx ?i s"
  note wf = client_inv_delegates_wf(1) [OF assms(1)] client_inv_pending(1) [OF assms(1)]
  define c1 where "c1 = c\<lparr>subscribe_state := map_erase Namespace_lt ns (subscribe_state c),
     events := events c @ [Enqueue (transport_context_id c) (transport_stream_id c) (unsubscribe_request ns)]\<rparr>"
  have run: "unsubscribe env ns c = (Inr (), c1)" using unsubscribe_run [OF assms(2)] by (simp add: c1_def)
  define c2 where "c2 = c1\<lparr>subscribe_state := map_erase Namespace_lt ns (subscribe_state c1),
     sub_delegates := map_erase Namespace_lt ns (sub_delegates c1), events := events c1 @ [OnSubscriptionEnded d ns Status_Ok]\<rparr>"
  have told: "client_handle env (subscribe_end_msg ns) c1 = (Inr (), c2)"
    using subscribe_end_told [OF assms(2), of env c1] assms(3,4) by (simp add: told_def c2_def c1_def)
  have gone: "\<not> map_has Namespace_lt ns (sub_delegates c2)" "\<not> map_has Namespace_lt ns (subscribe_state c2)"
    using wf by (simp_all add: c2_def c1_def map_has_def ns_order.find_erase ns_order.wf_erase ns_order.eqv_refl)
  have "map_wf u64_lt (sv_subscribe_id_state s)" using assms(6) by (simp add: relay_inv_def server_inv_def)
  then have "message_to ?i msg ?t = []" for msg
    by (simp add: message_to_def relay_unsubscribed_def u64_order.find_erase u64_order.eqv_refl)
  moreover have "sv_sent ?t = sv_sent s @ [(ctx, stream, subscribe_end_msg ns)]"
    using assms(8) by (simp add: relay_unsubscribed_def message_to_def new_context_def)
  moreover have "sv_delegate ?t = sv_delegate s" by (simp add: relay_unsubscribed_def)
  ultimately show ?thesis
    using run told gone relay_unsubscribe_request [OF assms(5,6,2,7), of stream']
    by (intro exI [of _ "unsubscribe_request ns"] exI [of _ "subscribe_end_msg ns"] exI [of _ c1] exI [of _ c2] exI [of _ ?t])
      (simp add: c1_def c2_def)
qed

section \<open>Announcing a namespace\<close>

abbreviation (input) intent_request :: "u64 \<Rightarrow> Namespace \<Rightarrow> bytes \<Rightarrow> StreamId \<Rightarrow> bytes" where
  "intent_request tid ns payload stream \<equiv> enc_PublishIntent
     \<lparr>pi_message_type = MT_PublishIntent, pi_transaction_id = tid, pi_namespace = ns, pi_payload = payload,
      pi_media_id = stream, pi_datagram_capable = 1\<rparr>"

lemma publishIntent_run:
  assumes "ns_wf ns" and "length payload < 2 ^ 16" and "transport_stream_id c < 2 ^ 60"
  shows "\<exists>ok. publishIntent env tid d ns payload c =
    (Inr ok, c\<lparr>pub_delegates := map_emplace Namespace_lt ns d (pub_delegates c),
       events := events c @ [Enqueue (transport_context_id c) (transport_stream_id c)
         (intent_request tid ns payload (transport_stream_id c))]\<rparr>)"
proof -
  let ?m = "\<lparr>pi_message_type = MT_PublishIntent, pi_transaction_id = tid, pi_namespace = ns, pi_payload = payload,
      pi_media_id = transport_stream_id c, pi_datagram_capable = 1\<rparr>"
  have "PublishIntent_ok ?m"
    using assms(1-3) by (simp add: PublishIntent_ok_def message_type.named_def MessageType_cast_def vec_ok_def uintVar_ok_def)
  then have put: "put_PublishIntent [] ?m = Inr (enc_PublishIntent ?m)" using publish_intent.put_enc [of ?m "[]"] by simp
  have "transport_stream_id c < 2 ^ 61" using assms(3) by (rule order_less_trans) simp
  then have var: "mk_uintVar (transport_stream_id c) = Inr (transport_stream_id c)" "mk_uintVar 1 = Inr 1"
    by (simp_all add: mk_uintVar_def not_le word_less_nat_alt)
  show ?thesis
    using var put by (cases "map_has Namespace_lt ns (pub_delegates c)")
      (auto simp: publishIntent_def op_simps map_emplace_def)
qed

lemma relay_intent_request:
  assumes "relay_inv s" and "ns_wf ns" and "length payload < 2 ^ 16" and "mid < 2 ^ 60"
  shows "server_handle (really_delegate mk) ctx stream (intent_request tid ns payload mid) s =
    (let c = intent_context ns ctx stream tid s in
     (Inr (), s\<lparr>sv_publish_namespaces := map_set Namespace_lt ns (c\<lparr>cx_state := Context_Ready\<rparr>) (sv_publish_namespaces s),
       sv_sent := sv_sent s @ [(cx_transport_context_id c, cx_transport_stream_id c, intent_ok_msg ns (pic_transaction_id c))]\<rparr>))"
proof -
  let ?m = "\<lparr>pi_message_type = MT_PublishIntent, pi_transaction_id = tid, pi_namespace = ns, pi_payload = payload,
      pi_media_id = mid, pi_datagram_capable = 1\<rparr>"
  have inv: "server_inv s" using assms(1) by (simp add: relay_inv_def)
  have "PublishIntent_ok ?m"
    using assms(2-4) by (simp add: PublishIntent_ok_def message_type.named_def MessageType_cast_def vec_ok_def uintVar_ok_def)
  then have get: "get_PublishIntent (enc_PublishIntent ?m) = Inr (?m, [])"
    using publish_intent.get_enc [of ?m "[]"] by simp
  obtain tl where "enc_PublishIntent ?m = MessageType_code MT_PublishIntent # tl"
    by (simp add: enc_PublishIntent_def enc_type_def enc_u8_def)
  then have "server_handle (really_delegate mk) ctx stream (enc_PublishIntent ?m) s =
      handle_publish_intent (really_delegate mk) ctx stream (enc_PublishIntent ?m) s"
    by (simp add: server_handle_def MessageType_cast_def)
  with handle_publish_intent_run [OF inv get, of mk ctx stream] show ?thesis by (simp add: Let_def)
qed

lemma intent_ok_told:
  assumes "ns_wf ns"
  shows "client_handle env (intent_ok_msg ns tid) c =
    (Inr (), c\<lparr>events := events c @ told env (pub_delegates c) ns
       (\<lambda>d. OnPublishIntentResponse d ns (PublishIntentResult_of Response_Ok))\<rparr>)"
proof -
  let ?r = "\<lparr>pir_message_type = MT_PublishIntentResponse, pir_namespace = ns, pir_response = Response_Ok, pir_transaction_id = tid\<rparr>"
  have "PublishIntentResponse_ok ?r"
    using assms by (simp add: PublishIntentResponse_ok_def message_type.named_def response.named_def MessageType_cast_def Response_cast_def)
  from told_PublishIntentResponse [OF this, of env c] show ?thesis by (simp add: intent_ok_msg_def)
qed

text \<open>An announced namespace makes every name below it known to the relay.\<close>

lemma announced:
  assumes "server_inv s" and "ns_wf ns" and "contains ns name = Inr True"
    and "map_find Namespace_lt ns (sv_publish_namespaces s) = None"
  shows "publish_namespace_found name (map_set Namespace_lt ns x (sv_publish_namespaces s)) = Inr True"
proof -
  let ?ps = "sv_publish_namespaces s"
  have wf: "list_all (\<lambda>e. ns_wf (fst e)) ?ps" using assms(1) by (simp add: server_inv_def)
  have "list_all (\<lambda>e. ns_wf (fst e)) (map_set Namespace_lt ns x ?ps)"
    by (rule list_all_set [OF wf]) (use assms(2) in simp_all)
  moreover have "(ns, x) \<in> set (map_set Namespace_lt ns x ps)" if "map_find Namespace_lt ns ps = None"
    for ps :: "(Namespace \<times> PublishIntentContext) list"
    using that by (induction ps) (auto split: if_splits)
  ultimately show ?thesis
    using assms(3,4) by (subst publish_namespace_found_eq) (force simp: list_ex_iff)+
qed

text \<open>C12. The flow of a publish intent for a namespace nobody has announced: the client's one message is
  answered with \<^verbatim>\<open>Ok\<close> to the same connection and stream, the application is told so, and
  from then on the relay accepts the objects whose name the namespace contains.\<close>

theorem publish_intent_flow:
  assumes "client_inv N B c" and "ns_wf ns" and "length payload < 2 ^ 16" and "transport_stream_id c < 2 ^ 60"
    and "map_find Namespace_lt ns (pub_delegates c) = None" and "alive env d"
    and "relay_inv s" and "map_find Namespace_lt ns (sv_publish_namespaces s) = None"
  shows "\<exists>ok m r c1 c2 t. publishIntent env tid d ns payload c = (Inr ok, c1) \<and>
    events c1 = events c @ [Enqueue (transport_context_id c) (transport_stream_id c) m] \<and>
    server_handle (really_delegate mk) ctx stream m s = (Inr (), t) \<and> sv_sent t = sv_sent s @ [(ctx, stream, r)] \<and>
    client_handle env r c1 = (Inr (), c2) \<and>
    events c2 = events c1 @ [OnPublishIntentResponse d ns (PublishIntentResult_of Response_Ok)] \<and>
    (\<forall>name. contains ns name = Inr True \<longrightarrow> publish_namespace_found name (sv_publish_namespaces t) = Inr True)"
proof -
  let ?m = "intent_request tid ns payload (transport_stream_id c)"
  have inv: "server_inv s" using assms(7) by (simp add: relay_inv_def)
  obtain ok c1 where c1: "publishIntent env tid d ns payload c = (Inr ok, c1)"
    "pub_delegates c1 = map_emplace Namespace_lt ns d (pub_delegates c)"
    "events c1 = events c @ [Enqueue (transport_context_id c) (transport_stream_id c) ?m]"
    using publishIntent_run [OF assms(2-4), of env tid d] by auto
  have d: "map_find Namespace_lt ns (pub_delegates c1) = Some d"
    using client_inv_delegates_wf(2) [OF assms(1)] assms(5)
    by (simp add: c1(2) ns_order.find_emplace ns_order.eqv_refl)
  let ?c2 = "c1\<lparr>events := events c1 @ [OnPublishIntentResponse d ns (PublishIntentResult_of Response_Ok)]\<rparr>"
  have told: "client_handle env (intent_ok_msg ns tid) c1 = (Inr (), ?c2)"
    using intent_ok_told [OF assms(2), of env tid c1] d assms(6) by (simp add: told_def)
  let ?x = "(intent_context ns ctx stream tid s)\<lparr>cx_state := Context_Ready\<rparr>"
  let ?t = "s\<lparr>sv_publish_namespaces := map_set Namespace_lt ns ?x (sv_publish_namespaces s),
     sv_sent := sv_sent s @ [(ctx, stream, intent_ok_msg ns tid)]\<rparr>"
  have "server_handle (really_delegate mk) ctx stream ?m s = (Inr (), ?t)"
    using relay_intent_request [OF assms(7,2,3,4), of mk ctx stream tid] assms(8) by (simp add: intent_context_def)
  moreover have "\<forall>name. contains ns name = Inr True \<longrightarrow> publish_namespace_found name (sv_publish_namespaces ?t) = Inr True"
    using announced [OF inv assms(2) _ assms(8)] by simp
  ultimately show ?thesis
    using c1 told
    by (intro exI [of _ ok] exI [of _ ?m] exI [of _ "intent_ok_msg ns tid"] exI [of _ c1] exI [of _ ?c2] exI [of _ ?t]) simp
qed

section \<open>A whole session\<close>

text \<open>The states of a session: a client that has subscribed and been answered, one that has announced a
  namespace and been answered, and the relay after both.\<close>

definition session_subscriber :: "TransportContextId \<Rightarrow> StreamId \<Rightarrow> u64 \<Rightarrow> delegate \<Rightarrow> Namespace \<Rightarrow> client_event list \<Rightarrow> Client" where
  "session_subscriber cx st tid d ns evs = (new_client cx st)\<lparr>sub_delegates := [(ns, d)],
     subscribe_state := [(ns, \<lparr>sc_state = State_Pending, sc_transport_context_id = cx, sc_transport_stream_id = st,
       sc_transaction_id = tid\<rparr>)], events := evs\<rparr>"

definition session_relay :: "Namespace \<Rightarrow> TransportContextId \<Rightarrow> StreamId \<Rightarrow> Namespace \<Rightarrow> TransportContextId \<Rightarrow> StreamId \<Rightarrow> u64 \<Rightarrow> relay" where
  "session_relay ns a ast pns b bst tid =
     (let s = relay_subscribed ns a ast ReallyServer in
      s\<lparr>sv_publish_namespaces := [(pns, \<lparr>cx_state = Context_Ready, cx_transport_context_id = b,
          cx_transport_stream_id = bst, pic_transaction_id = tid\<rparr>)],
        sv_sent := sv_sent s @ [(b, bst, intent_ok_msg pns tid)]\<rparr>)"

lemma new_relay_fields:
  "map_find u64_lt a (subscribers_of ns ReallyServer) = None" "sv_publish_namespaces (relay_subscribed ns a ast ReallyServer) = []"
  "sv_publish_state (relay_subscribed ns a ast ReallyServer) = []" "sv_subscriber_id ReallyServer = 0" "sv_sent ReallyServer = []"
  "subs_abs (sv_delegate ReallyServer) = {}"
  by (simp_all add: ReallyServer_def QuicRServer_def subscribers_of_def relay_subscribed_def subscribed_def Let_def subs_abs_new)

lemma session_subscribe:
  assumes "ns_wf ns" and "SubscribeIntent_cast (SubscribeIntent_code intent) = intent" and "alive env d"
  shows "subscribe env tid d ns intent (new_client cx st) =
      (Inr (), session_subscriber cx st tid d ns [Enqueue cx st (subscribe_request tid ns intent)])"
    and "client_handle env (subscribe_ok_msg i ns) (session_subscriber cx st tid d ns evs) =
      (Inr (), session_subscriber cx st tid d ns (evs @ [OnSubscribeResponse d ns (SubscribeResult_of Status_Ok)]))"
  using subscribe_run [OF new_client_inv assms(1,2), of env tid d cx st]
    subscribe_ok_told [OF assms(1), of env i "session_subscriber cx st tid d ns evs"] assms(3)
  by (simp_all add: session_subscriber_def new_client_def map_emplace_def map_has_def told_def ns_order.irrefl)

lemma session_announce:
  assumes "relay_inv (relay_subscribed ns a ast ReallyServer)" and "ns_wf pns" and "length payload < 2 ^ 16" and "mid < 2 ^ 60"
  shows "server_handle (really_delegate mk) b bst (intent_request tid pns payload mid) (relay_subscribed ns a ast ReallyServer) =
      (Inr (), session_relay ns a ast pns b bst tid)"
  using relay_intent_request [OF assms, of mk b bst tid]
  by (simp add: session_relay_def Let_def intent_context_def new_relay_fields)

lemma session_sole:
  assumes "ns_wf ns" and "contains ns name = Inr True"
  shows "sole_subscription a ast name (session_relay ns a ast pns b bst tid) ns 0"
proof -
  note first = first_subscription [OF sample_relays(1) new_relay_fields(1) [of a ns], where stream = ast, unfolded new_relay_fields]
  have "subs_abs (sv_delegate (session_relay ns a ast pns b bst tid)) = {(ns, remote_of 0)}"
    using subs_abs_table_add [OF sample_relays(1) assms(1)] by (simp add: session_relay_def Let_def first(4) new_relay_fields)
  moreover have "on_connection a ast (session_relay ns a ast pns b bst tid) (remote_of 0)"
    using first(2) by (simp add: session_relay_def Let_def on_connection_def remote_of_def new_context_def)
  ultimately show ?thesis unfolding sole_subscription_def using assms by auto
qed

lemma session_room:
  assumes "ns_wf ns"
  shows "room_for (session_subscriber cx st tid d ns evs) name" "namespaces_ok (session_subscriber cx st tid d ns evs)"
  using new_client_inv [of cx st] assms
  by (simp_all add: room_for_def session_subscriber_def client_inv_def namespaces_ok_def)
    (simp add: new_client_def find_buffer_def)

definition session_publisher :: "TransportContextId \<Rightarrow> StreamId \<Rightarrow> delegate \<Rightarrow> Namespace \<Rightarrow> client_event list \<Rightarrow> Client" where
  "session_publisher cx st e pns evs = (new_client cx st)\<lparr>pub_delegates := [(pns, e)], events := evs\<rparr>"

lemma session_intent:
  assumes "ns_wf pns" and "length payload < 2 ^ 16" and "st < 2 ^ 60" and "alive env e"
  shows "\<exists>ok. publishIntent env tid e pns payload (new_client cx st) =
      (Inr ok, session_publisher cx st e pns [Enqueue cx st (intent_request tid pns payload st)])"
    and "client_handle env (intent_ok_msg pns tid) (session_publisher cx st e pns evs) =
      (Inr (), session_publisher cx st e pns (evs @ [OnPublishIntentResponse e pns (PublishIntentResult_of Response_Ok)]))"
  using publishIntent_run [OF assms(1,2), of "new_client cx st" env tid e]
    intent_ok_told [OF assms(1), of env tid "session_publisher cx st e pns evs"] assms(3,4)
  by (auto simp: session_publisher_def new_client_def map_emplace_def map_has_def told_def ns_order.irrefl)

lemma session_run:
  assumes "ns_wf ns" and "ns_wf pns" and "contains ns name = Inr True" and "contains pns name = Inr True"
    and "SubscribeIntent_cast (SubscribeIntent_code intent) = intent" and "alive senv d" and "alive penv e"
    and "\<forall>h m. accepts penv h pcx pst m" and "pst < 2 ^ 60" and "length payload < 2 ^ 16"
    and "1200 < length data" and "length data < 2 ^ 30" and "(b, bst) \<noteq> (0, 0)"
  shows "\<exists>c1 c2 t1 p1 p2 ok t2 p3 ms t3 out m1 r1 m2 r2.
    subscribe senv tid d ns intent (new_client scx sst) = (Inr (), c1) \<and> events c1 = [Enqueue scx sst m1] \<and>
    server_handle (really_delegate mk_Namespace) a ast m1 ReallyServer = (Inr (), t1) \<and>
    server_handle (really_delegate (mk_Namespace_on machine)) a ast m1 ReallyServer = (Inr (), t1) \<and> sv_sent t1 = [(a, ast, r1)] \<and>
    client_handle senv r1 c1 = (Inr (), c2) \<and>
    publishIntent penv ptid e pns payload (new_client pcx pst) = (Inr ok, p1) \<and> events p1 = [Enqueue pcx pst m2] \<and>
    server_handle (really_delegate mk_Namespace) b bst m2 t1 = (Inr (), t2) \<and>
    server_handle (really_delegate (mk_Namespace_on machine)) b bst m2 t1 = (Inr (), t2) \<and> sv_sent t2 = sv_sent t1 @ [(b, bst, r2)] \<and>
    client_handle penv r2 p1 = (Inr (), p2) \<and>
    publishNamedObject penv name data p2 = (Inr (), p3) \<and>
    events p3 = [Enqueue pcx pst m2, OnPublishIntentResponse e pns (PublishIntentResult_of Response_Ok)] @ map (Enqueue pcx pst) ms \<and>
    fst (op_for ms (server_handle (really_delegate mk_Namespace) b bst) t2) = Inl undefined_behaviour \<and>
    op_for ms (server_handle (really_delegate (mk_Namespace_on machine)) b bst) t2 = (Inr (), t3) \<and> sv_sent t3 = sv_sent t2 @ out \<and>
    (\<forall>ms'. mset ms' = mset (inbox a ast out) \<longrightarrow>
      (\<exists>c3. op_for ms' (client_handle senv) c2 = (Inr (), c3) \<and>
         events c3 = [Enqueue scx sst m1, OnSubscribeResponse d ns (SubscribeResult_of Status_Ok),
           OnSubscribedObject d name 0 0 False data]))"
proof -
  let ?m1 = "subscribe_request tid ns intent" and ?m2 = "intent_request ptid pns payload pst"
  let ?r2 = "intent_ok_msg pns ptid" and ?t1 = "relay_subscribed ns a ast ReallyServer"
  let ?ok = "OnSubscribeResponse d ns (SubscribeResult_of Status_Ok)"
  let ?c1 = "session_subscriber scx sst tid d ns [Enqueue scx sst ?m1]"
  define c2 where "c2 = session_subscriber scx sst tid d ns [Enqueue scx sst ?m1, ?ok]"
  let ?t2 = "session_relay ns a ast pns b bst ptid"
  let ?p1 = "session_publisher pcx pst e pns [Enqueue pcx pst ?m2]"
  define p2 where "p2 = session_publisher pcx pst e pns [Enqueue pcx pst ?m2, OnPublishIntentResponse e pns (PublishIntentResult_of Response_Ok)]"
  note sub = session_subscribe [OF assms(1,5,6), where cx = scx and st = sst and tid = tid]
  note rel = relay_subscribe_request [OF _ sample_relays(1) assms(1,5), where ctx = a and stream = ast]
  note rel_c = rel [OF ctor_agrees_class] and rel_m = rel [OF ctor_agrees_machine]
  note first = first_subscription [OF sample_relays(1) new_relay_fields(1) [of a ns], where stream = ast, unfolded new_relay_fields]
  note int = session_intent [OF assms(2,10,9,7), where cx = pcx and tid = ptid]
  obtain ok where pub: "publishIntent penv ptid e pns payload (new_client pcx pst) = (Inr ok, ?p1)" using int(1) by blast
  have told: "client_handle penv ?r2 ?p1 = (Inr (), p2)" using int(2) by (simp add: p2_def)
  have ann: "server_handle (really_delegate mk) b bst ?m2 ?t1 = (Inr (), ?t2)" for mk
    by (rule session_announce [OF rel_c(2) assms(2,10,9)])
  have inv: "relay_inv ?t2" using op_keepsD [OF relay_server_handle [OF ctor_agrees_class] rel_c(2) ann] by simp
  have found: "publish_namespace_found name (sv_publish_namespaces ?t2) = Inr True"
    using assms(4) by (simp add: session_relay_def Let_def)
  have orig: "origin name b bst ?t2 \<noteq> (0, 0)"
    using assms(13) by (simp add: origin_def session_relay_def Let_def new_relay_fields)
  have fields: "transport_stream_id p2 < 2 ^ 60" "publish_state p2 = []" "transport_context_id p2 = pcx" "transport_stream_id p2 = pst"
    using assms(9) by (simp_all add: new_client_def session_publisher_def p2_def)
  have acc: "\<forall>h m. accepts penv h (transport_context_id p2) (transport_stream_id p2) m"
    using assms(8) by (simp add: new_client_def session_publisher_def p2_def)
  have ds: "subscribers senv c2 name = [d]"
    using assms(3,6) by (simp add: subscribers_def session_subscriber_def c2_def)
  have room: "room_for c2 name" "namespaces_ok c2" unfolding c2_def by (rule session_room [OF assms(1)])+
  from object_through_relay [OF fields(1,2) acc assms(11,12) inv found orig session_sole [OF assms(1,3)] room, of machine senv]
  obtain ms t3 out where r: "publishNamedObject penv name data p2 = (Inr (), p2\<lparr>events := events p2 @ map (Enqueue pcx pst) ms\<rparr>)"
    "fst (op_for ms (server_handle (really_delegate mk_Namespace) b bst) ?t2) = Inl undefined_behaviour"
    "op_for ms (server_handle (really_delegate (mk_Namespace_on machine)) b bst) ?t2 = (Inr (), t3)" "sv_sent t3 = sv_sent ?t2 @ out"
    "\<forall>ms'. mset ms' = mset (inbox a ast out) \<longrightarrow> op_for ms' (client_handle senv) c2 =
       (Inr (), c2\<lparr>fragments := map_touch int_lt [] (cindex_key c2) (fragments c2),
          events := events c2 @ map (\<lambda>d. OnSubscribedObject d name 0 0 False data) (subscribers senv c2 name)\<rparr>)"
    unfolding fields(3,4) by blast
  let ?p3 = "p2\<lparr>events := events p2 @ map (Enqueue pcx pst) ms\<rparr>"
  have sent: "sv_sent ?t1 = [(a, ast, subscribe_ok_msg 0 ns)]" using first(1) by simp
  have ev: "events ?c1 = [Enqueue scx sst ?m1]" "events ?p1 = [Enqueue pcx pst ?m2]"
    "events ?p3 = [Enqueue pcx pst ?m2, OnPublishIntentResponse e pns (PublishIntentResult_of Response_Ok)] @ map (Enqueue pcx pst) ms"
    "sv_sent ?t2 = sv_sent ?t1 @ [(b, bst, ?r2)]"
    by (simp_all add: session_subscriber_def session_relay_def session_publisher_def Let_def p2_def)
  have sub2: "client_handle senv (subscribe_ok_msg 0 ns) ?c1 = (Inr (), c2)" using sub(2) by (simp add: c2_def)
  have c3: "\<forall>ms'. mset ms' = mset (inbox a ast out) \<longrightarrow> (\<exists>c3. op_for ms' (client_handle senv) c2 = (Inr (), c3) \<and>
      events c3 = [Enqueue scx sst ?m1, ?ok, OnSubscribedObject d name 0 0 False data])"
  proof (intro allI impI)
    fix ms' assume "mset ms' = mset (inbox a ast out)"
    with r(5) have "op_for ms' (client_handle senv) c2 = (Inr (), c2\<lparr>fragments := map_touch int_lt [] (cindex_key c2) (fragments c2),
          events := events c2 @ [OnSubscribedObject d name 0 0 False data]\<rparr>)" unfolding ds by simp
    then show "\<exists>c3. op_for ms' (client_handle senv) c2 = (Inr (), c3) \<and>
      events c3 = [Enqueue scx sst ?m1, ?ok, OnSubscribedObject d name 0 0 False data]"
      by (intro exI conjI) (assumption, simp add: c2_def session_subscriber_def)
  qed
  show ?thesis
    by (intro exI conjI) (rule sub(1), rule ev(1), rule rel_c(1), rule rel_m(1), rule sent, rule sub2, rule pub, rule ev(2), rule ann, rule ann,
      rule ev(4), rule told, rule r(1), rule ev(3), rule r(2), rule r(3), rule r(4), rule c3)
qed

text \<open>C2. A session from the start. One client subscribes to a namespace, another announces one and
  publishes an object of more than one block and below 1 GiB whose name both contain, over a transport that accepts its messages; every message of a client is handled by a fresh
  relay, and every answer by the client it is sent to. The subscription and the announcement are handled and
  answered, and both applications are told \<^verbatim>\<open>Ok\<close>. The relay's handling of the object is undefined in the language; on a
  machine, whatever value it leaves behind the undefined shift, the subscriber's application
  is handed the object, whole and once, whatever order the transport delivers the last messages in.\<close>

theorem session_delivers:
  assumes "ns_wf ns" and "ns_wf pns" and "contains ns name = Inr True" and "contains pns name = Inr True"
    and "SubscribeIntent_cast (SubscribeIntent_code intent) = intent" and "alive senv d" and "alive penv e"
    and "\<forall>h m. accepts penv h pcx pst m" and "pst < 2 ^ 60" and "length payload < 2 ^ 16"
    and "1200 < length data" and "length data < 2 ^ 30" and "(b, bst) \<noteq> (0, 0)"
  shows "\<exists>c1 c2 t1 p1 p2 ok t2 p3 ms t3 out m1 r1 m2 r2.
    subscribe senv tid d ns intent (new_client scx sst) = (Inr (), c1) \<and> events c1 = [Enqueue scx sst m1] \<and>
    server_handle (really_delegate mk_Namespace) a ast m1 ReallyServer = (Inr (), t1) \<and>
    server_handle (really_delegate (mk_Namespace_on machine)) a ast m1 ReallyServer = (Inr (), t1) \<and> sv_sent t1 = [(a, ast, r1)] \<and>
    client_handle senv r1 c1 = (Inr (), c2) \<and>
    publishIntent penv ptid e pns payload (new_client pcx pst) = (Inr ok, p1) \<and> events p1 = [Enqueue pcx pst m2] \<and>
    server_handle (really_delegate mk_Namespace) b bst m2 t1 = (Inr (), t2) \<and>
    server_handle (really_delegate (mk_Namespace_on machine)) b bst m2 t1 = (Inr (), t2) \<and> sv_sent t2 = sv_sent t1 @ [(b, bst, r2)] \<and>
    client_handle penv r2 p1 = (Inr (), p2) \<and>
    publishNamedObject penv name data p2 = (Inr (), p3) \<and>
    events p3 = [Enqueue pcx pst m2, OnPublishIntentResponse e pns (PublishIntentResult_of Response_Ok)] @ map (Enqueue pcx pst) ms \<and>
    fst (op_for ms (server_handle (really_delegate mk_Namespace) b bst) t2) = Inl undefined_behaviour \<and>
    op_for ms (server_handle (really_delegate (mk_Namespace_on machine)) b bst) t2 = (Inr (), t3) \<and> sv_sent t3 = sv_sent t2 @ out \<and>
    (\<forall>ms'. mset ms' = mset (inbox a ast out) \<longrightarrow>
      (\<exists>c3. op_for ms' (client_handle senv) c2 = (Inr (), c3) \<and>
         events c3 = [Enqueue scx sst m1, OnSubscribeResponse d ns (SubscribeResult_of Status_Ok),
           OnSubscribedObject d name 0 0 False data]))"
  using assms by (rule session_run)

section \<open>Samples\<close>

lemma immediate_named: "SubscribeIntent_cast (SubscribeIntent_code immediate) = immediate"
  by (simp add: SubscribeIntent_cast_def)

lemma sample_alive: "alive sample_env d"
  by (simp add: sample_env_def)

lemma new_client_unknown: "map_find Namespace_lt ns (sub_delegates (new_client cx st)) = None"
  "map_find Namespace_lt ns (pub_delegates (new_client cx st)) = None"
  by (simp_all add: new_client_def)

theorem subscribe_flow_witness:
  "\<exists>m r c1 c2 t. subscribe sample_env 5 3 sample_ns immediate (new_client 1 2) = (Inr (), c1) \<and>
    server_handle (really_delegate mk_Namespace) 1 10 m ReallyServer = (Inr (), t) \<and> sv_sent t = sv_sent ReallyServer @ [(1, 10, r)] \<and>
    client_handle sample_env r c1 = (Inr (), c2) \<and>
    events c2 = events c1 @ [OnSubscribeResponse 3 sample_ns (SubscribeResult_of Status_Ok)] \<and> relay_inv t"
  using subscribe_flow [where c = "new_client 1 2" and ns = sample_ns and intent = immediate and env = sample_env and d = 3
      and mk = mk_Namespace and s = ReallyServer and ctx = 1 and tid = 5 and stream = 10,
      OF new_client_inv sample_ns_wf immediate_named new_client_unknown(1) sample_alive ctor_agrees_class
      sample_relays(1) new_relay_fields(1)]
  by blast

theorem unsubscribe_flow_witness:
  "\<exists>m r c1 c2 t. unsubscribe sample_env sample_ns subscribed_client = (Inr (), c1) \<and>
    server_handle (really_delegate mk_Namespace) 1 10 m relay_one = (Inr (), t) \<and> sv_sent t = sv_sent relay_one @ [(1, 10, r)] \<and>
    client_handle sample_env r c1 = (Inr (), c2) \<and> events c2 = events c1 @ [OnSubscriptionEnded 3 sample_ns Status_Ok] \<and>
    (\<forall>msg. message_to 0 msg t = [])"
proof -
  note first = first_subscription [OF sample_relays(1) new_relay_fields(1) [of 1 sample_ns], where stream = 10, unfolded new_relay_fields]
  have one: "relay_one = relay_subscribed sample_ns 1 10 ReallyServer" by (simp add: relay_one_def sample_sub_def)
  have id: "ssc_subscriber_id (new_context 1 10 0) = 0" by (simp add: new_context_def)
  have d: "map_find Namespace_lt sample_ns (sub_delegates subscribed_client) = Some 3"
    by (simp add: subscribed_client_def ns_order.irrefl)
  show ?thesis
    using unsubscribe_flow [OF subscribed_client_inv sample_ns_wf d sample_alive ctor_agrees_class sample_relays(2), of 1 "new_context 1 10 0" 10 10]
      first(2,3) unfolding id one by blast
qed

theorem publish_intent_flow_witness:
  "\<exists>ok m r c1 c2 t. publishIntent sample_env 5 3 sample_ns [] (new_client 1 2) = (Inr ok, c1) \<and>
    server_handle (really_delegate mk_Namespace) 1 10 m ReallyServer = (Inr (), t) \<and> sv_sent t = sv_sent ReallyServer @ [(1, 10, r)] \<and>
    client_handle sample_env r c1 = (Inr (), c2) \<and>
    events c2 = events c1 @ [OnPublishIntentResponse 3 sample_ns (PublishIntentResult_of Response_Ok)] \<and>
    publish_namespace_found sample_name (sv_publish_namespaces t) = Inr True"
proof -
  have none: "map_find Namespace_lt sample_ns (sv_publish_namespaces ReallyServer) = None"
    by (simp add: ReallyServer_def QuicRServer_def)
  have st: "transport_stream_id (new_client 1 2) < 2 ^ 60" by (simp add: new_client_def)
  have l: "length ([] :: bytes) < 2 ^ 16" by simp
  show ?thesis
    using publish_intent_flow [OF new_client_inv sample_ns_wf l st new_client_unknown(2) sample_alive sample_relays(1) none,
        of 5 3 mk_Namespace 1 10] sample_ns_contains by blast
qed

theorem session_delivers_witness:
  "\<exists>c1 m1 t1 r1 c2 t2 ms t3 out c3.
     subscribe sample_env 5 3 sample_ns immediate (new_client 1 2) = (Inr (), c1) \<and> events c1 = [Enqueue 1 2 m1] \<and>
     server_handle (really_delegate mk_Namespace) 1 10 m1 ReallyServer = (Inr (), t1) \<and> sv_sent t1 = [(1, 10, r1)] \<and>
     client_handle sample_env r1 c1 = (Inr (), c2) \<and>
     fst (op_for ms (server_handle (really_delegate mk_Namespace) 2 20) t2) = Inl undefined_behaviour \<and>
     op_for ms (server_handle (really_delegate (mk_Namespace_on x86_64)) 2 20) t2 = (Inr (), t3) \<and> sv_sent t3 = sv_sent t2 @ out \<and>
     op_for (inbox 1 10 out) (client_handle sample_env) c2 = (Inr (), c3) \<and>
     events c3 = [Enqueue 1 2 m1, OnSubscribeResponse 3 sample_ns (SubscribeResult_of Status_Ok),
       OnSubscribedObject 3 sample_name 0 0 False (replicate 2500 7)]"
proof -
  have acc: "\<forall>h m. accepts sample_env h 4 6 m" by (simp add: sample_env_def)
  have size: "(6 :: u64) < 2 ^ 60" "length ([] :: bytes) < 2 ^ 16" "1200 < length (replicate 2500 (7 :: u8))"
    "length (replicate 2500 (7 :: u8)) < 2 ^ 30" "(2 :: TransportContextId, 20 :: StreamId) \<noteq> (0, 0)" by simp_all
  show ?thesis
    using session_delivers [OF sample_ns_wf sample_ns_wf sample_ns_contains sample_ns_contains immediate_named
        sample_alive sample_alive acc size, of 5 3 1 2 1 10 x86_64 9 8] by blast
qed

end
