(* ===== verification/Sent_Messages.thy ===== *)
theory Sent_Messages
  imports Control_Flows
begin

text \<open>
  What a party sends, as an invariant: when every message that a client or the relay writes is of a kind
  \<open>Q\<close>, then every message it ever sends is. The locales \<open>client_messages\<close> and \<open>relay_messages\<close> state what the
  kind has to contain; the invariants are proved once in them. \<^verbatim>\<open>Wire_Typing\<close> instantiates them with the
  messages the other party can read, \<^verbatim>\<open>Integrity\<close> with those that carry nothing but published objects.
\<close>

section \<open>What clients send\<close>

fun event_sends :: "(bytes \<Rightarrow> bool) \<Rightarrow> client_event \<Rightarrow> bool" where
  "event_sends Q (Enqueue ctx stream msg) = Q msg"
| "event_sends Q _ = True"

definition client_sends :: "(bytes \<Rightarrow> bool) \<Rightarrow> Client \<Rightarrow> bool" where
  "client_sends Q c \<longleftrightarrow> client_inv 5000 20 c \<and> transport_stream_id c < 2 ^ 60 \<and> list_all (event_sends Q) (events c)"

text \<open>The part of it that speaks of the events; the rest is kept anyway.\<close>

definition events_send :: "(bytes \<Rightarrow> bool) \<Rightarrow> Client \<Rightarrow> bool" where
  "events_send Q c \<longleftrightarrow> transport_stream_id c < 2 ^ 60 \<and> list_all (event_sends Q) (events c)"

named_theorems sends_intros \<open>client operations that only send messages of the kind\<close>

lemma sends_modify [sends_intros]:
  "(\<And>c. events (f c) = events c) \<Longrightarrow> (\<And>c. transport_stream_id (f c) = transport_stream_id c) \<Longrightarrow>
     op_keeps (events_send Q) (op_modify f)"
  by (rule keeps_modify) (simp add: events_send_def)

lemma sends_callback [sends_intros]: "event_sends Q ev \<Longrightarrow> op_keeps (events_send Q) (callback env d ev)"
  by (simp add: op_keeps_def callback_run events_send_def)

lemma sends_enqueue: "Q msg \<Longrightarrow> op_keeps (events_send Q) (enqueue env ctx stream msg)"
  by (simp add: op_keeps_def enqueue_run events_send_def)

lemma sends_delivery [sends_intros]:
  "op_keeps (events_send Q) (deliver_copies env name data)"
  "op_keeps (events_send Q) (deliver_moved env name ds data)"
proof -
  show "op_keeps (events_send Q) (deliver_copies env name data)"
    unfolding deliver_copies_def case_prod_beta by (intro keeps_intros sends_intros) simp
  show "op_keeps (events_send Q) (deliver_moved env name ds data)"
    by (induction ds arbitrary: data) (auto intro!: keeps_intros sends_intros)
qed

lemma sends_reassembly [sends_intros]:
  "op_keeps (events_send Q) (handle_pub_fragment env datagram)"
proof -
  have n: "op_keeps (events_send Q) (notify_pub_fragment env name fm)" for name fm
    unfolding notify_pub_fragment_def by (intro keeps_intros sends_intros)
  have "op_keeps (events_send Q) (store_fragment env name key data ci cur)" for name key data ci cur
    unfolding store_fragment_def set_buffer_def erase_name_def Let_def case_prod_beta
    by (intro keeps_intros sends_intros n) simp_all
  then show ?thesis
    unfolding handle_pub_fragment_def touch_buffer_def next_buffer_def
    by (intro keeps_intros sends_intros) simp_all
qed

lemma sends_remove [sends_intros]: "op_keeps (events_send Q) (removeSubscribeState env all ns reason)"
proof -
  have "op_keeps (events_send Q) (removeSubscribeState_one env ns reason)" for ns
    unfolding removeSubscribeState_one_def by (intro keeps_intros sends_intros) simp_all
  then show ?thesis unfolding removeSubscribeState_def by (intro keeps_intros)
qed

lemma sends_handle [sends_intros]: "op_keeps (events_send Q) (client_handle env msg)"
proof -
  have "op_keeps (events_send Q) (handle_SubscribeResponse env r)" "op_keeps (events_send Q) (handle_PublishIntentResponse env p)" for r p
    unfolding handle_SubscribeResponse_def handle_PublishIntentResponse_def by (intro keeps_intros sends_intros; simp)+
  moreover have "op_keeps (events_send Q) (handle_Publish env d)" for d
    unfolding handle_Publish_def by (intro keeps_intros sends_intros)
  ultimately show ?thesis
    unfolding client_handle_def case_prod_beta
    by (auto intro!: keeps_intros sends_intros split: MessageType.splits)
qed

text \<open>Arguments the library can encode: namespaces that the constructor built, enumerators, a payload
  whose length fits the two bytes the decoder uses of it, and an object below 1 GiB.\<close>

fun call_typed :: "client_call \<Rightarrow> bool" where
  "call_typed (Do_publishIntent tid d ns payload) \<longleftrightarrow> ns_wf ns \<and> length payload < 2 ^ 16"
| "call_typed (Do_publishIntentEnd ns) \<longleftrightarrow> ns_wf ns"
| "call_typed (Do_subscribe tid d ns intent) \<longleftrightarrow> ns_wf ns \<and> SubscribeIntent_cast (SubscribeIntent_code intent) = intent"
| "call_typed (Do_unsubscribe ns) \<longleftrightarrow> ns_wf ns"
| "call_typed (Do_publishNamedObject name data) \<longleftrightarrow> length data < 2 ^ 30"
| "call_typed (Do_connection_status status) \<longleftrightarrow> True"
| "call_typed (Do_recv_notify dequeue) \<longleftrightarrow> True"

lemma publishIntentEnd_run:
  assumes "ns_wf ns"
  shows "publishIntentEnd env ns c =
    (Inr (), if map_has Namespace_lt ns (pub_delegates c) then
       c\<lparr>pub_delegates := map_erase Namespace_lt ns (pub_delegates c), events := events c @ [Enqueue (transport_context_id c)
         (transport_stream_id c) (enc_PublishIntentEnd \<lparr>pie_message_type = MT_PublishIntentEnd, pie_namespace = ns, pie_payload = []\<rparr>)]\<rparr>
     else c)"
proof -
  let ?m = "\<lparr>pie_message_type = MT_PublishIntentEnd, pie_namespace = ns, pie_payload = []\<rparr>"
  have "put_PublishIntentEnd [] ?m = Inr (enc_PublishIntentEnd ?m)"
    using publish_intent_end.put_enc [of ?m "[]"] assms
    by (simp add: PublishIntentEnd_ok_def message_type.named_def MessageType_cast_def vec_ok_def)
  then show ?thesis by (simp add: publishIntentEnd_def op_simps)
qed

lemma send_all_sends:
  "list_all (event_sends Q) es \<Longrightarrow> list_all Q ms \<Longrightarrow> list_all (event_sends Q) (fst (send_all env ctx stream es ms))"
  by (induction env ctx stream es ms rule: send_all.induct) simp_all

lemma sends_notifications:
  "op_keeps (events_send Q) (client_on_connection_status env status)"
  "op_keeps (events_send Q) (client_on_recv_notify env dequeue)"
  unfolding client_on_connection_status_def client_on_recv_notify_def by (intro keeps_intros sends_intros)+

text \<open>A kind of messages that has every control message a client writes and the datagrams of the objects
  the application publishes: \<open>publishes\<close> are those objects.\<close>

locale client_messages =
  fixes Q :: "bytes \<Rightarrow> bool" and publishes :: "Name \<Rightarrow> bytes \<Rightarrow> bool"
  assumes sends_control:
    "ns_wf (s_namespace m1) \<Longrightarrow> intent.named (s_intent m1) \<Longrightarrow> Q (enc_Subscribe m1)"
    "ns_wf (u_namespace m2) \<Longrightarrow> Q (enc_Unsubscribe m2)"
    "PublishIntent_ok m3 \<Longrightarrow> pi_message_type m3 = MT_PublishIntent \<Longrightarrow> Q (enc_PublishIntent m3)"
    "PublishIntentEnd_ok m4 \<Longrightarrow> pie_message_type m4 = MT_PublishIntentEnd \<Longrightarrow> Q (enc_PublishIntentEnd m4)"
    and sends_datagrams: "publishes name data \<Longrightarrow> stream < 2 ^ 60 \<Longrightarrow> length data < 2 ^ 30 \<Longrightarrow>
      d \<in> set (object_datagrams stream name data) \<Longrightarrow> Q (enc_PublishDatagram d)"
begin

lemma sends_publishIntent:
  assumes "ns_wf ns" "length payload < 2 ^ 16" "events_send Q c"
  shows "events_send Q (snd (publishIntent env tid d ns payload c))"
proof -
  have stream: "transport_stream_id c < 2 ^ 60" using assms(3) by (simp add: events_send_def)
  have "Q (enc_PublishIntent \<lparr>pi_message_type = MT_PublishIntent, pi_transaction_id = tid, pi_namespace = ns,
      pi_payload = payload, pi_media_id = transport_stream_id c, pi_datagram_capable = 1\<rparr>)"
    using assms(1,2) stream by (intro sends_control)
      (simp_all add: PublishIntent_ok_def message_type.named_def MessageType_cast_def vec_ok_def uintVar_ok_def)
  then show ?thesis
    using publishIntent_run [OF assms(1,2) stream, of env tid d] assms(3) by (auto simp: events_send_def)
qed

lemma sends_publishIntentEnd:
  assumes "ns_wf ns" "events_send Q c"
  shows "events_send Q (snd (publishIntentEnd env ns c))"
proof -
  have "Q (enc_PublishIntentEnd \<lparr>pie_message_type = MT_PublishIntentEnd, pie_namespace = ns, pie_payload = []\<rparr>)"
    using assms(1) by (intro sends_control)
      (simp_all add: PublishIntentEnd_ok_def message_type.named_def MessageType_cast_def vec_ok_def)
  then show ?thesis using assms(2) by (simp add: publishIntentEnd_run [OF assms(1)] events_send_def)
qed

lemma sends_publishNamedObject:
  assumes "length data < 2 ^ 30" "publish_state c = []" "events_send Q c" "publishes name data"
  shows "events_send Q (snd (publishNamedObject env name data c))"
proof -
  have stream: "transport_stream_id c < 2 ^ 60" and evs: "list_all (event_sends Q) (events c)"
    using assms(3) by (simp_all add: events_send_def)
  have "list_all Q (map enc_PublishDatagram (object_datagrams (transport_stream_id c) name data))"
    using sends_datagrams [OF assms(4) stream assms(1)] by (auto simp: list_all_iff)
  then show ?thesis
    using publishNamedObject_run [OF stream assms(2,1), of env name] stream send_all_sends [OF evs]
    by (simp add: events_send_def)
qed

lemma sends_call:
  assumes "call_typed call" and "\<And>name data. call = Do_publishNamedObject name data \<Longrightarrow> publishes name data"
  shows "op_keeps (client_sends Q) (client_exec (env, call))"
proof
  fix c let ?m = "client_exec (env, call)"
  assume typed: "client_sends Q c" and nub: "fst (?m c) \<noteq> Inl undefined_behaviour"
  have inv: "client_inv 5000 20 c" and stream: "transport_stream_id c < 2 ^ 60" and evs: "list_all (event_sends Q) (events c)"
    using typed by (simp_all add: client_sends_def)
  have ps: "publish_state c = []" using inv by (simp add: client_inv_def maps_inv_def)
  have et: "events_send Q c" using stream evs by (simp add: events_send_def)
  have inv': "client_inv 5000 20 (snd (?m c))"
    using op_keepsD [OF client.inv_exec inv] nub by (metis prod.collapse)
  have "events_send Q (snd (?m c))"
  proof (cases call)
    case (Do_publishIntent tid d ns payload)
    with assms et show ?thesis
      using sends_publishIntent [of ns payload c env tid d]
      by (cases "publishIntent env tid d ns payload c") (simp add: op_bind_def op_return_def split: sum.split)
  next
    case (Do_publishIntentEnd ns)
    with assms et show ?thesis using sends_publishIntentEnd [of ns c env] by simp
  next
    case (Do_subscribe tid d ns intent)
    with assms have ok: "ns_wf ns" "SubscribeIntent_cast (SubscribeIntent_code intent) = intent" by simp_all
    then show ?thesis
      using subscribe_run [OF inv ok, of env tid d] et
      by (simp add: Do_subscribe events_send_def sends_control intent.named_def)
  next
    case (Do_unsubscribe ns)
    with assms have ok: "ns_wf ns" by simp
    then show ?thesis
      using unsubscribe_run [OF ok, of env c] et by (simp add: Do_unsubscribe events_send_def sends_control)
  next
    case (Do_publishNamedObject name data)
    with assms et ps show ?thesis using sends_publishNamedObject [of data c name env] by simp
  next
    case (Do_connection_status status)
    with et nub sends_notifications(1) show ?thesis by (simp add: op_keeps_def)
  next
    case (Do_recv_notify dequeue)
    with et nub sends_notifications(2) show ?thesis by (simp add: op_keeps_def)
  qed
  with inv' show "client_sends Q (snd (?m c))" by (simp add: client_sends_def events_send_def)
qed


lemma sends_run:
  assumes "stream < 2 ^ 60" and "list_all (\<lambda>call. call_typed (snd call)) calls"
    and "\<And>env name data. (env, Do_publishNamedObject name data) \<in> set calls \<Longrightarrow> publishes name data"
    and "op_run_all client_exec calls (new_client ctx stream) = Some c"
  shows "client_sends Q c"
proof (rule run_all_keeps [OF _ _ assms(4)])
  show "op_keeps (client_sends Q) (client_exec l)" if "l \<in> set calls" for l
  proof (cases l)
    case (Pair env call)
    show ?thesis unfolding Pair by (rule sends_call) (use assms(2,3) that in \<open>auto simp: list_all_iff Pair\<close>)
  qed
  show "client_sends Q (new_client ctx stream)"
    using new_client_inv assms(1) by (simp add: client_sends_def) (simp add: new_client_def)
qed

end

section \<open>What the relay sends\<close>

text \<open>A datagram read off the wire can be written again.\<close>

lemma get_uintVar_bound:
  assumes "get_uintVar buf = Inr (v, rest)"
  shows "uintVar_ok v"
proof -
  have ne: "buf \<noteq> []" using assms get_uintVar_Nil by auto
  with assms have v: "v = take_bit (uintVar_bits (hd buf)) (of_le_bytes (rev (take (uintVar_need (hd buf)) buf)))"
    by (simp add: get_uintVar_outcome split: if_splits)
  have bits: "uintVar_bits (hd buf) \<le> 60" by (simp add: uintVar_bits_def)
  have "unat v < 2 ^ uintVar_bits (hd buf)" unfolding v by (simp add: unsigned_take_bit_eq)
  also have "\<dots> \<le> (2 :: nat) ^ 60" using bits by (intro power_increasing) auto
  finally show ?thesis by (simp add: uintVar_ok_def word_less_nat_alt)
qed

lemma get_bytes_bound:
  assumes "get_bytes buf = Inr (d, rest)"
  shows "vec_ok d"
proof -
  obtain v buf' where "pop_front (ucast (v :: u64)) buf' = Inr (d, rest)"
    using assms by (auto simp: get_bytes_def dbind_Inr_iff)
  then have "length d \<le> unat (ucast v :: u16)" by (auto simp: pop_front_iff split: if_splits)
  also have "\<dots> < 2 ^ 16" using unsigned_less [of "ucast v :: u16", where 'a = nat] by simp
  finally show ?thesis by (simp add: vec_ok_def)
qed

lemma decoded_datagram_ok:
  assumes "get_PublishDatagram buf = Inr (d, rest)"
  shows "PublishDatagram_ok d"
  using assms unfolding get_PublishDatagram_def get_Header_def
  by (auto simp: dbind_Inr_iff dret_def draise_def PublishDatagram_ok_def Header_ok_def media_type.named_cast
      dest: get_uintVar_bound get_bytes_bound split: if_splits)

definition sent_all :: "(bytes \<Rightarrow> bool) \<Rightarrow> 'd Server \<Rightarrow> bool" where
  "sent_all Q s \<longleftrightarrow> list_all (\<lambda>e. Q (snd (snd e))) (sv_sent s)"

named_theorems sent_intros \<open>server operations that only send messages of the kind\<close>

lemma sent_modify [sent_intros]: "(\<And>s. sv_sent (f s) = sv_sent s) \<Longrightarrow> op_keeps (sent_all Q) (op_modify f)"
  by (rule keeps_modify) (simp add: sent_all_def)

lemma sent_enqueue: "Q msg \<Longrightarrow> op_keeps (sent_all Q) (server_enqueue ctx stream msg)"
  unfolding server_enqueue_def by (rule keeps_modify) (simp add: sent_all_def)

lemma sent_put:
  assumes "put = Inr msg" and "Q msg"
  shows "op_keeps (sent_all Q) (op_bind (op_lift put) (server_enqueue ctx stream))"
  using assms by (intro keeps_lift_bind sent_enqueue) simp

definition relay_sends :: "(bytes \<Rightarrow> bool) \<Rightarrow> relay \<Rightarrow> bool" where
  "relay_sends Q s \<longleftrightarrow> relay_inv s \<and> sent_all Q s"

text \<open>The receive loops handle what they dequeue.\<close>

lemma keeps_dequeued:
  assumes "\<And>k m. dequeue k = Some m \<Longrightarrow> op_keeps I (handle m)"
  shows "op_keeps I (recv_loop n dequeue i handle)" and "op_keeps I (server_recv_loop n dequeue i handle)"
proof -
  have "op_keeps I (recv_loop n dequeue i handle) \<and> op_keeps I (server_recv_loop n dequeue i handle)"
  proof (induction n arbitrary: i)
    case (Suc n)
    show ?case
      by (cases "dequeue i")
        (auto intro!: keeps_return keeps_bind keeps_then keeps_catch simp: assms Suc.IH [THEN conjunct1] Suc.IH [THEN conjunct2])
  qed (simp add: keeps_return)
  then show "op_keeps I (recv_loop n dequeue i handle)" and "op_keeps I (server_recv_loop n dequeue i handle)" by simp_all
qed

text \<open>Bytes that the relay may be sent: an object in them is forwarded as a message of the kind.\<close>

definition forwardable :: "(bytes \<Rightarrow> bool) \<Rightarrow> bytes \<Rightarrow> bool" where
  "forwardable Q data \<longleftrightarrow> (\<forall>d rest. get_PublishDatagram data = Inr (d, rest) \<longrightarrow> Q (enc_PublishDatagram d))"

text \<open>A kind of messages that has every answer of the relay.\<close>

locale relay_messages =
  fixes Q :: "bytes \<Rightarrow> bool"
  assumes answers:
    "SubscribeResponse_ok m1 \<Longrightarrow> Q (enc_SubscribeResponse m1)"
    "SubscribeEnd_ok m2 \<Longrightarrow> Q (enc_SubscribeEnd m2)"
    "PublishIntentResponse_ok m3 \<Longrightarrow> pir_message_type m3 = MT_PublishIntentResponse \<Longrightarrow> Q (enc_PublishIntentResponse m3)"
begin

lemma sent_responses:
  assumes "ns_wf ns"
  shows "op_keeps (sent_all Q) (really_onPublishIntent ns payload)"
    and "op_keeps (sent_all Q) (subscribeResponse i ns (SubscribeResult_of Status_Ok))"
    and "op_keeps (sent_all Q) (subscriptionEnded i ns Status_Ok)"
proof -
  have ok: "SubscribeResponse_ok \<lparr>sr_namespace = ns, sr_response = Status_Ok, sr_transaction_id = i\<rparr>"
    "SubscribeEnd_ok \<lparr>se_namespace = ns, se_reason = Status_Ok\<rparr>" for i
    using assms by (simp_all add: SubscribeResponse_ok_def SubscribeEnd_ok_def status_ok_named)
  have pok: "PublishIntentResponse_ok \<lparr>pir_message_type = MT_PublishIntentResponse, pir_namespace = ns,
      pir_response = Response_Ok, pir_transaction_id = j\<rparr>" for j
    using assms by (simp add: PublishIntentResponse_ok_def message_type.named_def response.named_def MessageType_cast_def Response_cast_def)
  note typed = answers(1) [OF ok(1)] answers(2) [OF ok(2)] answers(3) [OF pok]
  show "op_keeps (sent_all Q) (subscribeResponse i ns (SubscribeResult_of Status_Ok))"
    unfolding subscribeResponse_def SubscribeResult_of_def SubscribeResult.simps
    by (intro keeps_intros sent_put [OF subscribe_response.put_enc [OF ok(1), of "[]", simplified]] typed)
  show "op_keeps (sent_all Q) (subscriptionEnded i ns Status_Ok)"
    unfolding subscriptionEnded_def
    by (intro keeps_intros sent_put [OF subscribe_end.put_enc [OF ok(2), of "[]", simplified]] typed)
  have put: "put_PublishIntentResponse [] \<lparr>pir_message_type = MT_PublishIntentResponse, pir_namespace = ns,
      pir_response = Response_Ok, pir_transaction_id = j\<rparr> = Inr (enc_PublishIntentResponse \<lparr>pir_message_type = MT_PublishIntentResponse,
      pir_namespace = ns, pir_response = Response_Ok, pir_transaction_id = j\<rparr>)" for j
    using publish_intent_response.put_enc [OF pok, of "[]"] by simp
  have "Q msg" if "put_PublishIntentResponse [] \<lparr>pir_message_type = MT_PublishIntentResponse, pir_namespace = ns,
      pir_response = Response_Ok, pir_transaction_id = j\<rparr> = Inr msg" for j msg
    using that typed(3) [of j] by (simp add: put)
  then show "op_keeps (sent_all Q) (really_onPublishIntent ns payload)"
    unfolding really_onPublishIntent_def publishIntentResponse_def PublishIntentResult.simps
    by (intro keeps_lift_bind keeps_intros sent_modify sent_enqueue) simp_all
qed

lemma sent_object:
  assumes "PublishDatagram_ok d" and "Q (enc_PublishDatagram d)"
  shows "op_keeps (sent_all Q) (sendNamedObject i d)"
  unfolding sendNamedObject_def
  by (intro keeps_intros sent_put [OF publish_datagram.put_enc [OF assms(1), of "[]", simplified]] assms(2))

lemma sent_onUnsubscribe: "ns_wf ns \<Longrightarrow> op_keeps (sent_all Q) (onUnsubscribe (really_delegate mk) ns i)"
  by (simp add: really_delegate_def really_onUnsubscribe_def) (intro keeps_intros sent_responses sent_modify; simp)

lemma sent_server_handle:
  assumes "forwardable Q data"
  shows "op_keeps (sent_all Q) (server_handle (really_delegate mk) ctx stream data)"
proof -
  have sub: "op_keeps (sent_all Q) (handle_subscribe (really_delegate mk) ctx stream data)" for data
    unfolding handle_subscribe_def touch_namespace_def new_subscriber_def set_subscribers_def Let_def case_prod_beta
      really_delegate_def ServerDelegate.simps really_onSubscribe_def
    by (intro keeps_lift_bind keeps_intros sent_modify sent_responses; auto dest: decoded_namespaces)
  have unsub: "op_keeps (sent_all Q) (handle_unsubscribe (really_delegate mk) ctx stream data)" for data
    unfolding handle_unsubscribe_def touch_namespace_def set_subscribers_def Let_def case_prod_beta
    by (intro keeps_lift_bind keeps_intros sent_modify sent_onUnsubscribe; auto dest: decoded_namespaces)
  have pub: "op_keeps (sent_all Q) (handle_publish (really_delegate mk) ctx stream data)"
    if "forwardable Q data" for data
    unfolding handle_publish_def Let_def case_prod_beta really_delegate_def ServerDelegate.simps
      really_onPublisherObject_def forward_to_def
    by (intro keeps_lift_bind keeps_intros sent_modify sent_object; use that in \<open>auto simp: forwardable_def dest: decoded_datagram_ok\<close>)
  have intents: "op_keeps (sent_all Q) (handle_publish_intent (really_delegate mk) ctx stream data)"
    "op_keeps (sent_all Q) (handle_publish_intent_end (really_delegate mk) ctx stream data)" for data
    unfolding handle_publish_intent_def handle_publish_intent_end_def Let_def case_prod_beta really_delegate_def
      ServerDelegate.simps really_onPublishIntentEnd_def
    by (intro keeps_lift_bind keeps_intros sent_modify sent_responses; auto dest: decoded_namespaces)+
  show ?thesis
    unfolding server_handle_def
    using assms by (auto split: list.split MessageType.split intro: keeps_intros sub unsub pub intents)
qed

lemma sent_disconnect:
  "list_all (\<lambda>e. ns_wf (fst e)) subs \<Longrightarrow> op_keeps (sent_all Q) (disconnect_loop (really_delegate mk) ctx subs rm)"
proof (induction subs arbitrary: rm)
  case (Cons e subs)
  then have ns: "ns_wf (fst e)" by simp
  show ?case
    unfolding disconnect_loop.simps
    by (intro keeps_intros sent_onUnsubscribe [OF ns] sent_modify Cons.IH) (use Cons.prems in simp_all)
qed (simp add: keeps_return)

lemma sent_recv_loop:
  assumes "ctor_agrees mk" and "\<And>k m. dequeue k = Some m \<Longrightarrow> forwardable Q m"
  shows "op_keeps (relay_sends Q) (server_on_recv_notify (really_delegate mk) ctx stream dequeue)"
proof -
  have "op_keeps (relay_sends Q) (server_handle (really_delegate mk) ctx stream m)" if "dequeue k = Some m" for k m
    using keeps_conj [OF relay_server_handle [OF assms(1)] sent_server_handle [OF assms(2) [OF that]]]
    by (simp add: relay_sends_def [abs_def])
  then show ?thesis unfolding server_on_recv_notify_def by (rule keeps_dequeued(2))
qed

lemma sent_connection_status:
  assumes "ctor_agrees mk"
  shows "op_keeps (relay_sends Q) (server_on_connection_status (really_delegate mk) ctx status)"
proof
  fix s let ?m = "server_on_connection_status (really_delegate mk) ctx status"
  assume s: "relay_sends Q s" and nub: "fst (?m s) \<noteq> Inl undefined_behaviour"
  then have inv: "relay_inv s" "server_inv s" by (simp_all add: relay_sends_def relay_inv_def)
  have "sent_all Q (snd (?m s))"
    using sent_disconnect [OF subscribe_state_namespaces [OF inv(2)], of mk ctx "[]"] s nub
    by (cases "status = TS_Disconnected") (simp_all add: server_on_connection_status_def op_simps op_keeps_def relay_sends_def)
  moreover have "relay_inv (snd (?m s))"
    using relay_on_connection_status [OF assms] inv(1) nub by (simp add: op_keeps_def)
  ultimately show "relay_sends Q (snd (?m s))" by (simp add: relay_sends_def)
qed

end

end
