(* ===== verification/Integrity.thy ===== *)
theory Integrity
  imports Sent_Messages
begin

text \<open>What a client hands to its subscribers. The theory states that the fragments a client stores and the
  objects it delivers come from published objects, given that the messages it receives do: the byte-count test
  of the reassembly accepts only the whole object, whatever order the fragments come in and however often. It is the part of
  the integrity of the whole system (\<open>Network\<close>) that rests on \<open>client_handle\<close> and
  \<open>notify_pub_fragment\<close> of \<open>quicr_client.cpp\<close>.\<close>

section \<open>Fragments of published objects\<close>

text \<open>\<open>P\<close> are the objects that were published. A datagram is genuine when it is one of the fragments of one
  of them; bytes are harmless when they are not an object message or one with a genuine datagram.\<close>

definition is_fragment :: "(Name \<times> bytes) set \<Rightarrow> Name \<Rightarrow> nat \<Rightarrow> bytes \<Rightarrow> bool" where
  "is_fragment P name off d \<longleftrightarrow> (\<exists>data i. (name, data) \<in> P \<and> length data < 2 ^ 30 \<and> i < frag_count data \<and>
     off = frag_offset data i \<and> d = frag_bytes data i)"

definition genuine :: "(Name \<times> bytes) set \<Rightarrow> PublishDatagram \<Rightarrow> bool" where
  "genuine P d \<longleftrightarrow> (\<exists>off. h_offset_and_fin (pd_header d) = of_nat off \<and>
     is_fragment P (h_name (pd_header d)) off (pd_media_data d))"

definition harmless :: "(Name \<times> bytes) set \<Rightarrow> bytes \<Rightarrow> bool" where
  "harmless P msg \<longleftrightarrow> (\<forall>d rest. get_PublishDatagram msg = Inr (d, rest) \<longrightarrow> genuine P d)"

lemma publish_type_byte:
  assumes "get_PublishDatagram msg = Inr (d, rest)"
  shows "\<exists>tl. msg = MessageType_code MT_Publish # tl"
proof -
  obtain buf' where "get_u8 msg = Inr (MessageType_code MT_Publish, buf')"
    using assms by (auto simp: get_PublishDatagram_def dbind_Inr_iff draise_def simp del: MessageType_code.simps split: if_splits)
  then show ?thesis
    by (cases msg) (auto simp: get_u8_def mb_empty_def front_def pop_def simp del: MessageType_code.simps)
qed

lemma harmless_other: "hd msg \<noteq> MessageType_code MT_Publish \<Longrightarrow> harmless P msg"
  unfolding harmless_def using publish_type_byte by fastforce

lemma harmless_datagram:
  assumes "PublishDatagram_ok d"
  shows "harmless P (enc_PublishDatagram d) \<longleftrightarrow> genuine P d"
  using publish_datagram.get_enc [OF assms, of "[]"] by (auto simp: harmless_def)

lemma object_datagram_genuine:
  assumes "(name, data) \<in> P" and "length data < 2 ^ 30" and "d \<in> set (object_datagrams stream name data)"
  shows "genuine P d"
proof -
  obtain i where i: "i < frag_count data" "d = object_datagram stream name (frag_offset data i) (frag_bytes data i)"
    using assms(3) by (auto simp: object_datagrams_def)
  then have "is_fragment P name (frag_offset data i) (frag_bytes data i)" using assms(1,2) unfolding is_fragment_def by blast
  then show ?thesis unfolding genuine_def i(2) by (intro exI [of _ "frag_offset data i"]) (simp add: object_datagram_def)
qed

text \<open>What an application is handed: an unfragmented object is passed from delegate to delegate in one buffer,
  and each sees what the ones before left of it; \<open>L\<close> is what a delegate leaves. A fragmented object is the object.\<close>

definition intact :: "(delegate \<Rightarrow> bytes \<Rightarrow> bytes) \<Rightarrow> bytes \<Rightarrow> bytes \<Rightarrow> bool" where
  "intact L obj data \<longleftrightarrow> (\<exists>ds. data = fold L ds obj \<and> (1200 < length obj \<longrightarrow> ds = []))"

lemma intact_refl: "intact L obj obj"
  unfolding intact_def by (intro exI [of _ "[]"]) simp

lemma intact_leaves: "intact L obj data \<Longrightarrow> length obj \<le> 1200 \<Longrightarrow> intact L obj (L d data)"
  unfolding intact_def by (elim exE, rename_tac ds, rule_tac x = "ds @ [d]" in exI) simp

lemma frag_offset_one:
  assumes "frag_offset data i = 1"
  shows "frag_count data = 1" and "i = 0"
proof -
  have "Suc i = frag_count data"
  proof (rule ccontr)
    assume "Suc i \<noteq> frag_count data"
    then have "even (frag_offset data i)" by (simp add: frag_offset_def)
    with assms show False by simp
  qed
  with assms show "frag_count data = 1" "i = 0" by (simp_all add: frag_offset_def MAX_TRANSPORT_DATA_SIZE_def)
qed

lemma genuine_whole:
  assumes "genuine P d" and "h_offset_and_fin (pd_header d) = 1"
  shows "(h_name (pd_header d), pd_media_data d) \<in> P" and "length (pd_media_data d) \<le> 1200"
proof -
  obtain data i where p: "(h_name (pd_header d), data) \<in> P" "length data < 2 ^ 30" "i < frag_count data"
    and off: "h_offset_and_fin (pd_header d) = of_nat (frag_offset data i)" and d: "pd_media_data d = frag_bytes data i"
    using assms(1) unfolding genuine_def is_fragment_def by blast
  have "frag_offset data i = 1" using frag_key [OF p(3,2)] off assms(2) by (simp add: to_int32_id)
  note i = frag_offset_one [OF this]
  with concat_all_frags [of data] d have "pd_media_data d = data" by simp
  with p(1) show "(h_name (pd_header d), pd_media_data d) \<in> P" by simp
  show "length (pd_media_data d) \<le> 1200" unfolding d by (rule length_frag_bytes)
qed

section \<open>The store holds fragments of published objects\<close>

definition map_from :: "(Name \<times> bytes) set \<Rightarrow> Name \<Rightarrow> frag_map \<Rightarrow> bool" where
  "map_from P name fm \<longleftrightarrow> map_wf int_lt fm \<and> fm \<noteq> [] \<and>
     list_all (\<lambda>e. 0 \<le> fst e \<and> is_fragment P name (nat (fst e)) (snd e)) fm"

definition buffer_from :: "(Name \<times> bytes) set \<Rightarrow> frag_buffer \<Rightarrow> bool" where
  "buffer_from P buf \<longleftrightarrow> map_wf Name_lt buf \<and> list_all (\<lambda>e. map_from P (fst e) (snd e)) buf"

definition store_from :: "(Name \<times> bytes) set \<Rightarrow> (int \<times> frag_buffer) list \<Rightarrow> bool" where
  "store_from P frs \<longleftrightarrow> map_wf int_lt frs \<and> list_all (\<lambda>e. buffer_from P (snd e)) frs"

lemma map_from_emplace:
  assumes "map_from P name fm \<or> fm = []" and "is_fragment P name off d"
  shows "map_from P name (map_emplace int_lt (int off) d fm)"
proof -
  have wf: "map_wf int_lt fm" and all: "list_all (\<lambda>e. 0 \<le> fst e \<and> is_fragment P name (nat (fst e)) (snd e)) fm"
    using assms(1) by (auto simp: map_from_def)
  have "(\<lambda>e. 0 \<le> fst e \<and> is_fragment P name (nat (fst e)) (snd e)) (int off, d)" using assms(2) by simp
  then have "list_all (\<lambda>e. 0 \<le> fst e \<and> is_fragment P name (nat (fst e)) (snd e)) (map_emplace int_lt (int off) d fm)"
    using int_order.list_all_set_total [OF all] all by (simp add: map_emplace_def)
  moreover have "map_emplace int_lt (int off) d fm \<noteq> []"
    using int_order.set_emplace [OF wf, of "int off" d] assms(1) by (cases fm) (auto simp: map_has_def split: if_splits)
  ultimately show ?thesis using int_order.wf_emplace [OF wf] by (simp add: map_from_def)
qed

lemma buffer_from_set:
  "buffer_from P buf \<Longrightarrow> map_from P name fm \<Longrightarrow> buffer_from P (map_set Name_lt name fm buf)"
  by (simp add: buffer_from_def name_order.wf_set name_order.list_all_set_total)

lemma buffer_from_erase: "buffer_from P buf \<Longrightarrow> buffer_from P (map_erase Name_lt name buf)"
  by (simp add: buffer_from_def name_order.wf_erase list_all_erase)

lemma buffer_from_find:
  assumes "buffer_from P buf" and "map_find Name_lt name buf = Some fm"
  shows "map_from P name fm"
proof -
  have "(name, fm) \<in> set buf" using assms by (simp add: buffer_from_def name_order.find_iff_mem)
  with assms(1) show ?thesis by (auto simp: buffer_from_def list_all_iff)
qed

lemma buffer_from_Nil: "buffer_from P []"
  by (simp add: buffer_from_def)

lemma store_from_set: "store_from P frs \<Longrightarrow> buffer_from P buf \<Longrightarrow> store_from P (map_set int_lt i buf frs)"
  by (simp add: store_from_def int_order.wf_set int_order.list_all_set_total)

lemma store_from_erase: "store_from P frs \<Longrightarrow> store_from P (map_erase int_lt i frs)"
  by (simp add: store_from_def int_order.wf_erase list_all_erase)

lemma store_from_touch: "store_from P frs \<Longrightarrow> store_from P (map_touch int_lt [] i frs)"
  by (simp add: map_touch_def map_emplace_def store_from_set buffer_from_Nil)

lemma store_from_get: "store_from P frs \<Longrightarrow> buffer_from P (map_get int_lt [] i frs)"
  unfolding map_get_def store_from_def
  by (cases "map_find int_lt i frs") (auto simp: buffer_from_Nil dest: list_all_find)

lemma store_from_found:
  "store_from P frs \<Longrightarrow> find_buffer name frs = Some (i, buf) \<Longrightarrow> buffer_from P buf"
  by (auto simp: store_from_def find_buffer_def find_Some_iff list_all_iff dest!: nth_mem)

text \<open>When every name has one object, the fragments of a name that reassemble are all of its object: whatever is
  missing, repeated or out of order, nothing else comes out.\<close>

lemma map_from_received:
  assumes "single_valued P" and "(name, data) \<in> P" and "map_from P name fm"
  shows "\<exists>F. F \<subseteq> {..<frag_count data} \<and> F \<noteq> {} \<and> fm = received data F"
proof -
  define F where "F = {i. i < frag_count data \<and> frag_entry data i \<in> set fm}"
  have F: "F \<subseteq> {..<frag_count data}" by (auto simp: F_def)
  then have fin: "finite F" using finite_subset by blast
  have "\<exists>i \<in> F. e = frag_entry data i" if "e \<in> set fm" for e
  proof -
    have e: "0 \<le> fst e" "is_fragment P name (nat (fst e)) (snd e)"
      using assms(3) that by (auto simp: map_from_def list_all_iff)
    from e(2) obtain data' i where p: "(name, data') \<in> P" "i < frag_count data'" "nat (fst e) = frag_offset data' i"
      "snd e = frag_bytes data' i" unfolding is_fragment_def by blast
    have "data' = data" using assms(1,2) p(1) by (auto dest: single_valuedD)
    with p e(1) have "e = frag_entry data i" "i < frag_count data" by (simp_all add: frag_entry_def prod_eq_iff)
    with that show ?thesis by (auto simp: F_def)
  qed
  then have "set fm = frag_entry data ` F" by (auto simp: F_def)
  then have "set fm = set (received data F)" by (simp add: set_received fin)
  moreover have "map_wf int_lt fm" "fm \<noteq> []" using assms(3) by (simp_all add: map_from_def)
  ultimately have "fm = received data F" using int_order.wf_eqI received_wf [OF fin] by blast
  with F \<open>fm \<noteq> []\<close> show ?thesis by (auto simp: received_def)
qed

lemma reassembled_object:
  assumes "single_valued P" and "map_from P name fm"
    and "fst (last fm) AND 1 = 1" and "reassemble 0 [] fm = Some data"
  shows "(name, data) \<in> P"
proof -
  have "fm \<noteq> []" using assms(2) by (simp add: map_from_def)
  then have "is_fragment P name (nat (fst (hd fm))) (snd (hd fm))" using assms(2) by (simp add: map_from_def list_all_iff)
  then obtain obj where obj: "(name, obj) \<in> P" "length obj < 2 ^ 30" unfolding is_fragment_def by blast
  obtain F where F: "F \<subseteq> {..<frag_count obj}" "F \<noteq> {}" and fm: "fm = received obj F"
    using map_from_received [OF assms(1) obj(1) assms(2)] by blast
  have "F = {..<frag_count obj}"
    using received_complete(1) [OF F obj(2)] assms(3,4) unfolding fm by simp
  from received_complete(2) [OF F obj(2) this] assms(4) obj(1) show ?thesis unfolding fm by simp
qed

section \<open>What a client hands to the application\<close>

text \<open>\<open>S\<close> are the subscriptions the application asked for. A delivery is genuine when the object was published
  under the name and the delegate was subscribed to a namespace that contains it.\<close>

definition genuine_delivery ::
  "(Name \<times> bytes) set \<Rightarrow> (delegate \<times> Namespace) set \<Rightarrow> (delegate \<Rightarrow> bytes \<Rightarrow> bytes) \<Rightarrow> delegate \<Rightarrow> Name \<Rightarrow> bytes \<Rightarrow> bool" where
  "genuine_delivery P S L d name data \<longleftrightarrow>
     (\<exists>obj. (name, obj) \<in> P \<and> intact L obj data) \<and> (\<exists>ns. (d, ns) \<in> S \<and> contains ns name = Inr True)"

fun event_genuine ::
  "(Name \<times> bytes) set \<Rightarrow> (delegate \<times> Namespace) set \<Rightarrow> (delegate \<Rightarrow> bytes \<Rightarrow> bytes) \<Rightarrow> client_event \<Rightarrow> bool" where
  "event_genuine P S L (OnSubscribedObject d name p e r data) = genuine_delivery P S L d name data"
| "event_genuine P S L _ = True"

definition delivers ::
  "(Name \<times> bytes) set \<Rightarrow> (delegate \<times> Namespace) set \<Rightarrow> (delegate \<Rightarrow> bytes \<Rightarrow> bytes) \<Rightarrow> Client \<Rightarrow> bool" where
  "delivers P S L c \<longleftrightarrow> store_from P (fragments c) \<and> list_all (\<lambda>e. (snd e, fst e) \<in> S) (sub_delegates c) \<and>
     list_all (event_genuine P S L) (events c)"

named_theorems delivers_intros \<open>client operations that only make genuine deliveries\<close>

lemma delivers_modify [delivers_intros]:
  "(\<And>c. events (f c) = events c) \<Longrightarrow> (\<And>c. sub_delegates (f c) = sub_delegates c) \<Longrightarrow>
     (\<And>c. store_from P (fragments c) \<Longrightarrow> store_from P (fragments (f c))) \<Longrightarrow> op_keeps (delivers P S L) (op_modify f)"
  by (rule keeps_modify) (simp add: delivers_def)

lemma delivers_callback [delivers_intros]:
  "event_genuine P S L ev \<Longrightarrow> op_keeps (delivers P S L) (callback env d ev)"
  by (simp add: op_keeps_def callback_run delivers_def)

lemma delivers_enqueue [delivers_intros]: "op_keeps (delivers P S L) (enqueue env ctx stream msg)"
  by (simp add: op_keeps_def enqueue_run delivers_def)

text \<open>A bind whose first operation reads the state: what the invariant says of the value can be used.\<close>

lemma keeps_get_bind:
  assumes "\<And>s. I s \<Longrightarrow> A (f s)" and "\<And>x. A x \<Longrightarrow> op_keeps I (g x)"
  shows "op_keeps I (op_bind (op_get f) g)"
  using assms by (simp add: op_keeps_def op_simps)

lemma keeps_cond: "(b \<Longrightarrow> op_keeps I m) \<Longrightarrow> (\<not> b \<Longrightarrow> op_keeps I n) \<Longrightarrow> op_keeps I (if b then m else n)"
  by simp

lemma delivers_moved:
  assumes "list_all (\<lambda>e. (snd e, fst e) \<in> S) ds" and "(name, obj) \<in> P" and "length obj \<le> 1200" and "intact (leaves env) obj data"
  shows "op_keeps (delivers P S (leaves env)) (deliver_moved env name ds data)"
  using assms(1,4)
proof (induction ds arbitrary: data)
  case (Cons e ds)
  have "genuine_delivery P S (leaves env) (snd e) name data" if "contains (fst e) name = Inr True"
    using Cons.prems assms(2) that unfolding genuine_delivery_def by auto
  then show ?case
    using Cons.IH Cons.prems intact_leaves [OF _ assms(3)]
    by (auto intro!: keeps_lift_bind keeps_cond keeps_then delivers_callback)
qed (simp add: keeps_return)

lemma delivers_copies:
  assumes "(name, obj) \<in> P"
  shows "op_keeps (delivers P S L) (deliver_copies env name obj)"
proof -
  have "op_keeps (delivers P S L) (op_for ds (\<lambda>(ns, d). op_bind (op_lift (contains ns name)) (\<lambda>c.
      op_when c (callback env d (OnSubscribedObject d name 0 0 False obj)))))"
    if "list_all (\<lambda>e. (snd e, fst e) \<in> S) ds" for ds
    using that
  proof (induction ds)
    case (Cons e ds)
    have "genuine_delivery P S L (snd e) name obj" if "contains (fst e) name = Inr True"
      using Cons.prems assms that intact_refl unfolding genuine_delivery_def by auto
    then show ?case
      using Cons by (auto simp: case_prod_beta op_when_def intro!: keeps_lift_bind keeps_cond keeps_then keeps_return delivers_callback)
  qed (simp add: keeps_return)
  then show ?thesis
    unfolding deliver_copies_def by (intro keeps_get_bind [where A = "list_all (\<lambda>e. (snd e, fst e) \<in> S)"]) (simp_all add: delivers_def)
qed

lemma delivers_notify:
  assumes "single_valued P" and "map_from P name fm"
  shows "op_keeps (delivers P S L) (notify_pub_fragment env name fm)"
proof -
  have "(name, data) \<in> P" if "fst (last fm) AND 1 = 1" "reassemble 0 [] fm = Some data" for data
    by (rule reassembled_object [OF assms that])
  then show ?thesis
    unfolding notify_pub_fragment_def
    by (auto intro!: keeps_intros delivers_copies split: option.split)
qed

lemma delivers_set_buffer:
  "buffer_from P buf \<Longrightarrow> op_keeps (delivers P S L) (set_buffer i buf)"
  unfolding set_buffer_def by (intro delivers_modify) (simp_all add: store_from_set)

lemma delivers_erase_name: "op_keeps (delivers P S L) (erase_name i name)"
  unfolding erase_name_def by (intro delivers_modify) (simp_all add: store_from_set buffer_from_erase store_from_get)

lemma delivers_store:
  assumes "single_valued P" and "is_fragment P name off d" and "buffer_from P cur"
  shows "op_keeps (delivers P S L) (store_fragment env name (int off) d ci cur)"
proof (cases "map_find Name_lt name cur")
  case (Some fm)
  let ?fm = "map_emplace int_lt (int off) d fm"
  have fm: "map_from P name ?fm" using buffer_from_find [OF assms(3) Some] assms(2) by (intro map_from_emplace) simp_all
  show ?thesis
    unfolding store_fragment_def Some option.case Let_def
    by (intro keeps_then keeps_bind keeps_when delivers_set_buffer delivers_erase_name delivers_notify [OF assms(1) fm]
        buffer_from_set [OF assms(3) fm])
next
  case None
  have new: "map_from P name [(int off, d)]" using map_from_emplace [OF disjI2 [OF refl] assms(2)] by (simp add: map_emplace_def map_has_def)
  have found: "op_keeps (delivers P S L) (let fm' = map_emplace int_lt (int off) d (map_get Name_lt [] name buf) in
      op_then (set_buffer i (map_set Name_lt name fm' buf)) (
      op_bind (notify_pub_fragment env name fm') (\<lambda>complete.
      op_when complete (op_lift (Inl undefined_behaviour)))))" if "buffer_from P buf" for i buf
  proof -
    have "map_from P name (map_get Name_lt [] name buf) \<or> map_get Name_lt [] name buf = []"
      using buffer_from_find [OF that] by (simp add: map_get_def split: option.split)
    note fm = map_from_emplace [OF this assms(2)]
    show ?thesis
      unfolding Let_def
      by (intro keeps_then keeps_bind keeps_when keeps_lift delivers_set_buffer delivers_notify [OF assms(1) fm]
          buffer_from_set [OF that fm])
  qed
  show ?thesis
    unfolding store_fragment_def None option.case
    using found
    by (intro keeps_get_bind [where A = "\<lambda>r. \<forall>i buf. r = Some (i, buf) \<longrightarrow> buffer_from P buf"])
      (auto simp: delivers_def store_from_found split: option.split
        intro!: delivers_set_buffer buffer_from_set [OF assms(3) new])
qed

lemma delivers_fragment:
  assumes "single_valued P" and "genuine P d"
  shows "op_keeps (delivers P S L) (handle_pub_fragment env d)"
proof -
  obtain data i where p: "(h_name (pd_header d), data) \<in> P" "length data < 2 ^ 30" "i < frag_count data"
    and off: "h_offset_and_fin (pd_header d) = of_nat (frag_offset data i)" and b: "pd_media_data d = frag_bytes data i"
    using assms(2) unfolding genuine_def is_fragment_def by blast
  have key: "to_int32 (uint (h_offset_and_fin (pd_header d))) = int (frag_offset data i)"
    unfolding off by (rule frag_key [OF p(3,2)])
  have "is_fragment P (h_name (pd_header d)) (frag_offset data i) (pd_media_data d)"
    using p b unfolding is_fragment_def by blast
  note store = delivers_store [OF assms(1) this]
  have "op_keeps (delivers P S L) next_buffer"
    unfolding next_buffer_def by (intro keeps_intros delivers_intros) (simp_all add: store_from_erase)
  moreover have "op_keeps (delivers P S L) (touch_buffer ci)" for ci
    unfolding touch_buffer_def by (intro delivers_modify) (simp_all add: store_from_touch)
  ultimately show ?thesis
    unfolding handle_pub_fragment_def key
    by (intro keeps_then keeps_bind [OF keeps_get] keeps_get_bind [where A = "buffer_from P"] store)
      (simp_all add: delivers_def store_from_get)
qed

lemma delivers_remove:
  "op_keeps (delivers P S L) (removeSubscribeState env all ns reason)"
proof -
  have erase: "op_keeps (delivers P S L) (op_modify (\<lambda>c. c\<lparr>sub_delegates := map_erase Namespace_lt ns (sub_delegates c)\<rparr>))" for ns
    by (rule keeps_modify) (simp add: delivers_def list_all_erase)
  have "op_keeps (delivers P S L) (removeSubscribeState_one env ns reason)" for ns
    unfolding removeSubscribeState_one_def by (intro keeps_intros erase delivers_intros) simp_all
  then show ?thesis unfolding removeSubscribeState_def by (intro keeps_intros)
qed

lemma delivers_handle:
  assumes "single_valued P" and "harmless P msg" and "leaves env = L"
  shows "op_keeps (delivers P S L) (client_handle env msg)"
proof -
  have answers: "op_keeps (delivers P S L) (handle_SubscribeResponse env r)"
    "op_keeps (delivers P S L) (handle_PublishIntentResponse env p)" for r p
    unfolding handle_SubscribeResponse_def handle_PublishIntentResponse_def by (intro keeps_intros delivers_intros; simp)+
  have "op_keeps (delivers P S L) (handle_Publish env d)" if "get_PublishDatagram msg = Inr (d, rest)" for d rest
  proof -
    have g: "genuine P d" using assms(2) that unfolding harmless_def by blast
    have "op_keeps (delivers P S L) (deliver_moved env (h_name (pd_header d)) ds (pd_media_data d))"
      if "h_offset_and_fin (pd_header d) = 1" "list_all (\<lambda>e. (snd e, fst e) \<in> S) ds" for ds
      using delivers_moved [where env = env, OF that(2) genuine_whole [OF g that(1)] intact_refl] unfolding assms(3) .
    then show ?thesis
      unfolding handle_Publish_def
      by (intro keeps_cond delivers_fragment [OF assms(1) g] keeps_get_bind [where A = "list_all (\<lambda>e. (snd e, fst e) \<in> S)"])
        (simp_all add: delivers_def)
  qed
  then show ?thesis
    unfolding client_handle_def case_prod_beta
    by (auto intro!: keeps_return keeps_lift_bind keeps_cond answers delivers_remove split: MessageType.splits)
qed

text \<open>The calls of a client, with what they add to the objects and the subscriptions.\<close>

fun call_publishes :: "client_call \<Rightarrow> (Name \<times> bytes) set" where
  "call_publishes (Do_publishNamedObject name data) = {(name, data)}"
| "call_publishes _ = {}"

fun call_subscribes :: "client_call \<Rightarrow> (delegate \<times> Namespace) set" where
  "call_subscribes (Do_subscribe tid d ns intent) = {(d, ns)}"
| "call_subscribes _ = {}"

fun call_receives :: "client_call \<Rightarrow> bytes set" where
  "call_receives (Do_recv_notify dequeue) = {m. \<exists>k. dequeue k = Some m}"
| "call_receives _ = {}"

lemma list_all_set_new:
  "list_all Q m \<Longrightarrow> Q (k, v) \<Longrightarrow> \<not> map_has lt k m \<Longrightarrow> list_all Q (map_set lt k v m)"
  by (induction m) (auto simp: map_has_def split: if_splits)

lemma delivers_sending:
  "op_keeps (delivers P S L) (op_bind (publishIntent env tid d ns payload) (\<lambda>_. op_return ()))"
  "op_keeps (delivers P S L) (publishIntentEnd env ns)" "op_keeps (delivers P S L) (unsubscribe env ns)"
  "op_keeps (delivers P S L) (publishNamedObject env name data)"
proof -
  have send: "op_keeps (delivers P S L) (send_fragment env stream header off d)" for stream header off d
    unfolding send_fragment_def by (intro keeps_intros delivers_intros)
  have frag: "op_keeps (delivers P S L) (fragment_loop env stream header data remaining offset n)" for stream header data remaining offset n
    by (induction n arbitrary: offset) (auto intro!: keeps_intros send)
  show "op_keeps (delivers P S L) (publishNamedObject env name data)"
    unfolding publishNamedObject_def Let_def by (intro keeps_intros frag send)
qed (unfold publishIntent_def publishIntentEnd_def unsubscribe_def, (intro keeps_intros delivers_intros; simp)+)

lemma delivers_call:
  assumes "single_valued P" and "call_typed call" and "leaves env = L"
    and "\<forall>m \<in> call_receives call. harmless P m" and "call_subscribes call \<subseteq> S"
  shows "op_keeps (\<lambda>c. client_inv 5000 20 c \<and> delivers P S L c) (client_exec (env, call))"
proof
  fix c let ?m = "client_exec (env, call)"
  assume c: "client_inv 5000 20 c \<and> delivers P S L c" and nub: "fst (?m c) \<noteq> Inl undefined_behaviour"
  have inv: "client_inv 5000 20 (snd (?m c))"
    using op_keepsD [OF client.inv_exec conjunct1 [OF c]] nub by (metis prod.collapse)
  have "delivers P S L (snd (?m c))"
  proof (cases call)
    case (Do_subscribe tid d ns intent)
    then have ok: "ns_wf ns" "SubscribeIntent_cast (SubscribeIntent_code intent) = intent" "(d, ns) \<in> S"
      using assms(2,5) by simp_all
    from c have "list_all (\<lambda>e. (snd e, fst e) \<in> S) (map_emplace Namespace_lt ns d (sub_delegates c))"
      using list_all_set_new [of "\<lambda>e. (snd e, fst e) \<in> S" "sub_delegates c" ns d Namespace_lt] ok(3)
      by (simp add: map_emplace_def delivers_def)
    then show ?thesis
      using subscribe_run [OF conjunct1 [OF c] ok(1,2), of env tid d] c by (simp add: Do_subscribe delivers_def)
  next
    case (Do_recv_notify dequeue)
    have "op_keeps (delivers P S L) (client_on_recv_notify env dequeue)"
      unfolding client_on_recv_notify_def
      by (rule keeps_dequeued(1), rule delivers_handle [OF assms(1) _ assms(3)]) (use assms(4) in \<open>auto simp: Do_recv_notify\<close>)
    then show ?thesis using c nub by (simp add: Do_recv_notify op_keeps_def)
  next
    case (Do_connection_status status)
    then show ?thesis
      using c nub delivers_remove [of P S L env True empty_Namespace Status_ConnectionClosed]
      by (cases "status = TS_Disconnected") (simp_all add: client_on_connection_status_def op_when_def op_keeps_def op_return_def)
  qed (use c nub delivers_sending in \<open>simp_all add: op_keeps_def\<close>)
  with inv show "client_inv 5000 20 (snd (?m c)) \<and> delivers P S L (snd (?m c))" by simp
qed

end
