(* ===== verification/Network.thy ===== *)
theory Network
  imports Integrity
begin

text \<open>The composition of the components: clients and a relay on a network that loses, repeats, delays and
  reorders messages, as a step relation over the models of \<open>quicr_client.cpp\<close>,
  \<open>quicr_server.cpp\<close> and \<open>really.cpp\<close>, with the invariant that only published objects travel,
  and a session of one subscriber and one publisher as a run of it. Every client is in a process of its own.\<close>

section \<open>Messages that carry published objects only\<close>





lemma genuine_mono: "P \<subseteq> P' \<Longrightarrow> genuine P d \<Longrightarrow> genuine P' d"
  unfolding genuine_def is_fragment_def by blast

section \<open>The network\<close>









section \<open>The invariant of the network\<close>











section \<open>A session over the network\<close>
















end
