(* ===== verification/Wire_Typing.thy ===== *)
theory Wire_Typing
  imports Sent_Messages
begin

text \<open>
  The protocol is typed: what one party sends is what the other party's dispatch and decoders accept.
  \<open>server_reads\<close> and \<open>client_reads\<close> are the two directions; both are kinds of
  messages in the sense of \<^verbatim>\<open>Sent_Messages\<close>, so every message sent in a run is typed.
\<close>

section \<open>Typed messages\<close>

text \<open>A message is typed for a receiver when the receiver's dispatch finds a handler for its type byte
  and the decoder of that handler reads all of it.\<close>

definition reads_all :: "('a \<times> bytes) res \<Rightarrow> bool" where
  "reads_all r \<longleftrightarrow> (case r of Inl _ \<Rightarrow> False | Inr (_, rest) \<Rightarrow> rest = [])"

definition server_reads :: "bytes \<Rightarrow> bool" where
  "server_reads msg \<longleftrightarrow> msg \<noteq> [] \<and>
     (case MessageType_cast (hd msg) of
        MT_Subscribe \<Rightarrow> reads_all (get_Subscribe 0 msg)
      | MT_Publish \<Rightarrow> reads_all (get_PublishDatagram msg)
      | MT_Unsubscribe \<Rightarrow> reads_all (get_Unsubscribe 0 msg)
      | MT_PublishIntent \<Rightarrow> reads_all (get_PublishIntent msg)
      | MT_PublishIntentEnd \<Rightarrow> reads_all (get_PublishIntentEnd msg)
      | _ \<Rightarrow> False)"

definition client_reads :: "bytes \<Rightarrow> bool" where
  "client_reads msg \<longleftrightarrow> msg \<noteq> [] \<and>
     (case MessageType_cast (hd msg) of
        MT_SubscribeResponse \<Rightarrow> reads_all (get_SubscribeResponse msg)
      | MT_SubscribeEnd \<Rightarrow> reads_all (get_SubscribeEnd msg)
      | MT_Publish \<Rightarrow> reads_all (get_PublishDatagram msg)
      | MT_PublishIntentResponse \<Rightarrow> reads_all (get_PublishIntentResponse msg)
      | _ \<Rightarrow> False)"

lemma reads_all_Inr: "r = Inr (x, []) \<Longrightarrow> reads_all r"
  by (simp add: reads_all_def)

lemma server_reads_messages:
  "ns_wf (s_namespace m1) \<Longrightarrow> intent.named (s_intent m1) \<Longrightarrow> server_reads (enc_Subscribe m1)"
  "ns_wf (u_namespace m2) \<Longrightarrow> server_reads (enc_Unsubscribe m2)"
  "PublishIntent_ok m3 \<Longrightarrow> pi_message_type m3 = MT_PublishIntent \<Longrightarrow> server_reads (enc_PublishIntent m3)"
  "PublishIntentEnd_ok m4 \<Longrightarrow> pie_message_type m4 = MT_PublishIntentEnd \<Longrightarrow> server_reads (enc_PublishIntentEnd m4)"
  "PublishDatagram_ok m5 \<Longrightarrow> server_reads (enc_PublishDatagram m5)"
proof -
  show "server_reads (enc_Subscribe m1)" if "ns_wf (s_namespace m1)" "intent.named (s_intent m1)"
  proof -
    have "get_Subscribe 0 (enc_Subscribe (m1\<lparr>s_version := 0\<rparr>)) = Inr (m1\<lparr>s_version := 0\<rparr>, [])"
      using subscribe.get_enc [of 0 "m1\<lparr>s_version := 0\<rparr>" "[]"] that by (simp add: Subscribe_ok_def)
    then have "reads_all (get_Subscribe 0 (enc_Subscribe m1))" by (simp add: version_not_sent reads_all_def)
    then show ?thesis by (simp add: server_reads_def enc_Subscribe_def enc_type_def enc_u8_def MessageType_cast_def)
  qed
  show "server_reads (enc_Unsubscribe m2)" if "ns_wf (u_namespace m2)"
  proof -
    have "get_Unsubscribe 0 (enc_Unsubscribe (m2\<lparr>u_version := 0\<rparr>)) = Inr (m2\<lparr>u_version := 0\<rparr>, [])"
      using unsubscribe.get_enc [of 0 "m2\<lparr>u_version := 0\<rparr>" "[]"] that by (simp add: Unsubscribe_ok_def)
    then have "reads_all (get_Unsubscribe 0 (enc_Unsubscribe m2))" by (simp add: version_not_sent reads_all_def)
    then show ?thesis by (simp add: server_reads_def enc_Unsubscribe_def enc_type_def enc_u8_def MessageType_cast_def)
  qed
  show "server_reads (enc_PublishIntent m3)" if "PublishIntent_ok m3" "pi_message_type m3 = MT_PublishIntent"
    using reads_all_Inr [OF publish_intent.get_enc [OF that(1), of "[]", simplified]] that(2)
    by (simp add: server_reads_def enc_PublishIntent_def enc_type_def enc_u8_def MessageType_cast_def)
  show "server_reads (enc_PublishIntentEnd m4)" if "PublishIntentEnd_ok m4" "pie_message_type m4 = MT_PublishIntentEnd"
    using reads_all_Inr [OF publish_intent_end.get_enc [OF that(1), of "[]", simplified]] that(2)
    by (simp add: server_reads_def enc_PublishIntentEnd_def enc_type_def enc_u8_def MessageType_cast_def)
  show "server_reads (enc_PublishDatagram m5)" if "PublishDatagram_ok m5"
    using reads_all_Inr [OF publish_datagram.get_enc [OF that, of "[]", simplified]]
    by (simp add: server_reads_def enc_PublishDatagram_def enc_type_def enc_u8_def MessageType_cast_def)
qed

lemma client_reads_messages:
  "SubscribeResponse_ok m1 \<Longrightarrow> client_reads (enc_SubscribeResponse m1)"
  "SubscribeEnd_ok m2 \<Longrightarrow> client_reads (enc_SubscribeEnd m2)"
  "PublishIntentResponse_ok m3 \<Longrightarrow> pir_message_type m3 = MT_PublishIntentResponse \<Longrightarrow> client_reads (enc_PublishIntentResponse m3)"
  "PublishDatagram_ok m4 \<Longrightarrow> client_reads (enc_PublishDatagram m4)"
  using reads_all_Inr [OF subscribe_response.get_enc [of m1 "[]", simplified]]
    reads_all_Inr [OF subscribe_end.get_enc [of m2 "[]", simplified]]
    reads_all_Inr [OF publish_intent_response.get_enc [of m3 "[]", simplified]]
    reads_all_Inr [OF publish_datagram.get_enc [of m4 "[]", simplified]]
  by (simp_all add: client_reads_def enc_SubscribeResponse_def enc_SubscribeEnd_def enc_PublishIntentResponse_def
      enc_PublishDatagram_def enc_type_def enc_u8_def MessageType_cast_def)

section \<open>What the parties send\<close>

interpretation typed_client: client_messages server_reads "\<lambda>_ _. True"
proof
  show "server_reads (enc_PublishDatagram d)"
    if "stream < 2 ^ 60" "length data < 2 ^ 30" "d \<in> set (object_datagrams stream name data)" for name data stream d
    using object_datagrams_ok [OF that(1,2), of name] that(3) by (auto simp: list_all_iff intro: server_reads_messages)
qed (rule server_reads_messages; assumption)+

interpretation typed_relay: relay_messages client_reads
  by unfold_locales (rule client_reads_messages; assumption)+

text \<open>C14. Every message a client ever sends is one the server's dispatch knows and its decoder reads
  to the end, whatever the application calls in whatever order and the network delivers, as long as
  the arguments can be encoded.\<close>

theorem client_messages_typed:
  assumes "stream < 2 ^ 60" and "list_all (\<lambda>call. call_typed (snd call)) calls"
    and "op_run_all client_exec calls (new_client ctx stream) = Some c"
    and "Enqueue cx st msg \<in> set (events c)"
  shows "server_reads msg"
proof -
  have "client_sends server_reads c" by (rule typed_client.sends_run [OF assms(1,2) TrueI assms(3)])
  with assms(4) show ?thesis by (auto simp: client_sends_def list_all_iff)
qed

text \<open>C15. Every message the relay ever sends is one the client's dispatch knows and its decoder reads to
  the end, whatever bytes the connections deliver to the relay: a forwarded object is written
  anew from what was read, and every answer is built from a namespace that was read.\<close>

theorem relay_messages_typed:
  assumes "ctor_agrees mk" and "op_run_all (relay_exec mk) calls ReallyServer = Some s" and "(ctx, stream, msg) \<in> set (sv_sent s)"
  shows "client_reads msg"
proof -
  have "forwardable client_reads m" for m
    by (simp add: forwardable_def) (meson decoded_datagram_ok client_reads_messages(4))
  then have exec: "op_keeps (relay_sends client_reads) (relay_exec mk l)" for l
    using typed_relay.sent_recv_loop [OF assms(1)] typed_relay.sent_connection_status [OF assms(1)] by (cases l) simp_all
  have "relay_sends client_reads ReallyServer"
    using sample_relays(1) by (simp add: relay_sends_def sent_all_def new_relay_fields)
  from run_all_keeps [OF exec this assms(2)] assms(3) show ?thesis by (auto simp: relay_sends_def sent_all_def list_all_iff)
qed

section \<open>Samples\<close>

theorem client_messages_typed_witness:
  "server_reads (enc_Subscribe \<lparr>s_version = 1, s_transaction_id = 5, s_namespace = sample_ns, s_intent = immediate\<rparr>)"
proof -
  have ok: "list_all (\<lambda>call. call_typed (snd call)) [(sample_env, Do_subscribe 5 0 sample_ns immediate)]"
    by (simp add: sample_ns_wf SubscribeIntent_cast_def)
  have run: "op_run_all client_exec [(sample_env, Do_subscribe 5 0 sample_ns immediate)] (new_client 1 2) =
      Some (snd (subscribe sample_env 5 0 sample_ns immediate (new_client 1 2)))"
    using subscribe_run [OF new_client_inv sample_ns_wf immediate_named, of sample_env 5 0 1 2] by simp
  have "events (snd (subscribe sample_env 5 0 sample_ns immediate (new_client 1 2))) =
      [Enqueue 1 2 (subscribe_request 5 sample_ns immediate)]"
    using session_subscribe(1) [OF sample_ns_wf immediate_named sample_alive, of 5 0 1 2] by (simp add: session_subscriber_def)
  then show ?thesis by (intro client_messages_typed [OF _ ok run, of 1 2]) simp_all
qed

theorem relay_messages_typed_witness:
  "client_reads (subscribe_ok_msg 0 sample_ns)"
proof -
  have "(1, 10, subscribe_ok_msg 0 sample_ns) \<in> set (sv_sent relay_one)"
    using first_subscription(1) [OF sample_relays(1) new_relay_fields(1) [of 1 sample_ns], where stream = 10]
    by (simp add: relay_one_def sample_sub_def new_relay_fields)
  then show ?thesis by (rule relay_messages_typed [OF ctor_agrees_class relay_one_reached])
qed

end
