(* ===== verification/Pacing.thy ===== *)
theory Pacing
  imports Client_Objects
begin

text \<open>
  The pauses of a publishing client (\<^verbatim>\<open>publishNamedObject\<close> of \<^verbatim>\<open>quicr_client.cpp\<close>) and the constructor that decides
  on them. The calls of \<open>sleep_for\<close> are entries of a time line, between the messages
  handed to the transport. The method with its pauses refines the one of \<^verbatim>\<open>Quicr_Client\<close>,
  and the pauses bound the bursts.
\<close>

section \<open>Opening the connection\<close>

text \<open>The remote that \<^verbatim>\<open>make_transport\<close> hands to the transport, and the constructor from a relay address: it
  turns pacing on for plain UDP. The flag is returned beside the client.\<close>

definition client_server :: "RelayInfo \<Rightarrow> TransportRemote" where
  "client_server relay_info =
     \<lparr>host_or_ip = hostname relay_info, remote_port = port relay_info,
      remote_proto = (if proto relay_info = UDP then TP_UDP else TP_QUIC)\<rparr>"

definition QuicRClient_of_relay ::
  "RelayInfo \<Rightarrow> (nat \<Rightarrow> TransportStatus) \<Rightarrow> TransportContextId \<Rightarrow> StreamId \<Rightarrow> (bool \<times> Client) res option" where
  "QuicRClient_of_relay relay_info status start_result stream_result =
     map_option (map_sum id (Pair (proto relay_info = UDP))) (make_transport status start_result stream_result)"

section \<open>Publishing with its pauses\<close>

text \<open>The time line of a call: the pauses of the calling thread, in microseconds, and the messages it hands to the
  transport.\<close>

datatype pace = Pause nat | Handed

record paced =
  p_client :: Client
  timeline :: "pace list"

type_synonym 'a paced_op = "(paced, 'a) op"

definition on_client :: "'a client_op \<Rightarrow> 'a paced_op" where
  "on_client m p = (case m (p_client p) of (r, c) \<Rightarrow> (r, p\<lparr>p_client := c\<rparr>))"

definition mark :: "pace \<Rightarrow> unit paced_op" where
  "mark x = op_modify (\<lambda>p. p\<lparr>timeline := timeline p @ [x]\<rparr>)"

text \<open>Encoding a fragment, the pause before it and handing it over; the pause after a refusal is the caller's.\<close>

definition paced_send ::
  "client_env \<Rightarrow> unit paced_op \<Rightarrow> StreamId \<Rightarrow> Header \<Rightarrow> uintVar_t \<Rightarrow> bytes \<Rightarrow> bool paced_op" where
  "paced_send env pause stream header offset_and_fin frag_data =
     op_bind (op_lift (mk_uintVar (of_nat (length frag_data)))) (\<lambda>len.
     op_bind (op_lift (put_PublishDatagram []
       \<lparr>pd_header = header\<lparr>h_offset_and_fin := offset_and_fin\<rparr>, pd_media_type = RealtimeMedia,
        pd_media_data_length = len, pd_media_data = frag_data\<rparr>)) (\<lambda>msg.
     op_then pause (
     op_bind (on_client (op_get transport_context_id)) (\<lambda>ctx.
     op_then (mark Handed) (on_client (enqueue env ctx stream msg))))))"

fun paced_loop ::
  "bool \<Rightarrow> client_env \<Rightarrow> StreamId \<Rightarrow> Header \<Rightarrow> bytes \<Rightarrow> nat \<Rightarrow> int \<Rightarrow> nat \<Rightarrow> int option paced_op" where
  "paced_loop need_pacing env stream header data remaining offset 0 = op_return (Some offset)"
| "paced_loop need_pacing env stream header data remaining offset (Suc frag_num) =
     op_bind (op_lift (offset_field offset (frag_num = 0 \<and> remaining = 0))) (\<lambda>offset_and_fin.
     op_bind (paced_send env (op_when (need_pacing \<and> frag_num mod 30 = 0) (mark (Pause 1000))) stream header offset_and_fin
       (take MAX_TRANSPORT_DATA_SIZE (drop (nat offset) data))) (\<lambda>ok.
     if ok then
       paced_loop need_pacing env stream header data remaining
         (offset + int MAX_TRANSPORT_DATA_SIZE) frag_num
     else op_then (mark (Pause 100)) (op_return None)))"

definition paced_publishNamedObject :: "bool \<Rightarrow> client_env \<Rightarrow> Name \<Rightarrow> bytes \<Rightarrow> unit paced_op" where
  "paced_publishNamedObject need_pacing env name data =
     op_bind (on_client (op_get (\<lambda>c. publish_context c name))) (\<lambda>context.
     op_bind (op_lift (mk_uintVar (pc_transport_stream_id context))) (\<lambda>media_id.
     op_bind (op_lift (mk_uintVar (pc_group_id context))) (\<lambda>group_id.
     op_bind (op_lift (mk_uintVar (pc_object_id context))) (\<lambda>object_id.
     let header = \<lparr>h_media_id = media_id, h_name = name, h_group_id = group_id,
                   h_object_id = object_id, h_offset_and_fin = 1, h_flags = 0\<rparr>;
         stream = pc_transport_stream_id context in
     if length data \<le> MAX_TRANSPORT_DATA_SIZE then
       op_bind (paced_send env (op_return ()) stream header 1 data) (\<lambda>_. op_return ())
     else
       let frag_num = nat (to_int32 (int (length data div MAX_TRANSPORT_DATA_SIZE)));
           remaining = length data mod MAX_TRANSPORT_DATA_SIZE in
       op_bind (paced_loop need_pacing env stream header data remaining 0 frag_num) (\<lambda>reached.
       case reached of
         None \<Rightarrow> op_return ()
       | Some offset \<Rightarrow>
           op_when (remaining \<noteq> 0) (
             op_bind (op_lift (offset_field offset True)) (\<lambda>offset_and_fin.
             op_bind (paced_send env (op_return ()) stream header offset_and_fin (drop (nat offset) data)) (\<lambda>ok.
             op_when (\<not> ok) (mark (Pause 100))))))))))"

section \<open>The pauses change nothing else\<close>

text \<open>\<open>erases m m'\<close>: without its time line, \<open>m\<close> is \<open>m'\<close>.\<close>

definition erases :: "'a paced_op \<Rightarrow> 'a client_op \<Rightarrow> bool" where
  "erases m m' \<longleftrightarrow> (\<forall>p. fst (m p) = fst (m' (p_client p)) \<and> p_client (snd (m p)) = snd (m' (p_client p)))"

named_theorems erases_intros \<open>operations that differ by their pauses\<close>

lemma erases_basic [erases_intros]:
  "erases (op_return x) (op_return x)" "erases (op_lift r) (op_lift r)" "erases (on_client m) m"
  by (simp_all add: erases_def op_run on_client_def split: prod.split)

lemma erases_bind [erases_intros]:
  assumes "erases m m'" and "\<And>x. erases (f x) (f' x)"
  shows "erases (op_bind m f) (op_bind m' f')"
  unfolding erases_def
proof
  fix p
  obtain r q where m: "m p = (r, q)" by fastforce
  have "m' (p_client p) = (r, p_client q)"
    using assms(1) m unfolding erases_def by (metis fst_conv snd_conv prod.collapse)
  then show "fst (op_bind m f p) = fst (op_bind m' f' (p_client p)) \<and>
      p_client (snd (op_bind m f p)) = snd (op_bind m' f' (p_client p))"
    using assms(2) by (cases r) (simp_all add: op_bind_def m erases_def)
qed

lemma erases_mark [erases_intros]: "erases (mark x) (op_return ())"
  by (simp add: erases_def mark_def op_run)

lemma erases_when [erases_intros]:
  "erases m (op_return ()) \<Longrightarrow> erases (op_when b m) (op_return ())"
  "erases m n \<Longrightarrow> erases (op_when b m) (op_when b n)"
  by (cases b; simp add: erases_basic)+

lemma erases_then [erases_intros]:
  assumes "erases m (op_return ())" and "erases n n'"
  shows "erases (op_then m n) n'"
proof -
  have "op_bind (op_return ()) (\<lambda>_. n') = n'" by (rule ext) (simp add: op_bind_simps)
  with erases_bind [OF assms(1), of "\<lambda>_. n" "\<lambda>_. n'"] assms(2) show ?thesis by (simp add: op_then_def)
qed

lemma erases_if [erases_intros]: "erases m m' \<Longrightarrow> erases n n' \<Longrightarrow> erases (if b then m else n) (if b then m' else n')"
  by simp

lemma erases_send [erases_intros]:
  "erases pause (op_return ()) \<Longrightarrow> erases (paced_send env pause stream header off d) (send_fragment env stream header off d)"
  unfolding paced_send_def send_fragment_def by (intro erases_intros)

lemma erases_loop [erases_intros]:
  "erases (paced_loop need_pacing env stream header data remaining offset n)
     (fragment_loop env stream header data remaining offset n)"
proof (induction n arbitrary: offset)
  case 0
  show ?case by (simp add: erases_basic)
next
  case (Suc n)
  show ?case unfolding paced_loop.simps fragment_loop.simps by (intro erases_intros Suc.IH)
qed

lemma erases_publish: "erases (paced_publishNamedObject need_pacing env name data) (publishNamedObject env name data)"
proof -
  have tail: "erases (case reached of None \<Rightarrow> op_return () | Some offset \<Rightarrow> f offset)
      (case reached of None \<Rightarrow> op_return () | Some offset \<Rightarrow> f' offset)"
    if "\<And>offset. erases (f offset) (f' offset)" for reached :: "int option" and f f'
    using that by (cases reached) (simp_all add: erases_basic)
  show ?thesis
    unfolding paced_publishNamedObject_def publishNamedObject_def Let_def by (intro erases_intros tail)
qed

section \<open>Bursts\<close>

text \<open>\<open>burst_within lim cur\<close> reads a time line after \<open>cur\<close> messages without a pause: the number of messages since the
  last pause, or nothing when more than \<open>lim\<close> followed each other.\<close>

fun burst_step :: "nat \<Rightarrow> nat option \<Rightarrow> pace \<Rightarrow> nat option" where
  "burst_step lim None x = None"
| "burst_step lim (Some cur) (Pause d) = Some 0"
| "burst_step lim (Some cur) Handed = (if cur < lim then Some (Suc cur) else None)"

definition burst_within :: "nat \<Rightarrow> pace list \<Rightarrow> nat option" where
  "burst_within lim = foldl (burst_step lim) (Some 0)"

lemma burst_within_snoc: "burst_within lim (xs @ [x]) = burst_step lim (burst_within lim xs) x"
  by (simp add: burst_within_def)

definition calm :: "nat \<Rightarrow> paced \<Rightarrow> bool" where
  "calm k p \<longleftrightarrow> (\<exists>cur \<le> k. burst_within 30 (timeline p) = Some cur)"

text \<open>\<open>calms k m l\<close>: called after at most \<open>k\<close> messages without a pause, \<open>m\<close> keeps the limit of 30 and returns with at most
  \<open>l\<close> since the last pause.\<close>

definition calms :: "nat \<Rightarrow> 'a paced_op \<Rightarrow> nat \<Rightarrow> bool" where
  "calms k m l \<longleftrightarrow> (\<forall>p. calm k p \<longrightarrow> calm 30 (snd (m p)) \<and> (\<forall>x. fst (m p) = Inr x \<longrightarrow> calm l (snd (m p))))"

lemma calm_mono: "calm k p \<Longrightarrow> k \<le> l \<Longrightarrow> calm l p"
  unfolding calm_def using le_trans by blast

lemma calms_mono: "calms k m l \<Longrightarrow> k' \<le> k \<Longrightarrow> l \<le> l' \<Longrightarrow> calms k' m l'"
  unfolding calms_def using calm_mono by blast

lemma calms_basic:
  "k \<le> 30 \<Longrightarrow> calms k (op_return x) k" "k \<le> 30 \<Longrightarrow> calms k (op_lift r) k" "k \<le> 30 \<Longrightarrow> calms k (on_client m) k"
  using calm_mono [of k _ 30] by (auto simp: calms_def op_run on_client_def calm_def split: prod.split)

lemma calms_mark: "calms k (mark (Pause d)) 0" "k < 30 \<Longrightarrow> calms k (mark Handed) (Suc k)"
  by (auto simp: calms_def calm_def mark_def op_run burst_within_snoc)

lemma calms_bind: "calms k m l \<Longrightarrow> (\<And>x. calms l (f x) n) \<Longrightarrow> calms k (op_bind m f) n"
  unfolding calms_def op_bind_def by (auto split: prod.split sum.split)

lemma calms_then: "calms k m l \<Longrightarrow> calms l n j \<Longrightarrow> calms k (op_then m n) j"
  unfolding op_then_def by (rule calms_bind)

lemma calms_send:
  assumes "calms k pause l" and "k \<le> 30" and "l < 30"
  shows "calms k (paced_send env pause stream header off d) (Suc l)"
  unfolding paced_send_def
  by (intro calms_bind [OF calms_basic(2)] calms_then [OF assms(1)] calms_bind [OF calms_basic(3)] calms_then [OF calms_mark(2)]
      calms_basic(3)) (use assms in simp_all)

text \<open>Before the round of \<open>frag_num\<close>, at most \<open>30 - frag_num mod 30\<close> messages have followed the last pause.\<close>

lemma calms_pacing:
  "calms (30 - n mod 30) (op_when (n mod 30 = 0) (mark (Pause d))) (if n mod 30 = 0 then 0 else 30 - n mod 30)"
  using calms_mark(1) calms_basic(1) [of "30 - n mod 30"] by (cases "n mod 30 = 0") simp_all

lemma round_bound: "Suc (if Suc n mod 30 = 0 then 0 else 30 - Suc n mod 30) \<le> 30 - n mod 30"
proof -
  have "n mod 30 < 30" by simp
  then show ?thesis by (auto simp: mod_Suc)
qed

lemma calms_round:
  assumes "\<And>offset. calms (Suc (if n mod 30 = 0 then 0 else 30 - n mod 30))
    (paced_loop True env stream header data remaining offset n) 1"
  shows "calms (30 - n mod 30) (paced_loop True env stream header data remaining offset (Suc n)) 1"
proof -
  let ?b = "if n mod 30 = 0 then 0 else 30 - n mod 30"
  have send: "calms (30 - n mod 30) (paced_send env (op_when (True \<and> n mod 30 = 0) (mark (Pause 1000))) stream header off d) (Suc ?b)"
    for off d
    using calms_send [OF calms_pacing [of n]] by simp
  have refused: "calms (Suc ?b) (op_then (mark (Pause 100)) (op_return (None :: int option))) 1"
    by (rule calms_mono [OF calms_then [OF calms_mark(1) [of "Suc ?b"] calms_basic(1)]]) simp_all
  show ?thesis
    unfolding paced_loop.simps(2)
    by (intro calms_bind [OF calms_basic(2)] calms_bind [OF send]) (use assms refused in simp_all)
qed

lemma calms_loop: "calms (30 - n mod 30) (paced_loop True env stream header data remaining offset (Suc n)) 1"
proof (induction n arbitrary: offset)
  case 0
  show ?case by (rule calms_round) (simp add: calms_basic)
next
  case (Suc n)
  show ?case by (rule calms_round) (rule calms_mono [OF Suc.IH round_bound order_refl])
qed

lemma calms_whole_loop: "calms 0 (paced_loop True env stream header data remaining offset n) 1"
  using calms_mono [OF calms_loop, of 0] calms_mono [OF calms_basic(1), of 0] by (cases n) simp_all

lemma calms_one: "calms 1 (paced_send env (op_return ()) stream header off d) 2"
  using calms_send [OF calms_basic(1), of 1] by (simp add: numeral_2_eq_2)

lemma calms_publish: "calms 0 (paced_publishNamedObject True env name data) 2"
proof -
  have small: "calms 0 (op_bind (paced_send env (op_return ()) stream header off d) (\<lambda>_. op_return ())) 2" for stream header off d
    by (rule calms_bind [OF calms_mono [OF calms_one, of 0 2]]) (simp_all add: calms_basic)
  have last: "calms 1 (op_when b (op_bind (op_lift off) (\<lambda>off. op_bind (paced_send env (op_return ()) stream header off d)
      (\<lambda>ok. op_when (\<not> ok) (mark (Pause 100)))))) 2" for b off stream header d
  proof -
    have "calms 2 (op_when b (mark (Pause 100))) 2" for b
      using calms_mono [OF calms_mark(1), of 2 2 2 100] calms_basic(1) [of 2 "()"] by (cases b) simp_all
    then have "calms 1 (op_bind (op_lift off) (\<lambda>off. op_bind (paced_send env (op_return ()) stream header off d)
        (\<lambda>ok. op_when (\<not> ok) (mark (Pause 100))))) 2"
      by (intro calms_bind [OF calms_basic(2)] calms_bind [OF calms_one]) simp_all
    then show ?thesis using calms_mono [OF calms_basic(1) [of 1 "()"], of 1 2] by (cases b) simp_all
  qed
  have tail: "calms 1 (case reached of None \<Rightarrow> op_return () | Some offset \<Rightarrow> f offset) 2" if "\<And>offset. calms 1 (f offset) 2"
    for reached :: "int option" and f
    using that calms_mono [OF calms_basic(1) [of 1 "()"], of 1 2] by (cases reached) simp_all
  have large: "calms 0 (op_bind (paced_loop True env stream header data remaining 0 n) (\<lambda>reached.
      case reached of None \<Rightarrow> op_return () | Some offset \<Rightarrow> f offset)) 2" if "\<And>offset. calms 1 (f offset) 2"
    for stream header remaining n f
    by (rule calms_bind [OF calms_whole_loop]) (rule tail [OF that])
  show ?thesis
    unfolding paced_publishNamedObject_def Let_def
    by (intro calms_bind [OF calms_basic(3)] calms_bind [OF calms_basic(2)])
      (use small large [OF last] in simp_all)
qed

text \<open>The time line has one entry for each message that goes to the transport.\<close>

definition handed :: "paced \<Rightarrow> nat" where
  "handed p = length (filter (\<lambda>x. x = Handed) (timeline p))"

definition sent :: "paced \<Rightarrow> nat" where
  "sent p = length (events (p_client p))"

definition counts :: "'a paced_op \<Rightarrow> bool" where
  "counts m \<longleftrightarrow> (\<forall>p. handed (snd (m p)) + sent p = handed p + sent (snd (m p)))"

lemma counts_basic:
  "counts (op_return x)" "counts (op_lift r)" "counts (on_client (op_get f))" "counts (mark (Pause d))"
  "counts (op_then (mark Handed) (on_client (enqueue env ctx stream msg)))"
  by (simp_all add: counts_def op_run on_client_def mark_def enqueue_run op_then_simps handed_def sent_def)

lemma counts_bind:
  assumes "counts m" and "\<And>x. counts (f x)"
  shows "counts (op_bind m f)"
  unfolding counts_def
proof
  fix p
  obtain r q where m: "m p = (r, q)" by fastforce
  have "handed q + sent p = handed p + sent q" using assms(1) m by (auto simp: counts_def dest: spec [of _ p])
  moreover have "handed (snd (f x q)) + sent q = handed q + sent (snd (f x q))" for x
    using assms(2) by (simp add: counts_def)
  ultimately show "handed (snd (op_bind m f p)) + sent p = handed p + sent (snd (op_bind m f p))"
    by (cases r) (simp_all add: op_bind_def m, smt (verit) add.assoc add.commute add_right_cancel)
qed

lemma counts_then: "counts m \<Longrightarrow> counts n \<Longrightarrow> counts (op_then m n)"
  unfolding op_then_def by (rule counts_bind)

lemma counts_when: "counts m \<Longrightarrow> counts (op_when b m)"
  by (cases b) (simp_all add: counts_basic)

lemma counts_send: "counts pause \<Longrightarrow> counts (paced_send env pause stream header off d)"
  unfolding paced_send_def by (intro counts_bind counts_basic) (intro counts_then [of pause] counts_bind counts_basic)

lemma counts_loop: "counts (paced_loop need_pacing env stream header data remaining offset n)"
  by (induction n arbitrary: offset) (auto intro!: counts_basic counts_bind counts_send counts_then counts_when)

lemma counts_publish: "counts (paced_publishNamedObject need_pacing env name data)"
  unfolding paced_publishNamedObject_def Let_def
  by (auto intro!: counts_basic counts_bind counts_send counts_when counts_loop split: option.split)

definition paced_run :: "bool \<Rightarrow> client_env \<Rightarrow> Name \<Rightarrow> bytes \<Rightarrow> Client \<Rightarrow> unit res \<times> paced" where
  "paced_run need_pacing env name data c =
     paced_publishNamedObject need_pacing env name data \<lparr>p_client = c, timeline = []\<rparr>"

text \<open>C36. Pacing: publishing with its pauses has the same result and leaves the same client as publishing without
  them; every message handed to the transport is on the time line; and with pacing on, as the constructor
  sets it for plain UDP, no more than 30 messages of an object follow each other without a pause.\<close>

theorem publish_paced:
  "map_prod id p_client (paced_run need_pacing env name data c) = publishNamedObject env name data c \<and>
   length (events c) + handed (snd (paced_run need_pacing env name data c)) =
     length (events (snd (publishNamedObject env name data c))) \<and>
   burst_within 30 (timeline (snd (paced_run True env name data c))) \<noteq> None"
proof (intro conjI)
  let ?p = "\<lparr>p_client = c, timeline = []\<rparr>"
  have erased: "fst (paced_run need_pacing env name data c) = fst (publishNamedObject env name data c)"
    "p_client (snd (paced_run need_pacing env name data c)) = snd (publishNamedObject env name data c)"
    using erases_publish [of need_pacing env name data] by (simp_all add: erases_def paced_run_def)
  then show "map_prod id p_client (paced_run need_pacing env name data c) = publishNamedObject env name data c"
    by (simp add: prod_eq_iff)
  have "handed (snd (paced_run need_pacing env name data c)) + sent ?p = handed ?p + sent (snd (paced_run need_pacing env name data c))"
    using counts_publish unfolding counts_def paced_run_def by blast
  then show "length (events c) + handed (snd (paced_run need_pacing env name data c)) =
      length (events (snd (publishNamedObject env name data c)))"
    by (simp add: sent_def handed_def [of ?p] erased(2) add.commute)
  have "calm 0 ?p" by (simp add: calm_def burst_within_def)
  then have "calm 30 (snd (paced_run True env name data c))"
    using calms_publish unfolding calms_def paced_run_def by blast
  then show "burst_within 30 (timeline (snd (paced_run True env name data c))) \<noteq> None" by (auto simp: calm_def)
qed

text \<open>What the constructor returns: pacing exactly for UDP, and a client when the transport gets ready.\<close>

lemma QuicRClient_of_relay_outcome:
  assumes "status 0 \<noteq> TS_Connecting"
  shows "QuicRClient_of_relay relay_info status ctx stream =
    Some (if status 1 = TS_Ready then Inr (remote_proto (client_server relay_info) = TP_UDP, new_client ctx stream)
          else Inl runtime_error)"
  using assms by (simp add: QuicRClient_of_relay_def make_transport_def poll_status.simps client_server_def)

end
