(* ===== verification/Client_Mutex.thy ===== *)
theory Client_Mutex
  imports Client_Sessions
begin

text \<open>
  The mutex of \<^verbatim>\<open>QuicRClient\<close> (\<^verbatim>\<open>quicr_client.cpp\<close>): the methods that lock it, with delegates that may call the client
  again. It shows that the other theories may take these methods for critical sections, and
  which calls a delegate must not make.
\<close>

section \<open>The mutex\<close>

text \<open>The client with its mutex, as the thread that calls it sees it: locking a \<^verbatim>\<open>std::mutex\<close> that the
  thread already owns is undefined.\<close>

record locked =
  l_client :: Client
  l_held :: bool

type_synonym 'a locked_op = "(locked, 'a) op"

definition lock :: "unit locked_op" where
  "lock = op_bind (op_get l_held) (\<lambda>h. if h then op_lift (Inl undefined_behaviour) else op_modify (\<lambda>s. s\<lparr>l_held := True\<rparr>))"

text \<open>A block with a \<^verbatim>\<open>lock_guard\<close>: the mutex is released on every way out.\<close>

definition guarded :: "'a locked_op \<Rightarrow> 'a locked_op" where
  "guarded m = op_then lock (\<lambda>s. case m s of (r, t) \<Rightarrow> (r, t\<lparr>l_held := False\<rparr>))"

definition inside :: "'a client_op \<Rightarrow> 'a locked_op" where
  "inside m s = (case m (l_client s) of (r, c) \<Rightarrow> (r, s\<lparr>l_client := c\<rparr>))"

section \<open>The methods that lock\<close>

text \<open>\<open>again\<close> is what a delegate does when it is called: operations on the client again.\<close>

type_synonym reentry = "client_event \<Rightarrow> unit locked_op"

definition locked_callback :: "reentry \<Rightarrow> client_env \<Rightarrow> delegate \<Rightarrow> client_event \<Rightarrow> unit locked_op" where
  "locked_callback again env d ev = op_then (inside (callback env d ev)) (op_when (alive env d) (again ev))"

definition locked_subscribe ::
  "client_env \<Rightarrow> u64 \<Rightarrow> delegate \<Rightarrow> Namespace \<Rightarrow> SubscribeIntent \<Rightarrow> unit locked_op" where
  "locked_subscribe env tid d ns intent = guarded (inside (subscribe env tid d ns intent))"

definition locked_unsubscribe :: "client_env \<Rightarrow> Namespace \<Rightarrow> unit locked_op" where
  "locked_unsubscribe env ns = guarded (inside (unsubscribe env ns))"

definition locked_remove_one :: "reentry \<Rightarrow> client_env \<Rightarrow> Namespace \<Rightarrow> SubscribeStatus \<Rightarrow> unit locked_op" where
  "locked_remove_one again env ns reason = guarded (
     op_bind (op_get l_client) (\<lambda>c.
     op_then (op_when (map_has Namespace_lt ns (subscribe_state c))
       (inside (op_modify (\<lambda>c. c\<lparr>subscribe_state := map_erase Namespace_lt ns (subscribe_state c)\<rparr>)))) (
     case map_find Namespace_lt ns (sub_delegates c) of
       None \<Rightarrow> op_return ()
     | Some d \<Rightarrow>
         op_then (locked_callback again env d (OnSubscriptionEnded d ns reason))
           (inside (op_modify (\<lambda>c. c\<lparr>sub_delegates := map_erase Namespace_lt ns (sub_delegates c)\<rparr>))))))"

text \<open>For all namespaces, the keys are copied under the lock, which is released before the method calls
  itself for each of them.\<close>

definition locked_removeSubscribeState ::
  "reentry \<Rightarrow> client_env \<Rightarrow> bool \<Rightarrow> Namespace \<Rightarrow> SubscribeStatus \<Rightarrow> unit locked_op" where
  "locked_removeSubscribeState again env all ns reason =
     (if all then
        op_bind (guarded (inside (op_get (\<lambda>c. map fst (subscribe_state c))))) (\<lambda>namespaces_to_remove.
        op_for namespaces_to_remove (\<lambda>ns. locked_remove_one again env ns reason))
      else locked_remove_one again env ns reason)"

section \<open>Discipline\<close>

text \<open>\<open>critical m m'\<close>: on a free mutex, \<open>m\<close> is the critical section \<open>m'\<close> and leaves the mutex free.\<close>

definition critical :: "'a locked_op \<Rightarrow> 'a client_op \<Rightarrow> bool" where
  "critical m m' \<longleftrightarrow> (\<forall>c. m \<lparr>l_client = c, l_held = False\<rparr> = (case m' c of (r, d) \<Rightarrow> (r, \<lparr>l_client = d, l_held = False\<rparr>)))"

lemma inside_bind: "inside (op_bind m f) = op_bind (inside m) (\<lambda>x. inside (f x))"
  by (rule ext) (simp add: inside_def op_bind_def split: prod.split sum.split)

lemma inside_then: "inside (op_then m n) = op_then (inside m) (inside n)"
  by (simp add: op_then_def inside_bind)

lemma inside_basic: "inside (op_return x) = op_return x" "inside (op_get f) = op_bind (op_get l_client) (\<lambda>c. op_return (f c))"
  "inside (op_when b m) = op_when b (inside m)"
  by (rule ext, cases b, simp_all add: inside_def op_simps)+

lemma guarded_free: "guarded m \<lparr>l_client = c, l_held = False\<rparr> = (case m \<lparr>l_client = c, l_held = True\<rparr> of (r, s) \<Rightarrow> (r, s\<lparr>l_held := False\<rparr>))"
  by (simp add: guarded_def lock_def op_simps)

lemma guarded_held: "l_held s \<Longrightarrow> guarded m s = (Inl undefined_behaviour, s)"
  by (simp add: guarded_def lock_def op_then_def op_bind_def op_run)

lemma critical_guarded: "critical (guarded (inside m)) m"
  by (simp add: critical_def guarded_free inside_def split: prod.split)

lemma critical_bind: "critical m m' \<Longrightarrow> (\<And>x. critical (f x) (f' x)) \<Longrightarrow> critical (op_bind m f) (op_bind m' f')"
  unfolding critical_def op_bind_def by (auto split: prod.split sum.split)

lemma critical_for: "(\<And>x. critical (f x) (f' x)) \<Longrightarrow> critical (op_for xs f) (op_for xs f')"
  by (induction xs) (auto simp: critical_def op_run op_then_def intro!: critical_bind [unfolded critical_def, rule_format])

lemma locked_remove_quiet:
  "locked_remove_one (\<lambda>_. op_return ()) env ns reason = guarded (inside (removeSubscribeState_one env ns reason))"
proof -
  have cb: "locked_callback (\<lambda>_. op_return ()) env = (\<lambda>d ev. inside (callback env d ev))"
    by (intro ext) (simp add: locked_callback_def op_then_def op_bind_def op_when_def op_run inside_def split: prod.split sum.split)
  have "inside (removeSubscribeState_one env ns reason) =
    op_bind (op_get l_client) (\<lambda>c.
     op_then (op_when (map_has Namespace_lt ns (subscribe_state c))
       (inside (op_modify (\<lambda>c. c\<lparr>subscribe_state := map_erase Namespace_lt ns (subscribe_state c)\<rparr>)))) (
     case map_find Namespace_lt ns (sub_delegates c) of
       None \<Rightarrow> op_return ()
     | Some d \<Rightarrow>
         op_then (inside (callback env d (OnSubscriptionEnded d ns reason)))
           (inside (op_modify (\<lambda>c. c\<lparr>sub_delegates := map_erase Namespace_lt ns (sub_delegates c)\<rparr>)))))"
    by (rule ext) (simp add: removeSubscribeState_one_def inside_bind inside_then inside_basic op_simps split: option.split)
  then show ?thesis unfolding locked_remove_one_def cb by simp
qed

lemma critical_remove:
  "critical (locked_removeSubscribeState (\<lambda>_. op_return ()) env all ns reason) (removeSubscribeState env all ns reason)"
  unfolding locked_removeSubscribeState_def removeSubscribeState_def locked_remove_quiet
  by (auto intro!: critical_bind critical_for critical_guarded)

text \<open>A delegate that calls a locking method from \<^verbatim>\<open>onSubscriptionEnded\<close>.\<close>

lemma locked_remove_reentrant:
  assumes "map_find Namespace_lt ns (sub_delegates c) = Some d" and "alive env d"
    and "again (OnSubscriptionEnded d ns reason) = guarded m"
  shows "fst (locked_remove_one again env ns reason \<lparr>l_client = c, l_held = False\<rparr>) = Inl undefined_behaviour"
proof -
  have step: "op_then (op_when b (inside (op_modify f))) n s = n (if b then s\<lparr>l_client := f (l_client s)\<rparr> else s)" for b f n and s :: locked
    by (cases b) (simp_all add: op_then_def op_bind_def op_run inside_def)
  have "fst (op_then (locked_callback again env d (OnSubscriptionEnded d ns reason)) n s) = Inl undefined_behaviour" if "l_held s" for s and n :: "unit locked_op"
    using that assms(2,3)
    by (simp add: locked_callback_def op_then_def op_bind_def inside_def callback_run guarded_held)
  then show ?thesis
    unfolding locked_remove_one_def guarded_free
    by (simp add: op_bind_simps step assms(1) case_prod_beta)
qed

text \<open>C24. The mutex of the client. Called on a free mutex by delegates that do not call back, \<open>subscribe\<close>,
  \<open>unsubscribe\<close> and \<open>removeSubscribeState\<close> never lock twice, are the critical sections that the
  rest of the development works with, and leave the mutex free, also when they throw. But \<^verbatim>\<open>onSubscriptionEnded\<close> is called
  with the mutex held: a delegate that subscribes or unsubscribes in it locks the mutex its own thread
  owns, when a subscription is ended by the relay and when the connection is lost.\<close>

theorem client_mutex:
  "critical (locked_subscribe env tid d ns intent) (subscribe env tid d ns intent) \<and>
   critical (locked_unsubscribe env ns) (unsubscribe env ns) \<and>
   critical (locked_removeSubscribeState (\<lambda>_. op_return ()) env all ns reason) (removeSubscribeState env all ns reason) \<and>
   (map_find Namespace_lt ns (sub_delegates c) = Some d \<and> alive env d \<and>
    (all = False \<or> (\<exists>sctx rest. subscribe_state c = (ns, sctx) # rest)) \<longrightarrow>
    fst (locked_removeSubscribeState (\<lambda>_. locked_subscribe env' tid' d' ns' intent') env all ns reason
      \<lparr>l_client = c, l_held = False\<rparr>) = Inl undefined_behaviour \<and>
    fst (locked_removeSubscribeState (\<lambda>_. locked_unsubscribe env' ns') env all ns reason
      \<lparr>l_client = c, l_held = False\<rparr>) = Inl undefined_behaviour)"
proof (intro conjI impI)
  show "critical (locked_subscribe env tid d ns intent) (subscribe env tid d ns intent)"
    "critical (locked_unsubscribe env ns) (unsubscribe env ns)"
    by (simp_all add: locked_subscribe_def locked_unsubscribe_def critical_guarded)
  show "critical (locked_removeSubscribeState (\<lambda>_. op_return ()) env all ns reason) (removeSubscribeState env all ns reason)"
    by (rule critical_remove)
  assume asm: "map_find Namespace_lt ns (sub_delegates c) = Some d \<and> alive env d \<and>
    (all = False \<or> (\<exists>sctx rest. subscribe_state c = (ns, sctx) # rest))"
  have ub: "fst (locked_removeSubscribeState again env all ns reason \<lparr>l_client = c, l_held = False\<rparr>) = Inl undefined_behaviour"
    if "\<And>ev. again ev = guarded (inside m)" for again and m :: "unit client_op"
  proof -
    have one: "fst (locked_remove_one again env ns reason \<lparr>l_client = c, l_held = False\<rparr>) = Inl undefined_behaviour"
      by (rule locked_remove_reentrant [OF _ _ that]) (use asm in blast)+
    show ?thesis
    proof (cases all)
      case True
      with asm obtain sctx rest where "subscribe_state c = (ns, sctx) # rest" by blast
      with one show ?thesis
        by (auto simp: True locked_removeSubscribeState_def op_bind_def op_then_def guarded_free inside_def op_run split: prod.split sum.split)
    qed (simp add: locked_removeSubscribeState_def one)
  qed
  show "fst (locked_removeSubscribeState (\<lambda>_. locked_subscribe env' tid' d' ns' intent') env all ns reason
      \<lparr>l_client = c, l_held = False\<rparr>) = Inl undefined_behaviour"
    "fst (locked_removeSubscribeState (\<lambda>_. locked_unsubscribe env' ns') env all ns reason
      \<lparr>l_client = c, l_held = False\<rparr>) = Inl undefined_behaviour"
    by (rule ub, simp add: locked_subscribe_def locked_unsubscribe_def)+
qed

theorem client_mutex_witness:
  "fst (locked_removeSubscribeState (\<lambda>_. locked_subscribe sample_env 1 3 sample_ns immediate) sample_env True sample_ns
     Status_ConnectionClosed \<lparr>l_client = subscribed_client, l_held = False\<rparr>) = Inl undefined_behaviour \<and>
   fst (removeSubscribeState sample_env True sample_ns Status_ConnectionClosed subscribed_client) = Inr ()"
  using client_mutex [of sample_env 1 3 sample_ns immediate True Status_ConnectionClosed subscribed_client]
    removeSubscribeState_one_run
  by (simp add: removeSubscribeState_def subscribed_client_def sample_env_def ns_order.irrefl op_simps)

end
