(* ===== verification/Cpp_Strings.thy ===== *)
theory Cpp_Strings
  imports Std_Map
begin

text \<open>
  What the command-line programs use of \<^verbatim>\<open>std::string\<close> and of the C library's conversions: strings as map
  keys, the characters of a string as bytes and back, the number at the start of a string, as
  \<^verbatim>\<open>atoi\<close> and \<^verbatim>\<open>std::stoi\<close> read it, and the digits a stream prints.
\<close>

section \<open>Strings as keys\<close>

text \<open>The order of \<^verbatim>\<open>std::string\<close>: lexicographic on the characters as bytes.\<close>

fun string_lt :: "string \<Rightarrow> string \<Rightarrow> bool" where
  "string_lt _ [] = False"
| "string_lt [] (b # bs) = True"
| "string_lt (a # as) (b # bs) = ((of_char a :: nat) < of_char b \<or> a = b \<and> string_lt as bs)"

lemma string_lt_irrefl: "\<not> string_lt s s"
  by (induction s) simp_all

lemma string_lt_trans: "string_lt a b \<Longrightarrow> string_lt b c \<Longrightarrow> string_lt a c"
  by (induction a b arbitrary: c rule: string_lt.induct; case_tac c) auto

lemma string_lt_total: "string_lt a b \<or> a = b \<or> string_lt b a"
proof (induction a b rule: string_lt.induct)
  case (1 s)
  then show ?case by (cases s) simp_all
next
  case (3 a as b bs)
  have "(of_char a :: nat) = of_char b \<longleftrightarrow> a = b" by simp
  with 3 show ?case by (auto simp del: of_char_eq_iff)
qed simp

interpretation string_order: strict_total_order string_lt
  by unfold_locales (use string_lt_irrefl string_lt_trans string_lt_total in blast)+

section \<open>Characters as bytes\<close>

definition string_bytes :: "string \<Rightarrow> bytes" where
  "string_bytes s = map (\<lambda>c. of_nat (of_char c)) s"

definition bytes_string :: "bytes \<Rightarrow> string" where
  "bytes_string data = map (\<lambda>b. char_of (unat b)) data"

lemma unat_char_byte [simp]: "unat (of_nat (of_char c) :: u8) = of_char c"
  by (simp add: unat_of_nat_word)

lemma bytes_string_of_string_bytes [simp]: "bytes_string (string_bytes s) = s"
  by (simp add: bytes_string_def string_bytes_def comp_def)

lemma string_bytes_of_bytes_string [simp]: "string_bytes (bytes_string b) = b"
proof -
  have "of_nat (of_char (char_of (unat w) :: char)) = w" for w :: u8
    using unsigned_less [where ?'a = nat, of w] by simp
  then show ?thesis by (simp add: bytes_string_def string_bytes_def comp_def map_idI)
qed

lemma string_bytes_eq_iff [simp]: "string_bytes s = string_bytes t \<longleftrightarrow> s = t"
  using bytes_string_of_string_bytes by metis

lemma string_bytes_eq_Nil [simp]: "string_bytes s = [] \<longleftrightarrow> s = []"
  by (simp add: string_bytes_def)

section \<open>Numbers at the start of a string\<close>

text \<open>\<^verbatim>\<open>strtol\<close> in base 10: white space, a sign, digits up to the first character that is none. \<open>None\<close> stands for
  a string without digits at that place.\<close>

definition is_digit :: "char \<Rightarrow> bool" where
  "is_digit c \<longleftrightarrow> (of_char c :: nat) \<in> {48..57}"

definition digits_value :: "string \<Rightarrow> int option" where
  "digits_value s =
     (case takeWhile is_digit s of
        [] \<Rightarrow> None
      | ds \<Rightarrow> Some (foldl (\<lambda>acc c. 10 * acc + (of_char c - 48)) 0 ds))"

definition c_integer :: "string \<Rightarrow> int option" where
  "c_integer str =
     (let s = dropWhile (\<lambda>c. (of_char c :: nat) \<in> {32, 9, 10, 11, 12, 13}) str in
      case s of
        c # cs \<Rightarrow> if of_char c = (45 :: nat) then map_option uminus (digits_value cs)
                  else if of_char c = (43 :: nat) then digits_value cs else digits_value s
      | [] \<Rightarrow> None)"

definition is_int32 :: "int \<Rightarrow> bool" where
  "is_int32 v \<longleftrightarrow> - (2 ^ 31) \<le> v \<and> v < 2 ^ 31"

text \<open>\<^verbatim>\<open>atoi\<close>: no digits give 0 and a value that is not an \<^verbatim>\<open>int\<close> is undefined.\<close>

definition atoi :: "string \<Rightarrow> int res" where
  "atoi str =
     (let v = (case c_integer str of None \<Rightarrow> 0 | Some v \<Rightarrow> v) in
      if is_int32 v then Inr v else Inl undefined_behaviour)"

text \<open>\<^verbatim>\<open>std::stoi\<close>: no digits and a value that is not an \<^verbatim>\<open>int\<close> are exceptions.\<close>

datatype stoi_error = invalid_argument | stoi_out_of_range

definition stoi :: "string \<Rightarrow> stoi_error + int" where
  "stoi str =
     (case c_integer str of
        None \<Rightarrow> Inl invalid_argument
      | Some v \<Rightarrow> if is_int32 v then Inr v else Inl stoi_out_of_range)"

section \<open>Printed numbers\<close>

text \<open>Decimal digits, as a stream prints a number.\<close>

fun dec_string :: "nat \<Rightarrow> string" where
  "dec_string n = (if n < 10 then [char_of (48 + n)] else dec_string (n div 10) @ [char_of (48 + n mod 10)])"

declare dec_string.simps [simp del]

lemma dec_string_small: "n < 10 \<Longrightarrow> dec_string n = [char_of (48 + n)]"
  by (simp add: dec_string.simps)

lemma length_dec_string: "length (dec_string n) \<le> Suc k \<longleftrightarrow> n < 10 ^ Suc k"
proof (induction k arbitrary: n)
  case 0
  show ?case by (cases "n < 10") (auto simp: dec_string.simps [of n] dec_string.simps [of "n div 10"])
next
  case (Suc k)
  show ?case
  proof (cases "n < 10")
    case True
    then show ?thesis using less_le_trans [of n 10 "10 ^ Suc (Suc k)"] by (simp add: dec_string_small)
  next
    case False
    then have "length (dec_string n) \<le> Suc (Suc k) \<longleftrightarrow> length (dec_string (n div 10)) \<le> Suc k"
      by (simp add: dec_string.simps [of n])
    also have "\<dots> \<longleftrightarrow> n < 10 ^ Suc (Suc k)" by (simp add: Suc div_less_iff_less_mult mult.commute)
    finally show ?thesis .
  qed
qed

lemma dec_string_digits: "list_all is_digit (dec_string n)"
proof (induction n rule: dec_string.induct)
  case (1 n)
  have "is_digit (char_of (48 + n mod 10))" by (simp add: is_digit_def)
  with 1 show ?case by (simp add: dec_string.simps [of n]) (simp add: is_digit_def)
qed

lemma dec_string_not_Nil: "dec_string n \<noteq> []"
  by (simp add: dec_string.simps [of n])

lemma digit_value: "k < 10 \<Longrightarrow> (of_char (char_of (48 + k) :: char) :: int) = 48 + int k" for k :: nat
  using of_nat_of_char [of "char_of (48 + k)", where ?'a = int, symmetric] by simp

lemma dec_string_value: "foldl (\<lambda>acc c. 10 * acc + (of_char c - 48)) 0 (dec_string n) = int n"
proof (induction n rule: dec_string.induct)
  case (1 n)
  show ?case
  proof (cases "n < 10")
    case False
    have "10 * (n div 10) + n mod 10 = n" by simp
    then have "10 * int (n div 10) + int (n mod 10) = int n" by (metis of_nat_add of_nat_mult of_nat_numeral)
    with 1 False show ?thesis by (simp add: dec_string.simps [of n] digit_value)
  qed (simp add: dec_string_small digit_value)
qed

text \<open>Reading a printed number gives it back.\<close>

lemma atoi_dec_string:
  assumes "n < 2 ^ 31"
  shows "atoi (dec_string n) = Inr (int n)"
proof -
  have run: "takeWhile is_digit (dec_string n) = dec_string n"
    using dec_string_digits [of n] by (simp add: takeWhile_eq_all_conv list_all_iff)
  obtain c cs where cs: "dec_string n = c # cs" using dec_string_not_Nil [of n] by (cases "dec_string n") auto
  have v: "digits_value (c # cs) = Some (int n)"
    using dec_string_value [of n] run by (simp only: digits_value_def cs list.case)
  have "is_digit c" using dec_string_digits [of n] by (simp add: cs)
  with v have "c_integer (dec_string n) = Some (int n)" by (simp add: c_integer_def cs is_digit_def)
  with assms show ?thesis by (simp add: atoi_def is_int32_def)
qed

end
