(* ===== verification/Unit_Tests.thy ===== *)
theory Unit_Tests
  imports Delivery Cpp_Strings
begin

text \<open>
  The test cases of the repository, run on the model: those of \<^verbatim>\<open>test/name.cpp\<close>, \<^verbatim>\<open>test/namespace.cpp\<close>,
  \<^verbatim>\<open>test/encode.cpp\<close> and \<^verbatim>\<open>test/quicr_client.cpp\<close>, each a definition with the checks of the test case and a lemma
  that they hold. Checks of type traits have no counterpart; the cases of \<^verbatim>\<open>test/hex_endec.cpp\<close> are instances of
  \<open>HexEndec_roundtrip\<close>, and that of \<^verbatim>\<open>test/quicr_server.cpp\<close> only constructs a server.
\<close>

section \<open>Names\<close>

text \<open>The literal \<^verbatim>\<open>0x42_name\<close>; in the tests one that does not throw.\<close>

definition name_literal :: "string \<Rightarrow> Name res" where
  "name_literal x = Name_of_hex x"

definition lit :: "string \<Rightarrow> Name" where
  "lit x = (case name_literal x of Inr n \<Rightarrow> n | Inl _ \<Rightarrow> zero_name)"

definition test_name_constructor :: bool where
  "test_name_constructor \<longleftrightarrow>
     Name_eq (lit ''0x42'') (lit ''0x42'') \<and>
     Name_lt (lit ''0x123'') (lit ''0x124'') \<and> Name_gt (lit ''0x123'') (lit ''0x122'') \<and> Name_neq (lit ''0x123'') (lit ''0x122'') \<and>
     Name_gt (lit ''0x20000000000000001'') (lit ''0x10000000000000002'') \<and>
     Name_lt (lit ''0x10000000000000002'') (lit ''0x20000000000000001'') \<and>
     \<not> isl (name_literal ''0xFFFFFFFFFFFFFFFFFFFFFFFFFFFFFFFF'') \<and> isl (name_literal ''0xFFFFFFFFFFFFFFFFFFFFFFFFFFFFFFFF0'')"

definition test_name_to_hex :: bool where
  "test_name_to_hex \<longleftrightarrow>
     Name_to_hex (lit ''0xFFFFFFFFFFFFFFFFFFFFFFFFFFFFFFFF'') = ''0xFFFFFFFFFFFFFFFFFFFFFFFFFFFFFFFF'' \<and>
     Name_to_hex (lit ''0xFFFFFFFFFFFFFFFF0000000000000000'') = ''0xFFFFFFFFFFFFFFFF0000000000000000'' \<and>
     (let long_hex = ''0x0000000000000000FFFFFFFFFFFFFFFF''; long_name = lit long_hex;
          short_hex = ''0xFFFFFFFFFFFFFFFF''; not_short_name = lit short_hex in
      Name_to_hex long_name = long_hex \<and> Name_to_hex not_short_name \<noteq> short_hex \<and>
      Name_to_hex long_name = Name_to_hex not_short_name \<and> Name_eq long_name not_short_name)"

fun shift_times :: "nat \<Rightarrow> (Name \<Rightarrow> Name res) \<Rightarrow> Name \<Rightarrow> Name res" where
  "shift_times 0 f n = Inr n"
| "shift_times (Suc i) f n = (case f n of Inl e \<Rightarrow> Inl e | Inr m \<Rightarrow> shift_times i f m)"

definition test_name_shifts :: bool where
  "test_name_shifts \<longleftrightarrow>
     Name_shr (lit ''0x1234'') 4 = Inr (lit ''0x123'') \<and> Name_shl (lit ''0x1234'') 4 = Inr (lit ''0x12340'') \<and>
     Name_shr (lit ''0x123456789abcdeff00000000'') 32 = Inr (lit ''0x123456789abcdeff'') \<and>
     Name_shl (lit ''0x123456789abcdeff'') 32 = Inr (lit ''0x123456789abcdeff00000000'') \<and>
     Name_shr (lit ''0x123456789abcdeff123456789abcdeff'') 64 = Inr (lit ''0x123456789abcdeff'') \<and>
     Name_shr (lit ''0x123456789abcdeff123456789abcdeff'') 72 = Inr (lit ''0x123456789abcde'') \<and>
     Name_shr (lit ''0x123456789abcdeff'') 8 = Inr (lit ''0x123456789abcde'') \<and>
     Name_shl (lit ''0x123456789abcdeff'') 64 = Inr (lit ''0x123456789abcdeff0000000000000000'') \<and>
     Name_shl (lit ''0x123456789abcdeff'') 72 = Inr (lit ''0x3456789abcdeff000000000000000000'') \<and>
     Name_shl (lit ''0x123456789abcdeff0000000000000000'') 8 = Inr (lit ''0x3456789abcdeff000000000000000000'') \<and>
     shift_times 64 (\<lambda>n. Name_shl_assign n 1) (lit ''0x00000000000000000000000000000001'') =
       Inr (lit ''0x00000000000000010000000000000000'') \<and>
     shift_times 64 (\<lambda>n. Name_shr_assign n 1) (lit ''0x00000000000000010000000000000000'') =
       Inr (lit ''0x00000000000000000000000000000001'')"

definition test_name_arithmetic :: bool where
  "test_name_arithmetic \<longleftrightarrow>
     (let val41 = lit ''0x41''; val42 = lit ''0x42''; val43 = lit ''0x43'' in
      Name_add val42 1 = val43 \<and> Name_sub val42 1 = val41 \<and>
      Name_add (lit ''0x00000000000000010000000000000000'') 1 = lit ''0x00000000000000010000000000000001'' \<and>
      Name_add (lit ''0x0FFFFFFFFFFFFFFFFFFFFFFFFFFFFFFF'') 1 = lit ''0x10000000000000000000000000000000'' \<and>
      Name_add (lit ''0x0000000000000000FFFFFFFFFFFFFFFF'') 0xFFFFFFFF = lit ''0x000000000000000100000000FFFFFFFE'' \<and>
      Name_sub (lit ''0x00000000000000010000000000000000'') 1 = lit ''0x0000000000000000FFFFFFFFFFFFFFFF'' \<and>
      Name_sub (lit ''0x0FFFFFFFFFFFFFFFFFFFFFFFFFFFFFFF'') 1 = lit ''0x0FFFFFFFFFFFFFFFFFFFFFFFFFFFFFFE'' \<and>
      Name_sub (lit ''0x0000000000000000FFFFFFFFFFFFFFFF'') 0xFFFFFFFFFFFFFFFF = lit ''0x00000000000000000000000000000000'' \<and>
      Name_sub (lit ''0x00000000000000010000000000000000'') 2 = lit ''0x0000000000000000FFFFFFFFFFFFFFFE'' \<and>
      (case Name_post_inc val42 of (r, c) \<Rightarrow> Name_neq r val43 \<and> Name_eq c val43 \<and>
      (case Name_post_dec c of (r, c) \<Rightarrow> Name_neq r val42 \<and> Name_eq c val42 \<and>
      (case Name_pre_inc c of (r, c) \<Rightarrow> Name_eq r val43 \<and>
      (case Name_pre_dec c of (r, c) \<Rightarrow> Name_eq r val42)))))"

definition test_name_bits :: bool where
  "test_name_bits \<longleftrightarrow>
     Name_neq (Name_not (lit ''0x0'')) (lit ''0x0'') \<and> Name_not (lit ''0x0'') = lit ''0xFFFFFFFFFFFFFFFFFFFFFFFFFFFFFFFF'' \<and>
     Name_and (lit ''0x01010101010101010101010101010101'') (lit ''0x10101010101010101010101010101010'') = lit ''0x0'' \<and>
     Name_and_u64 (lit ''0x0101010101010101'') 0x1010101010101010 = lit ''0x0'' \<and>
     Name_or (lit ''0x01010101010101010101010101010101'') (lit ''0x10101010101010101010101010101010'') =
       lit ''0x11111111111111111111111111111111'' \<and>
     Name_or_u64 (lit ''0x0101010101010101'') 0x1010101010101010 = lit ''0x1111111111111111''"

definition test_byte_arr :: bytes where
  "test_byte_arr = replicate 8 0 @ map (\<lambda>i. ucast (drop_bit (8 * i) (0x1000000000000000 :: u64))) [0..<8]"

definition test_name_bytes :: bool where
  "test_name_bytes \<longleftrightarrow> length test_byte_arr = 16 \<and>
     Name_of_vector test_byte_arr = Inr (lit ''0x10000000000000000000000000000000'') \<and>
     Name_of_ptr test_byte_arr 16 = Inr (lit ''0x10000000000000000000000000000000'')"

lemma name_constructor_test: "test_name_constructor"
  by code_simp

lemma name_to_hex_test: "test_name_to_hex"
  by code_simp

lemma name_shifts_test: "test_name_shifts"
  by code_simp

lemma name_arithmetic_test: "test_name_arithmetic"
  by code_simp

lemma name_bits_test: "test_name_bits"
  by code_simp

lemma name_bytes_test: "test_name_bytes"
  by code_simp

section \<open>Namespaces\<close>

definition ns_lit :: "string \<Rightarrow> u8 \<Rightarrow> Namespace" where
  "ns_lit x bits = (case mk_Namespace (lit x) bits of Inr ns \<Rightarrow> ns | Inl _ \<Rightarrow> empty_Namespace)"

definition test_namespace_names :: bool where
  "test_namespace_names \<longleftrightarrow>
     (let base_namespace = ns_lit ''0x11111111111111112222222222222200'' 120 in
      contains base_namespace (lit ''0x111111111111111122222222222222FF'') = Inr True \<and>
      contains base_namespace (lit ''0x11111111111111112222222222222211'') = Inr True \<and>
      contains base_namespace (lit ''0x11111111111111112222222222222300'') = Inr False)"

definition test_namespace_namespaces :: bool where
  "test_namespace_namespaces \<longleftrightarrow>
     (let base_namespace = ns_lit ''0x11111111111111112222222222220000'' 112 in
      contains_ns base_namespace (ns_lit ''0x11111111111111112222222222222200'' 120) = Inr True \<and>
      contains_ns base_namespace (ns_lit ''0x11111111111111112222222222000000'' 104) = Inr False)"

lemma namespace_names_test: "test_namespace_names"
  by code_simp

lemma namespace_namespaces_test: "test_namespace_namespaces"
  by code_simp

section \<open>Messages\<close>

definition test_ns :: Namespace where
  "test_ns = ns_lit ''0x10000000000000002000'' 125"

definition test_message :: "(bytes \<Rightarrow> 'a \<Rightarrow> bytes res) \<Rightarrow> 'a decoder \<Rightarrow> 'a \<Rightarrow> bool" where
  "test_message put get m \<longleftrightarrow> rbind (put [] m) get = Inr (m, [])"

definition test_decode_exception :: bool where
  "test_decode_exception \<longleftrightarrow> isl (rbind (put_u8 [] 255) get_u64)"

definition test_subscribe_messages :: bool where
  "test_subscribe_messages \<longleftrightarrow>
     test_message put_Subscribe (get_Subscribe 1)
       \<lparr>s_version = 1, s_transaction_id = 0x1000, s_namespace = test_ns, s_intent = immediate\<rparr> \<and>
     test_message put_SubscribeResponse get_SubscribeResponse
       \<lparr>sr_namespace = test_ns, sr_response = Status_Ok, sr_transaction_id = 0x1000\<rparr> \<and>
     test_message put_SubscribeEnd get_SubscribeEnd \<lparr>se_namespace = test_ns, se_reason = Status_Ok\<rparr> \<and>
     test_message put_Unsubscribe (get_Unsubscribe 0) \<lparr>u_version = 0, u_namespace = test_ns\<rparr>"

definition test_publish_messages :: bool where
  "test_publish_messages \<longleftrightarrow>
     test_message put_PublishIntent get_PublishIntent
       \<lparr>pi_message_type = MT_Publish, pi_transaction_id = 0x1000, pi_namespace = test_ns, pi_payload = [0, 1, 2, 3, 4],
        pi_media_id = 0x0100, pi_datagram_capable = 0\<rparr> \<and>
     test_message put_PublishIntentResponse get_PublishIntentResponse
       \<lparr>pir_message_type = MT_Publish, pir_namespace = empty_Namespace, pir_response = Response_Ok, pir_transaction_id = 0x1000\<rparr> \<and>
     test_message put_PublishDatagram get_PublishDatagram
       \<lparr>pd_header = \<lparr>h_media_id = 0x1000, h_name = lit ''0x10000000000000002000'', h_group_id = 0x0100, h_object_id = 0x0010,
          h_offset_and_fin = 0x0001, h_flags = 0\<rparr>,
        pd_media_type = Text, pd_media_data_length = 256, pd_media_data = map of_nat [0..<256]\<rparr> \<and>
     test_message put_PublishStream get_PublishStream \<lparr>ps_media_data_length = 5, ps_media_data = [0, 1, 2, 3, 4]\<rparr> \<and>
     test_message put_PublishIntentEnd get_PublishIntentEnd
       \<lparr>pie_message_type = MT_Publish, pie_namespace = ns_lit ''12345'' 0, pie_payload = [0, 1, 2, 3, 4]\<rparr>"

definition test_varints :: bool where
  "test_varints \<longleftrightarrow> list_all (\<lambda>v. case rbind (put_uintVar [] v) get_uintVar of Inr (out, _) \<Rightarrow> out \<noteq> 0 | Inl _ \<Rightarrow> False)
     [128, 16384, 536870912]"

lemma empty_Namespace_wf: "ns_wf empty_Namespace"
  by code_simp

lemma ns_lit_wf: "ns_wf (ns_lit x bits)"
  using mk_Namespace_wf [of "lit x" bits] by (simp add: ns_lit_def empty_Namespace_wf split: sum.split)

lemmas test_named = intent.named_def status.named_def response.named_def message_type.named_def media_type.named_def
  SubscribeIntent_cast_def SubscribeStatus_cast_def Response_cast_def MessageType_cast_def MediaType_cast_def

lemma decode_exception_test: "test_decode_exception"
  by code_simp

lemma subscribe_messages_test: "test_subscribe_messages"
  unfolding test_subscribe_messages_def test_message_def test_ns_def
  by (intro conjI subscribe.put_get subscribe_response.put_get subscribe_end.put_get unsubscribe.put_get)
    (simp_all add: Subscribe_ok_def SubscribeResponse_ok_def SubscribeEnd_ok_def Unsubscribe_ok_def ns_lit_wf test_named)

lemma publish_messages_test: "test_publish_messages"
  unfolding test_publish_messages_def test_message_def test_ns_def
  by (intro conjI publish_intent.put_get publish_intent_response.put_get publish_datagram.put_get publish_stream.put_get
      publish_intent_end.put_get)
    (simp_all add: PublishIntent_ok_def PublishIntentResponse_ok_def PublishDatagram_ok_def PublishStream_ok_def
      PublishIntentEnd_ok_def Header_ok_def ns_lit_wf empty_Namespace_wf test_named vec_ok_def uintVar_ok_def)

lemma varints_test: "test_varints"
  by code_simp

section \<open>The client\<close>

text \<open>\<^verbatim>\<open>FakeTransport\<close> accepts every message and keeps the last one; the delegates of the tests are null pointers.\<close>

definition FakeTransport :: client_env where
  "FakeTransport = \<lparr>accepts = (\<lambda>_ _ _ _. True), alive = (\<lambda>_. False), leaves = (\<lambda>_ b. b)\<rparr>"

fun stored_data :: "client_event list \<Rightarrow> bytes" where
  "stored_data es = (case rev es of Enqueue _ _ data # _ \<Rightarrow> data | _ \<Rightarrow> [])"

definition test_client_subscribe :: "TransportContextId \<Rightarrow> u64 \<Rightarrow> bool" where
  "test_client_subscribe indeterminate tid \<longleftrightarrow>
     (case subscribe FakeTransport tid 0 test_ns wait_up (QuicRClient_of_transport indeterminate) of
        (Inr _, c) \<Rightarrow> get_Subscribe 1 (stored_data (events c)) =
          Inr (\<lparr>s_version = 1, s_transaction_id = tid, s_namespace = test_ns, s_intent = wait_up\<rparr>, [])
      | (Inl _, _) \<Rightarrow> False)"

definition test_client_publish :: "TransportContextId \<Rightarrow> bool" where
  "test_client_publish indeterminate \<longleftrightarrow>
     (case publishNamedObject FakeTransport (lit ''0x10000000000000002000'') (string_bytes ''HELL0'') (QuicRClient_of_transport indeterminate) of
        (Inr _, c) \<Rightarrow> (case get_PublishDatagram (stored_data (events c)) of
           Inr (d, _) \<Rightarrow> pd_media_data d = string_bytes ''HELL0'' | Inl _ \<Rightarrow> False)
      | (Inl _, _) \<Rightarrow> False)"

lemma client_subscribe_test: "test_client_subscribe indeterminate tid"
proof -
  have wf: "ns_wf test_ns" by (simp add: test_ns_def ns_lit_wf)
  have intent: "SubscribeIntent_cast (SubscribeIntent_code wait_up) = wait_up" by code_simp
  show ?thesis
    using subscribe_run [OF new_client_inv wf intent, of FakeTransport tid 0 indeterminate 0]
      subscribe.get_enc [of 1 "\<lparr>s_version = 1, s_transaction_id = tid, s_namespace = test_ns, s_intent = wait_up\<rparr>" "[]"] wf intent
    by (simp add: test_client_subscribe_def QuicRClient_of_transport_def new_client_def Subscribe_ok_def intent.named_def)
qed

lemma client_publish_test: "test_client_publish indeterminate"
proof -
  let ?name = "lit ''0x10000000000000002000''" and ?data = "string_bytes ''HELL0''"
  have len: "length ?data = 5" by (simp add: string_bytes_def)
  then have od: "object_datagrams 0 ?name ?data = [object_datagram 0 ?name 1 ?data]"
    by (simp add: object_datagrams_def frag_count_def frag_offset_def frag_bytes_def MAX_TRANSPORT_DATA_SIZE_def)
  have "PublishDatagram_ok (object_datagram 0 ?name 1 ?data)"
    using object_datagrams_ok [of 0 ?data ?name] by (simp add: od len)
  from publish_datagram.get_enc [OF this, of "[]"]
  have get: "get_PublishDatagram (enc_PublishDatagram (object_datagram 0 ?name 1 ?data)) = Inr (object_datagram 0 ?name 1 ?data, [])"
    by simp
  let ?c = "new_client indeterminate 0"
  have fields: "transport_stream_id ?c = 0" "publish_state ?c = []" "events ?c = []" by (simp_all add: new_client_def)
  have "publishNamedObject FakeTransport ?name ?data ?c =
      (Inr (), ?c\<lparr>events := [Enqueue (transport_context_id ?c) 0 (enc_PublishDatagram (object_datagram 0 ?name 1 ?data))]\<rparr>)"
    by (subst publishNamedObject_run) (simp_all add: fields len od FakeTransport_def)
  with get show ?thesis by (simp add: test_client_publish_def QuicRClient_of_transport_def) (simp add: object_datagram_def)
qed

end
