(* ===== verification/Really_Main.thy ===== *)
theory Really_Main
  imports Really
begin

text \<open>
  The process around the relay (\<^verbatim>\<open>cmd/really/really.cpp\<close>): the variables of \<^verbatim>\<open>namespace really\<close>,
  \<^verbatim>\<open>signalHandler\<close>, \<^verbatim>\<open>installSignalHandlers\<close> and \<^verbatim>\<open>main\<close>, with the address the relay opens
  (\<^verbatim>\<open>ReallyServer\<close> and the first constructor of \<^verbatim>\<open>QuicRServer\<close>).

  \<^verbatim>\<open>main\<close> and every running signal handler are threads of control that interleave; the step relation has a
  program counter for each, the mutex with its owner and the waiting state of the condition variable.
  A handler runs on top of the thread it interrupts. What the server does meanwhile is the subject of
  \<^verbatim>\<open>Quicr_Server\<close> and \<^verbatim>\<open>Really\<close> and does not touch these variables.
\<close>

section \<open>The relay's address\<close>

text \<open>The remote that the constructor of \<^verbatim>\<open>QuicRServer\<close> hands to the transport.\<close>

definition server_t_relay :: "RelayInfo \<Rightarrow> TransportRemote" where
  "server_t_relay relayInfo =
     \<lparr>host_or_ip = hostname relayInfo, remote_port = port relayInfo,
      remote_proto = (case proto relayInfo of UDP \<Rightarrow> TP_UDP | _ \<Rightarrow> TP_QUIC)\<rparr>"

definition ReallyServer_relayInfo :: RelayInfo where
  "ReallyServer_relayInfo = \<lparr>hostname = ''127.0.0.1'', port = 1234, proto = QUIC\<rparr>"

section \<open>The process\<close>

text \<open>A thread of the process: the one that runs \<^verbatim>\<open>main\<close>, or one of the transport's. A signal is
  handled on any of them.\<close>

datatype thread = Main_thread | Transport_thread nat

text \<open>Where \<^verbatim>\<open>main\<close> is: before the lock, in the constructor of the relay, polling in \<^verbatim>\<open>run()\<close>,
  evaluating the predicate of \<^verbatim>\<open>cv.wait\<close>, waiting, taking the lock again after the wait, and on its way out.\<close>

datatype main_pc =
    M_Start | M_Install | M_Construct | M_Run nat | M_Check | M_Waiting | M_Reacquire | M_Unlock | M_Reset
  | M_Failed | M_Exit int | M_Undefined

text \<open>Where a run of \<^verbatim>\<open>signalHandler\<close> is: before the lock, holding it, after setting the flag, leaving.\<close>

datatype handler_pc = H_Enter int | H_Locked int | H_Set | H_Leave

record process =
  main_mutex :: "thread option"
  terminate :: bool
  termination_reason :: "string option"
  woken :: bool
  pc :: main_pc
  handlers :: "(thread \<times> handler_pc) list"

definition EXIT_SUCCESS :: int where "EXIT_SUCCESS = 0"

definition EXIT_FAILURE :: int where "EXIT_FAILURE = 1"

definition SIGHUP :: int where "SIGHUP = 1"

definition SIGINT :: int where "SIGINT = 2"

definition SIGQUIT :: int where "SIGQUIT = 3"

definition process_start :: process where
  "process_start = \<lparr>main_mutex = None, terminate = False, termination_reason = None, woken = False,
     pc = M_Start, handlers = []\<rparr>"

definition reason_of :: "int \<Rightarrow> string" where
  "reason_of signal_number =
     (if signal_number = SIGINT then ''Interrupt signal received''
      else if signal_number = SIGHUP then ''Hangup signal received''
      else if signal_number = SIGQUIT then ''Quit signal received''
      else ''Unknown signal received'')"

text \<open>The signals \<^verbatim>\<open>installSignalHandlers\<close> installs the handler for.\<close>

definition caught_signal :: "int \<Rightarrow> bool" where
  "caught_signal n \<longleftrightarrow> n = SIGHUP \<or> n = SIGINT \<or> n = SIGQUIT"

text \<open>One step of \<^verbatim>\<open>signalHandler\<close> on thread \<open>t\<close>; nothing when it has to wait for the mutex. Locking a mutex
  the thread owns already is undefined. \<^verbatim>\<open>notify_one\<close> wakes \<^verbatim>\<open>main\<close> when it waits and is lost otherwise; the
  lock is released when the handler returns.\<close>

fun signalHandler :: "thread \<Rightarrow> handler_pc \<Rightarrow> process \<Rightarrow> (handler_pc option \<times> process) option" where
  "signalHandler t (H_Enter n) p =
     (if main_mutex p = None then Some (Some (H_Locked n), p\<lparr>main_mutex := Some t\<rparr>)
      else if main_mutex p = Some t then Some (None, p\<lparr>pc := M_Undefined\<rparr>)
      else None)"
| "signalHandler t (H_Locked n) p =
     (if terminate p then Some (Some H_Leave, p)
      else Some (Some H_Set, p\<lparr>terminate := True, termination_reason := Some (reason_of n)\<rparr>))"
| "signalHandler t H_Set p = Some (Some H_Leave, if pc p = M_Waiting then p\<lparr>woken := True\<rparr> else p)"
| "signalHandler t H_Leave p = Some (None, p\<lparr>main_mutex := None\<rparr>)"

text \<open>One step of \<^verbatim>\<open>main\<close>. \<open>construct\<close> is how the constructor of the relay ends, \<open>status i\<close> what the \<open>i\<close>-th poll
  of the transport in \<^verbatim>\<open>run()\<close> returns. \<^verbatim>\<open>cv.wait(lock, pred)\<close> is the loop that waits while the predicate is
  false: waiting releases the mutex, and a wait that is over takes it again.\<close>

definition main_step :: "unit res \<Rightarrow> (nat \<Rightarrow> TransportStatus) \<Rightarrow> process \<Rightarrow> process option" where
  "main_step construct status p =
     (case pc p of
        M_Start \<Rightarrow> Some (p\<lparr>pc := M_Install\<rparr>)
      | M_Install \<Rightarrow> if main_mutex p = None then Some (p\<lparr>main_mutex := Some Main_thread, pc := M_Construct\<rparr>) else None
      | M_Construct \<Rightarrow> Some (p\<lparr>pc := (case construct of Inr _ \<Rightarrow> M_Run 0 | Inl _ \<Rightarrow> M_Failed)\<rparr>)
      | M_Run i \<Rightarrow> Some (p\<lparr>pc := (if status i = TS_Connecting then M_Run (i + 1) else M_Check)\<rparr>)
      | M_Check \<Rightarrow> Some (if terminate p then p\<lparr>pc := M_Unlock\<rparr>
                       else p\<lparr>main_mutex := None, woken := False, pc := M_Waiting\<rparr>)
      | M_Waiting \<Rightarrow> if woken p then Some (p\<lparr>pc := M_Reacquire\<rparr>) else None
      | M_Reacquire \<Rightarrow> if main_mutex p = None then Some (p\<lparr>main_mutex := Some Main_thread, pc := M_Check\<rparr>) else None
      | M_Unlock \<Rightarrow> Some (p\<lparr>main_mutex := None, pc := M_Reset\<rparr>)
      | M_Reset \<Rightarrow> Some (p\<lparr>pc := M_Exit EXIT_SUCCESS\<rparr>)
      | M_Failed \<Rightarrow> Some (p\<lparr>main_mutex := None, pc := M_Exit EXIT_FAILURE\<rparr>)
      | M_Exit _ \<Rightarrow> None
      | M_Undefined \<Rightarrow> None)"

text \<open>The steps the process takes by itself. A handler runs on top of what its thread was doing: \<^verbatim>\<open>main\<close>
  goes on when no handler is left on its thread, and an interrupted handler when the
  later ones on its thread have returned.\<close>

inductive internal :: "unit res \<Rightarrow> (nat \<Rightarrow> TransportStatus) \<Rightarrow> process \<Rightarrow> process \<Rightarrow> bool"
  for construct status where
  main: "Main_thread \<notin> fst ` set (handlers p) \<Longrightarrow> main_step construct status p = Some q \<Longrightarrow> internal construct status p q"
| handler: "handlers p = xs @ (t, h) # ys \<Longrightarrow> t \<notin> fst ` set ys \<Longrightarrow> pc p \<noteq> M_Undefined \<Longrightarrow>
     signalHandler t h p = Some (h', q) \<Longrightarrow>
     internal construct status p (q\<lparr>handlers := xs @ (case h' of None \<Rightarrow> [] | Some k \<Rightarrow> [(t, k)]) @ ys\<rparr>)"

text \<open>A wait on a condition variable may end without a notification.\<close>

definition spurious_wakeup :: "process \<Rightarrow> process \<Rightarrow> bool" where
  "spurious_wakeup p q \<longleftrightarrow> Main_thread \<notin> fst ` set (handlers p) \<and> pc p = M_Waiting \<and> q = p\<lparr>pc := M_Reacquire\<rparr>"

text \<open>The steps of a process in its environment: its own, a wait that ends by itself, and a caught signal
  on any thread.\<close>

inductive process_step :: "unit res \<Rightarrow> (nat \<Rightarrow> TransportStatus) \<Rightarrow> process \<Rightarrow> process \<Rightarrow> bool"
  for construct status where
  own: "internal construct status p q \<Longrightarrow> process_step construct status p q"
| wakeup: "spurious_wakeup p q \<Longrightarrow> process_step construct status p q"
| signal: "caught_signal n \<Longrightarrow> pc p \<noteq> M_Start \<Longrightarrow> pc p \<noteq> M_Undefined \<Longrightarrow>
     process_step construct status p (p\<lparr>handlers := handlers p @ [(t, H_Enter n)]\<rparr>)"

inductive process_reachable :: "unit res \<Rightarrow> (nat \<Rightarrow> TransportStatus) \<Rightarrow> process \<Rightarrow> bool"
  for construct status where
  start: "process_reachable construct status process_start"
| step: "process_reachable construct status p \<Longrightarrow> process_step construct status p q \<Longrightarrow>
     process_reachable construct status q"

inductive_cases internalE: "internal construct status p q"
inductive_cases process_stepE: "process_step construct status p q"

section \<open>The invariant of the process\<close>

fun main_holds :: "main_pc \<Rightarrow> bool" where
  "main_holds M_Construct = True"
| "main_holds (M_Run i) = True"
| "main_holds M_Check = True"
| "main_holds M_Unlock = True"
| "main_holds M_Failed = True"
| "main_holds _ = False"

fun holding :: "handler_pc \<Rightarrow> bool" where
  "holding (H_Enter n) = False"
| "holding _ = True"

fun handler_caught :: "handler_pc \<Rightarrow> bool" where
  "handler_caught (H_Enter n) = caught_signal n"
| "handler_caught (H_Locked n) = caught_signal n"
| "handler_caught _ = True"

definition holders :: "process \<Rightarrow> nat" where
  "holders p = length (filter (\<lambda>e. holding (snd e)) (handlers p)) + (if main_holds (pc p) then 1 else 0)"

text \<open>The mutex is owned exactly when one holder has it, and by the thread of that holder.\<close>

definition lock_inv :: "process \<Rightarrow> bool" where
  "lock_inv p \<longleftrightarrow> holders p = (if main_mutex p = None then 0 else 1) \<and>
     (main_holds (pc p) \<longrightarrow> main_mutex p = Some Main_thread) \<and>
     list_all (\<lambda>e. holding (snd e) \<longrightarrow> main_mutex p = Some (fst e)) (handlers p)"

text \<open>The flag is set together with the reason, and the reason is that of a caught signal.\<close>

fun reason_ok :: "bool \<Rightarrow> string option \<Rightarrow> bool" where
  "reason_ok flag None \<longleftrightarrow> \<not> flag"
| "reason_ok flag (Some r) \<longleftrightarrow> flag \<and> r \<in> {reason_of SIGHUP, reason_of SIGINT, reason_of SIGQUIT}"

definition flag_inv :: "process \<Rightarrow> bool" where
  "flag_inv p \<longleftrightarrow> list_all (\<lambda>e. handler_caught (snd e)) (handlers p) \<and>
     reason_ok (terminate p) (termination_reason p)"

text \<open>A flag that is set while \<^verbatim>\<open>main\<close> waits has been or is about to be notified, and \<^verbatim>\<open>main\<close> leaves the wait
  only when it is set.\<close>

definition wake_inv :: "process \<Rightarrow> bool" where
  "wake_inv p \<longleftrightarrow> (terminate p \<and> pc p = M_Waiting \<and> \<not> woken p \<longrightarrow> list_ex (\<lambda>e. snd e = H_Set) (handlers p)) \<and>
     (pc p \<in> {M_Unlock, M_Reset, M_Exit EXIT_SUCCESS} \<longrightarrow> terminate p)"

definition process_inv :: "process \<Rightarrow> bool" where
  "process_inv p \<longleftrightarrow> pc p \<noteq> M_Undefined \<longrightarrow> lock_inv p \<and> flag_inv p \<and> wake_inv p"

lemma process_inv_start: "process_inv process_start"
  by (simp add: process_inv_def process_start_def holders_def lock_inv_def flag_inv_def wake_inv_def)

lemma inv_main_step:
  assumes "process_inv p" and "main_step construct status p = Some q"
  shows "process_inv q"
proof -
  have "pc p \<noteq> M_Undefined" using assms(2) by (auto simp: main_step_def)
  with assms(1) have inv: "lock_inv p" "flag_inv p" "wake_inv p" by (simp_all add: process_inv_def)
  have "lock_inv q"
    using inv(1) assms(2) unfolding lock_inv_def holders_def main_step_def
    by (cases "pc p") (auto simp: filter_empty_conv list_all_iff split: if_splits sum.splits)
  moreover have "flag_inv q"
    using inv(2) assms(2) unfolding flag_inv_def main_step_def
    by (cases "pc p") (auto split: if_splits)
  moreover have "wake_inv q"
    using inv(3) assms(2) unfolding wake_inv_def main_step_def
    by (cases "pc p") (simp_all add: EXIT_SUCCESS_def EXIT_FAILURE_def split: if_splits sum.splits, auto)
  ultimately show ?thesis by (simp add: process_inv_def)
qed

lemma sole_holder:
  assumes "lock_inv p" and "handlers p = xs @ (t, h) # ys" and "holding h"
  shows "\<not> main_holds (pc p)" and "list_all (\<lambda>e. \<not> holding (snd e)) (xs @ ys)" and "main_mutex p = Some t"
proof -
  have "main_mutex p = Some t" using assms by (simp add: lock_inv_def)
  moreover from this have "holders p = 1" using assms(1) by (simp add: lock_inv_def)
  ultimately show "\<not> main_holds (pc p)" and "list_all (\<lambda>e. \<not> holding (snd e)) (xs @ ys)" and "main_mutex p = Some t"
    using assms(2,3) by (auto simp: holders_def list_all_iff filter_empty_conv split: if_splits)
qed

lemma lock_inv_holding:
  assumes "handlers p = xs @ (t, h) # ys" and "holding h = holding k" and "main_mutex q = main_mutex p" and "pc q = pc p"
  shows "lock_inv (q\<lparr>handlers := xs @ (t, k) # ys\<rparr>) = lock_inv p"
  using assms by (simp add: lock_inv_def holders_def)

definition handled :: "(thread \<times> handler_pc) list \<Rightarrow> thread \<Rightarrow> handler_pc option \<Rightarrow> (thread \<times> handler_pc) list \<Rightarrow> process \<Rightarrow> process" where
  "handled xs t h' ys q = q\<lparr>handlers := xs @ (case h' of None \<Rightarrow> [] | Some k \<Rightarrow> [(t, k)]) @ ys\<rparr>"

definition running_inv :: "process \<Rightarrow> bool" where
  "running_inv p \<longleftrightarrow> lock_inv p \<and> flag_inv p \<and> wake_inv p"

lemma inv_handler_enter:
  assumes "running_inv p" and hs: "handlers p = xs @ (t, H_Enter n) # ys" and "pc (handled xs t h' ys q) \<noteq> M_Undefined"
    and "signalHandler t (H_Enter n) p = Some (h', q)"
  shows "running_inv (handled xs t h' ys q)"
proof -
  have free: "main_mutex p = None" "h' = Some (H_Locked n)" "q = p\<lparr>main_mutex := Some t\<rparr>"
    using assms(3,4) by (auto simp: handled_def split: if_splits)
  have none: "\<not> main_holds (pc p)" "list_all (\<lambda>e. \<not> holding (snd e)) (xs @ ys)"
    using assms(1) free(1) by (auto simp: running_inv_def lock_inv_def hs list_all_iff)
  then have "filter (\<lambda>e. holding (snd e)) xs = []" "filter (\<lambda>e. holding (snd e)) ys = []"
    by (simp_all add: list_all_iff)
  with none free have "lock_inv (handled xs t h' ys q)" by (auto simp: lock_inv_def holders_def list_all_iff handled_def)
  then show ?thesis using assms(1) free by (simp add: running_inv_def flag_inv_def wake_inv_def hs handled_def)
qed

lemma inv_handler_locked:
  assumes "running_inv p" and hs: "handlers p = xs @ (t, H_Locked n) # ys" and "signalHandler t (H_Locked n) p = Some (h', q)"
  shows "running_inv (handled xs t h' ys q)"
proof -
  have "caught_signal n" using assms(1) by (simp add: running_inv_def flag_inv_def hs)
  then have n: "reason_of n \<in> {reason_of SIGHUP, reason_of SIGINT, reason_of SIGQUIT}" by (auto simp: caught_signal_def)
  have "lock_inv (handled xs t h' ys q) = lock_inv p"
    using assms(3) lock_inv_holding [OF hs] by (auto simp: handled_def split: if_splits)
  moreover have "flag_inv (handled xs t h' ys q)" "wake_inv (handled xs t h' ys q)"
    using assms(1,3) n by (auto simp: running_inv_def flag_inv_def wake_inv_def hs handled_def split: if_splits)
  ultimately show ?thesis using assms(1) by (simp add: running_inv_def)
qed

lemma inv_handler_set:
  assumes "running_inv p" and hs: "handlers p = xs @ (t, H_Set) # ys" and "signalHandler t H_Set p = Some (h', q)"
  shows "running_inv (handled xs t h' ys q)"
proof -
  have q: "h' = Some H_Leave" "q = (if pc p = M_Waiting then p\<lparr>woken := True\<rparr> else p)" using assms(3) by simp_all
  have "lock_inv (handled xs t h' ys q) = lock_inv p" using lock_inv_holding [OF hs] by (simp add: q handled_def)
  moreover have "flag_inv (handled xs t h' ys q)" "wake_inv (handled xs t h' ys q)"
    using assms(1) q by (simp_all add: running_inv_def flag_inv_def wake_inv_def hs handled_def)
  ultimately show ?thesis using assms(1) by (simp add: running_inv_def)
qed

lemma inv_handler_leave:
  assumes "running_inv p" and hs: "handlers p = xs @ (t, H_Leave) # ys" and "signalHandler t H_Leave p = Some (h', q)"
  shows "running_inv (handled xs t h' ys q)"
proof -
  have q: "h' = None" "q = p\<lparr>main_mutex := None\<rparr>" using assms(3) by simp_all
  have inv: "lock_inv p" "flag_inv p" "wake_inv p" using assms(1) by (simp_all add: running_inv_def)
  note sole = sole_holder [OF inv(1) hs]
  have "list_all (\<lambda>e. \<not> holding (snd e)) xs" "list_all (\<lambda>e. \<not> holding (snd e)) ys" using sole(2) by simp_all
  then have "filter (\<lambda>e. holding (snd e)) xs = []" "filter (\<lambda>e. holding (snd e)) ys = []" "list_all (\<lambda>e. \<not> holding (snd e)) (xs @ ys)"
    by (auto simp: list_all_iff)
  then have "lock_inv (handled xs t h' ys q)"
    using sole(1) q by (auto simp: lock_inv_def holders_def list_all_iff handled_def)
  then show ?thesis using inv(2,3) q by (simp add: running_inv_def flag_inv_def wake_inv_def hs handled_def)
qed

lemma inv_handler:
  assumes "process_inv p" and hs: "handlers p = xs @ (t, h) # ys" and "pc p \<noteq> M_Undefined"
    and step: "signalHandler t h p = Some (h', q)"
  shows "process_inv (q\<lparr>handlers := xs @ (case h' of None \<Rightarrow> [] | Some k \<Rightarrow> [(t, k)]) @ ys\<rparr>)"
proof -
  have inv: "running_inv p" using assms(1,3) by (simp add: process_inv_def running_inv_def)
  have "running_inv (handled xs t h' ys q)" if "pc (handled xs t h' ys q) \<noteq> M_Undefined"
  proof (cases h)
    case (H_Enter n)
    show ?thesis by (rule inv_handler_enter [OF inv hs [unfolded H_Enter] that step [unfolded H_Enter]])
  next
    case (H_Locked n)
    show ?thesis by (rule inv_handler_locked [OF inv hs [unfolded H_Locked] step [unfolded H_Locked]])
  next
    case H_Set
    show ?thesis by (rule inv_handler_set [OF inv hs [unfolded H_Set] step [unfolded H_Set]])
  next
    case H_Leave
    show ?thesis by (rule inv_handler_leave [OF inv hs [unfolded H_Leave] step [unfolded H_Leave]])
  qed
  then show ?thesis by (simp add: process_inv_def running_inv_def handled_def)
qed

lemma inv_process_step:
  assumes "process_inv p" and "process_step construct status p q"
  shows "process_inv q"
  using assms(2)
proof cases
  case own
  then show ?thesis
    by (cases rule: internal.cases) (auto intro: inv_main_step [OF assms(1)] inv_handler [OF assms(1)])
next
  case wakeup
  with assms(1) show ?thesis by (auto simp: spurious_wakeup_def process_inv_def holders_def lock_inv_def flag_inv_def wake_inv_def)
next
  case (signal n t)
  with assms(1) show ?thesis by (simp add: process_inv_def holders_def lock_inv_def flag_inv_def wake_inv_def)
qed

lemma process_reachable_inv: "process_reachable construct status p \<Longrightarrow> process_inv p"
  by (induction rule: process_reachable.induct) (auto intro: process_inv_start inv_process_step)

section \<open>Termination\<close>

text \<open>The flag is set, \<^verbatim>\<open>main\<close> has come as far as the wait, no thread runs two handlers, and none is
  running on top of \<^verbatim>\<open>main\<close> while it holds the mutex.\<close>

definition past_run :: "main_pc \<Rightarrow> bool" where
  "past_run m \<longleftrightarrow> m \<in> {M_Check, M_Waiting, M_Reacquire, M_Unlock, M_Reset, M_Exit EXIT_SUCCESS}"

definition orderly :: "process \<Rightarrow> bool" where
  "orderly p \<longleftrightarrow> distinct (map fst (handlers p)) \<and> (main_holds (pc p) \<longrightarrow> Main_thread \<notin> fst ` set (handlers p))"

definition leaving :: "process \<Rightarrow> bool" where
  "leaving p \<longleftrightarrow> process_inv p \<and> terminate p \<and> past_run (pc p) \<and> orderly p"

definition closed_step :: "unit res \<Rightarrow> (nat \<Rightarrow> TransportStatus) \<Rightarrow> process \<Rightarrow> process \<Rightarrow> bool" where
  "closed_step construct status p q \<longleftrightarrow> internal construct status p q \<or> spurious_wakeup p q"

fun main_rank :: "main_pc \<Rightarrow> nat" where
  "main_rank M_Waiting = 6"
| "main_rank M_Reacquire = 5"
| "main_rank M_Check = 4"
| "main_rank M_Unlock = 3"
| "main_rank M_Reset = 2"
| "main_rank _ = 0"

fun handler_rank :: "handler_pc \<Rightarrow> nat" where
  "handler_rank (H_Enter n) = 4"
| "handler_rank (H_Locked n) = 3"
| "handler_rank H_Set = 2"
| "handler_rank H_Leave = 1"

definition exit_rank :: "process \<Rightarrow> nat" where
  "exit_rank p = main_rank (pc p) + sum_list (map (\<lambda>e. handler_rank (snd e)) (handlers p))"

lemma leaving_main:
  assumes "leaving p" and "main_step construct status p = Some q" and "Main_thread \<notin> fst ` set (handlers p)"
  shows "leaving q" and "exit_rank q < exit_rank p"
proof -
  have p: "terminate p" "past_run (pc p)" "orderly p" using assms(1) by (simp_all add: leaving_def)
  have inv: "process_inv q" using inv_main_step [OF _ assms(2)] assms(1) by (simp add: leaving_def)
  have q: "handlers q = handlers p" "terminate q = terminate p" "past_run (pc q)" "main_rank (pc q) < main_rank (pc p)"
    using assms(2) p(1,2) by (auto simp: main_step_def past_run_def EXIT_SUCCESS_def split: if_splits)
  have "orderly q" using p(3) assms(3) by (simp add: orderly_def q(1))
  with inv q p(1) show "leaving q" by (simp add: leaving_def)
  show "exit_rank q < exit_rank p" using q(1,4) by (simp add: exit_rank_def)
qed

lemma leaving_handler:
  assumes "leaving p" and hs: "handlers p = xs @ (t, h) # ys" and "signalHandler t h p = Some (h', q)"
  defines "q' \<equiv> q\<lparr>handlers := xs @ (case h' of None \<Rightarrow> [] | Some k \<Rightarrow> [(t, k)]) @ ys\<rparr>"
  shows "leaving q'" and "exit_rank q' < exit_rank p"
proof -
  have nub: "pc p \<noteq> M_Undefined" using assms(1) by (auto simp: leaving_def past_run_def)
  have inv: "process_inv q'" using inv_handler [OF _ hs nub assms(3)] assms(1) by (simp add: leaving_def q'_def)
  have lock: "lock_inv p" using assms(1) nub by (simp add: leaving_def process_inv_def)
  have fresh: "t \<notin> fst ` set xs \<union> fst ` set ys" using assms(1) by (simp add: leaving_def orderly_def hs)
  have notown: "main_mutex p \<noteq> Some t" if "h = H_Enter n" for n
  proof
    assume own: "main_mutex p = Some t"
    then have "holders p = 1" using lock by (simp add: lock_inv_def)
    have "main_holds (pc p) \<or> (\<exists>e \<in> set xs \<union> set ys. holding (snd e))"
    proof (rule ccontr)
      assume "\<not> (main_holds (pc p) \<or> (\<exists>e \<in> set xs \<union> set ys. holding (snd e)))"
      then have "holders p = 0" using that by (auto simp: holders_def hs filter_empty_conv)
      with \<open>holders p = 1\<close> show False by simp
    qed
    then consider "main_holds (pc p)" | e where "e \<in> set xs \<union> set ys" "holding (snd e)" by blast
    then show False
    proof cases
      case 1
      with assms(1) lock own show False by (auto simp: leaving_def orderly_def lock_inv_def hs)
    next
      case 2
      with lock own have "fst e = t" by (auto simp: lock_inv_def hs list_all_iff)
      with 2 fresh show False by force
    qed
  qed
  have q: "pc q = pc p" "terminate q" "case h' of None \<Rightarrow> True | Some k \<Rightarrow> handler_rank k < handler_rank h"
    using assms(1,3) notown by (cases h; auto simp: leaving_def split: if_splits)+
  have "orderly q'" using assms(1) by (auto simp: leaving_def orderly_def q'_def hs q(1) split: option.split)
  then show "leaving q'" using inv assms(1) q by (simp add: leaving_def q'_def)
  have "0 < handler_rank h" by (cases h) simp_all
  then show "exit_rank q' < exit_rank p" using q(1,3) by (simp add: exit_rank_def q'_def hs split: option.splits)
qed

lemma leaving_closed_step:
  assumes "leaving p" and "closed_step construct status p q"
  shows "leaving q \<and> exit_rank q < exit_rank p"
  using assms(2) unfolding closed_step_def
proof
  assume "internal construct status p q"
  then show ?thesis
    by (cases rule: internal.cases) (use leaving_main [OF assms(1)] leaving_handler [OF assms(1)] in blast)+
next
  assume w: "spurious_wakeup p q"
  then have "process_inv q" using inv_process_step [OF _ wakeup [OF w]] assms(1) by (simp add: leaving_def)
  with assms(1) w show ?thesis by (auto simp: spurious_wakeup_def leaving_def past_run_def orderly_def exit_rank_def)
qed

text \<open>Without a new signal something can always move, and not only by a wait that ends by itself, until
  \<^verbatim>\<open>main\<close> has returned and every handler is done.\<close>

lemma leaving_progress:
  assumes "leaving p" and stuck: "\<not> (\<exists>q. internal construct status p q)"
  shows "pc p = M_Exit EXIT_SUCCESS \<and> handlers p = []"
proof -
  have nub: "pc p \<noteq> M_Undefined" and order: "orderly p" and past: "past_run (pc p)" and flag: "terminate p"
    using assms(1) by (auto simp: leaving_def past_run_def)
  have inv: "lock_inv p" "wake_inv p" using assms(1) nub by (simp_all add: leaving_def process_inv_def)
  have blocked: "signalHandler t h p = None" if e: "(t, h) \<in> set (handlers p)" for t h
  proof (rule ccontr)
    assume "signalHandler t h p \<noteq> None"
    then obtain h' q where s: "signalHandler t h p = Some (h', q)" by auto
    obtain xs ys where hs: "handlers p = xs @ (t, h) # ys" using e by (auto simp: in_set_conv_decomp)
    with order have "t \<notin> fst ` set ys" by (simp add: orderly_def)
    from handler [OF hs this nub s] stuck show False by blast
  qed
  have enter: "\<exists>n. h = H_Enter n \<and> main_mutex p \<noteq> None" if "(t, h) \<in> set (handlers p)" for t h
    using blocked [OF that] by (cases h) (auto split: if_splits)
  have "filter (\<lambda>e. holding (snd e)) (handlers p) = []" using enter by (fastforce simp: filter_empty_conv)
  then have owner: "main_mutex p \<noteq> None \<longleftrightarrow> main_holds (pc p)" using inv(1) by (auto simp: lock_inv_def holders_def split: if_splits)
  have idle: "main_step construct status p = None" if "Main_thread \<notin> fst ` set (handlers p)"
    using main [OF that] stuck by (cases "main_step construct status p") blast+
  have free: "\<not> main_holds (pc p)"
  proof
    assume m: "main_holds (pc p)"
    then have "main_step construct status p = None" using idle order by (simp add: orderly_def)
    with m show False using past by (auto simp: main_step_def past_run_def split: if_splits)
  qed
  have none: "handlers p = []"
  proof (cases "handlers p")
    case (Cons e es)
    then have "(fst e, snd e) \<in> set (handlers p)" by simp
    from enter [OF this] owner free show ?thesis by blast
  qed
  then have "main_step construct status p = None" using idle by simp
  moreover have "pc p = M_Waiting \<Longrightarrow> woken p" using inv(2) flag none by (auto simp: wake_inv_def)
  ultimately have "pc p = M_Exit EXIT_SUCCESS"
    using past owner free by (auto simp: main_step_def past_run_def split: if_splits)
  with none show ?thesis by simp
qed

lemma leaving_steps: "(closed_step construct status)\<^sup>*\<^sup>* p q \<Longrightarrow> leaving p \<Longrightarrow> leaving q"
  by (induction rule: rtranclp_induct) (auto dest: leaving_closed_step)

section \<open>Correctness of the process\<close>

text \<open>C16. In every state the process reaches with defined behaviour at most one of \<^verbatim>\<open>main\<close> and the running
  handlers is in its critical section; the flag is set exactly when a reason is, and the reason is that of
  a signal that was caught; \<^verbatim>\<open>main\<close> returns \<^verbatim>\<open>EXIT_SUCCESS\<close> only after a signal. The
  flag is never set behind the back of a waiting \<^verbatim>\<open>main\<close>: a handler is then still to notify it.\<close>

theorem process_invariant:
  assumes "process_reachable construct status p" and "pc p \<noteq> M_Undefined"
  shows "length (filter (\<lambda>e. holding (snd e)) (handlers p)) + (if main_holds (pc p) then 1 else 0) \<le> 1 \<and>
    (terminate p \<longleftrightarrow> termination_reason p \<noteq> None) \<and>
    termination_reason p \<in> {None, Some ''Hangup signal received'', Some ''Interrupt signal received'', Some ''Quit signal received''} \<and>
    (pc p = M_Exit EXIT_SUCCESS \<longrightarrow> terminate p) \<and>
    (terminate p \<and> pc p = M_Waiting \<and> \<not> woken p \<longrightarrow> (\<exists>t. (t, H_Set) \<in> set (handlers p)))"
proof -
  have inv: "lock_inv p" "flag_inv p" "wake_inv p"
    using process_reachable_inv [OF assms(1)] assms(2) by (simp_all add: process_inv_def)
  have "terminate p \<longleftrightarrow> termination_reason p \<noteq> None"
    "termination_reason p \<in> {None, Some ''Hangup signal received'', Some ''Interrupt signal received'', Some ''Quit signal received''}"
    using inv(2) by (cases "termination_reason p"; force simp: flag_inv_def reason_of_def SIGHUP_def SIGINT_def SIGQUIT_def)+
  moreover have "\<exists>t. (t, H_Set) \<in> set (handlers p)" if "terminate p \<and> pc p = M_Waiting \<and> \<not> woken p"
    using inv(3) that by (auto simp: wake_inv_def list_ex_iff)
  ultimately show ?thesis using inv(1,3) by (auto simp: lock_inv_def holders_def wake_inv_def)
qed

text \<open>C9. Once a signal has set the flag and \<^verbatim>\<open>main\<close> has come to the wait, the process ends: as long as no
  further signal arrives there is no infinite sequence of steps, whatever waits end by themselves,
  and a state in which neither \<^verbatim>\<open>main\<close> nor a handler can move is the end of the program
  with \<^verbatim>\<open>EXIT_SUCCESS\<close>. No wake-up is lost.\<close>

theorem process_terminates:
  assumes "process_reachable construct status p" and "terminate p" and "past_run (pc p)" and "orderly p"
  shows "(\<nexists>f. f 0 = p \<and> (\<forall>i. closed_step construct status (f i) (f (Suc i)))) \<and>
    (\<forall>q. (closed_step construct status)\<^sup>*\<^sup>* p q \<and> (\<nexists>r. internal construct status q r) \<longrightarrow>
       pc q = M_Exit EXIT_SUCCESS \<and> handlers q = [])"
proof -
  have p: "leaving p" using process_reachable_inv [OF assms(1)] assms(2-4) by (simp add: leaving_def)
  have "False" if f: "f 0 = p" "\<forall>i. closed_step construct status (f i) (f (Suc i))" for f
  proof -
    have "leaving (f i) \<and> exit_rank (f i) + i \<le> exit_rank p" for i
    proof (induction i)
      case 0
      show ?case using p f(1) by simp
    next
      case (Suc i)
      with leaving_closed_step [of "f i" construct status "f (Suc i)"] f(2) show ?case by fastforce
    qed
    from this [of "Suc (exit_rank p)"] show False by simp
  qed
  then show ?thesis using p leaving_steps leaving_progress by blast
qed

section \<open>Samples\<close>

definition interrupted :: process where
  "interrupted = \<lparr>main_mutex = Some (Transport_thread 0), terminate = True,
     termination_reason = Some ''Interrupt signal received'', woken = False, pc = M_Waiting,
     handlers = [(Transport_thread 0, H_Set)]\<rparr>"

lemma main_reaches:
  "process_reachable construct status p \<Longrightarrow> handlers p = [] \<Longrightarrow> main_step construct status p = Some q \<Longrightarrow>
     process_reachable construct status q"
  by (rule process_reachable.step, assumption, rule own, rule main) simp_all

lemma main_waits:
  fixes construct :: "unit res"
  assumes "construct = Inr ()" and "status 0 \<noteq> TS_Connecting"
  shows "process_reachable construct status (process_start\<lparr>main_mutex := Some Main_thread, pc := M_Construct\<rparr>)"
    and "process_reachable construct status (process_start\<lparr>pc := M_Waiting\<rparr>)"
proof -
  note step = main_reaches [where construct = construct and status = status]
  have a: "process_reachable construct status (process_start\<lparr>pc := M_Install\<rparr>)"
    by (rule step [OF process_reachable.start]) (simp_all add: process_start_def main_step_def)
  show b: "process_reachable construct status (process_start\<lparr>main_mutex := Some Main_thread, pc := M_Construct\<rparr>)"
    by (rule step [OF a]) (simp_all add: process_start_def main_step_def)
  have c: "process_reachable construct status (process_start\<lparr>main_mutex := Some Main_thread, pc := M_Run 0\<rparr>)"
    by (rule step [OF b]) (simp_all add: process_start_def main_step_def assms(1))
  have d: "process_reachable construct status (process_start\<lparr>main_mutex := Some Main_thread, pc := M_Check\<rparr>)"
    by (rule step [OF c]) (simp_all add: process_start_def main_step_def assms(2))
  show "process_reachable construct status (process_start\<lparr>pc := M_Waiting\<rparr>)"
    by (rule step [OF d]) (simp_all add: process_start_def main_step_def)
qed

lemma handler_reaches:
  assumes "process_reachable construct status p" and "handlers p = [(t, h)]" and "pc p \<noteq> M_Undefined"
    and "signalHandler t h p = Some (h', q)"
  shows "process_reachable construct status (q\<lparr>handlers := (case h' of None \<Rightarrow> [] | Some k \<Rightarrow> [(t, k)])\<rparr>)"
  using process_reachable.step [OF assms(1) own [OF handler [of p "[]" t h "[]" h' q]]] assms(2-4) by simp

lemma interrupted_reachable:
  assumes "construct = Inr ()" and "status 0 \<noteq> TS_Connecting"
  shows "process_reachable construct status interrupted"
proof -
  let ?t = "Transport_thread 0"
  let ?w = "process_start\<lparr>pc := M_Waiting\<rparr>"
  have a: "process_reachable construct status (?w\<lparr>handlers := [(?t, H_Enter SIGINT)]\<rparr>)"
    using process_reachable.step [OF main_waits(2) [where status = status, OF assms] signal [of SIGINT ?w construct status ?t]]
    by (simp add: caught_signal_def process_start_def)
  have b: "process_reachable construct status (?w\<lparr>main_mutex := Some ?t, handlers := [(?t, H_Locked SIGINT)]\<rparr>)"
    using handler_reaches [OF a, of ?t "H_Enter SIGINT"] by (simp add: process_start_def)
  show ?thesis
    using handler_reaches [OF b, of ?t "H_Locked SIGINT"]
    by (simp add: process_start_def interrupted_def reason_of_def)
qed

text \<open>A signal that is handled on the main thread before \<^verbatim>\<open>main\<close> waits locks a mutex its thread owns.\<close>

lemma early_signal_undefined:
  assumes "construct = Inr ()" and "status 0 \<noteq> TS_Connecting"
  shows "\<exists>p. process_reachable construct status p \<and> pc p = M_Undefined"
proof -
  let ?c = "process_start\<lparr>main_mutex := Some Main_thread, pc := M_Construct\<rparr>"
  have a: "process_reachable construct status (?c\<lparr>handlers := [(Main_thread, H_Enter SIGINT)]\<rparr>)"
    using process_reachable.step [OF main_waits(1) [where status = status, OF assms] signal [of SIGINT ?c construct status Main_thread]]
    by (simp add: caught_signal_def process_start_def)
  show ?thesis
    using handler_reaches [OF a, of Main_thread "H_Enter SIGINT"] by (fastforce simp: process_start_def)
qed

theorem process_invariant_witness:
  "termination_reason interrupted \<in> {None, Some ''Hangup signal received'', Some ''Interrupt signal received'', Some ''Quit signal received''} \<and>
   (\<exists>t. (t, H_Set) \<in> set (handlers interrupted))"
  using process_invariant [OF interrupted_reachable [of "Inr ()" "\<lambda>_. TS_Ready"]] by (simp add: interrupted_def)

theorem process_terminates_witness:
  "(\<nexists>f. f 0 = interrupted \<and> (\<forall>i. closed_step (Inr ()) (\<lambda>_. TS_Ready) (f i) (f (Suc i)))) \<and>
   (\<nexists>q. (closed_step (Inr ()) (\<lambda>_. TS_Ready))\<^sup>*\<^sup>* interrupted q \<and> (\<nexists>r. internal (Inr ()) (\<lambda>_. TS_Ready) q r) \<and>
     pc q \<noteq> M_Exit EXIT_SUCCESS)"
proof -
  have "terminate interrupted" "past_run (pc interrupted)" "orderly interrupted"
    by (simp_all add: interrupted_def past_run_def orderly_def)
  then show ?thesis
    using process_terminates [OF interrupted_reachable [of "Inr ()" "\<lambda>_. TS_Ready"]] by blast
qed

end
