(* ===== verification/Really_Test.thy ===== *)
theory Really_Test
  imports Control_Flows Cpp_Strings
begin

text \<open>
  The manual test client \<^verbatim>\<open>cmd/really/reallyTest.cpp\<close>: its arguments and environment variables, the two
  modes it runs a \<^verbatim>\<open>QuicRClient\<close> in, and the log line of its subscriber delegate. The client is the one of
  \<^verbatim>\<open>Quicr_Client\<close>; the sleeps are the moments at which notifications of the transport are handled.
  The results put the two modes together with the relay.
\<close>

section \<open>The arguments\<close>

text \<open>The relay to connect to, from \<^verbatim>\<open>REALLY_RELAY\<close> and \<^verbatim>\<open>REALLY_PORT\<close> when they are set.\<close>

definition reallyTest_relay :: "string option \<Rightarrow> string option \<Rightarrow> RelayInfo res" where
  "reallyTest_relay relayVar portVar =
     (let relayName = (case relayVar of None \<Rightarrow> ''127.0.0.1'' | Some r \<Rightarrow> r) in
      rbind (case portVar of None \<Rightarrow> Inr 1234 | Some v \<Rightarrow> atoi v) (\<lambda>p.
      Inr \<lparr>hostname = relayName, port = word_of_int p, proto = QUIC\<rparr>))"

text \<open>The characters of a C string as bytes, up to the terminating null.\<close>

definition c_bytes :: "string \<Rightarrow> bytes" where
  "c_bytes s = string_bytes (takeWhile (\<lambda>c. c \<noteq> CHR 0x00) s)"

section \<open>The two modes\<close>

text \<open>What happens during a sleep: the transport notifies the client. \<open>dequeues\<close> are the notifications, each
  with what its calls of \<^verbatim>\<open>dequeue\<close> return.\<close>

definition sleep_for :: "client_env \<Rightarrow> (nat \<Rightarrow> bytes option) list \<Rightarrow> unit client_op" where
  "sleep_for env dequeues = op_for dequeues (client_on_recv_notify env)"

definition reallyTest_body ::
  "client_env \<Rightarrow> u64 \<Rightarrow> delegate \<Rightarrow> Name \<Rightarrow> bytes \<Rightarrow> (nat \<Rightarrow> bytes option) list \<Rightarrow>
    (nat \<Rightarrow> bytes option) list \<Rightarrow> unit client_op" where
  "reallyTest_body env tid sd name data sleep20 sleep15 =
     (if length data > 0 then publishNamedObject env name data
      else
        op_bind (op_lift (mk_Namespace name 96)) (\<lambda>nspace.
        op_then (subscribe env tid sd nspace immediate) (
        op_then (sleep_for env sleep20) (
        op_then (unsubscribe env nspace)
          (sleep_for env sleep15)))))"

datatype test_result = Usage int | Finished int RelayInfo Client

text \<open>\<^verbatim>\<open>main\<close>: the outcome is nothing when the constructor of the client never returns, and an exception
  that nobody catches is a left value. After the last sleep the client is destroyed; the delegate of the
  subscriber is gone by then.\<close>

definition reallyTest_main ::
  "string list \<Rightarrow> string option \<Rightarrow> string option \<Rightarrow> (nat \<Rightarrow> TransportStatus) \<Rightarrow> TransportContextId \<Rightarrow> StreamId \<Rightarrow>
    client_env \<Rightarrow> u64 \<Rightarrow> delegate \<Rightarrow> (nat \<Rightarrow> bytes option) list \<Rightarrow> (nat \<Rightarrow> bytes option) list \<Rightarrow>
    (nat \<Rightarrow> bytes option) list \<Rightarrow> test_result res option" where
  "reallyTest_main argv relayVar portVar status start_result stream_result env tid sd sleep20 sleep15 sleep5 =
     (if length argv \<noteq> 2 \<and> length argv \<noteq> 3 then Some (Inr (Usage (- 1)))
      else
        case rbind (reallyTest_relay relayVar portVar) (\<lambda>relay.
             rbind (Name_of_hex (argv ! 1)) (\<lambda>name. Inr (relay, name))) of
          Inl e \<Rightarrow> Some (Inl e)
        | Inr (relay, name) \<Rightarrow>
            let data = (if length argv = 3 then c_bytes (argv ! 2) else []);
                gone = env\<lparr>alive := \<lambda>d. d \<noteq> sd \<and> alive env d\<rparr> in
            case make_transport status start_result stream_result of
              None \<Rightarrow> None
            | Some (Inl e) \<Rightarrow> Some (Inl e)
            | Some (Inr client) \<Rightarrow>
                (case op_then (reallyTest_body env tid sd name data sleep20 sleep15) (
                      op_then (sleep_for gone sleep5) (client_destroy gone)) client of
                   (Inl e, _) \<Rightarrow> Some (Inl e)
                 | (Inr _, c) \<Rightarrow> Some (Inr (Finished 0 relay c))))"

text \<open>The log lines of the subscriber delegate. \<^verbatim>\<open>data.data()\<close> is printed as a C string, which reads
  past the end of the vector when it has no null byte.\<close>

definition subDelegate_onSubscribeResponse :: "Namespace \<Rightarrow> SubscribeResult \<Rightarrow> string" where
  "subDelegate_onSubscribeResponse quicr_namespace result =
     ''onSubscriptionResponse: name: '' @ Namespace_to_hex quicr_namespace @ ''/'' @
     dec_string (unat (sig_bits quicr_namespace)) @ '' status: '' @
     dec_string (unat (SubscribeStatus_code (sres_status result)))"

definition subDelegate_onSubscriptionEnded :: "Namespace \<Rightarrow> string" where
  "subDelegate_onSubscriptionEnded quicr_namespace =
     ''onSubscriptionEnded: name: '' @ Namespace_to_hex quicr_namespace @ ''/'' @
     dec_string (unat (sig_bits quicr_namespace))"

definition subDelegate_onSubscribedObject :: "Name \<Rightarrow> bytes \<Rightarrow> string res" where
  "subDelegate_onSubscribedObject quicr_name data =
     (let head = ''recv object: name: '' @ Name_to_hex quicr_name @ '' data sz: '' @ dec_string (length data) in
      if length data > 0 then
        if 0 \<in> set data then Inr (head @ '' data: '' @ bytes_string (takeWhile (\<lambda>b. b \<noteq> 0) data))
        else Inl undefined_behaviour
      else Inr head)"

section \<open>What becomes of the test\<close>

lemma c_bytes_nonzero: "0 \<notin> set (c_bytes s)"
proof
  assume "0 \<in> set (c_bytes s)"
  then have "(0 :: u8) \<in> (\<lambda>c. of_nat (of_char c)) ` set (takeWhile (\<lambda>c. c \<noteq> CHR 0x00) s)"
    by (simp only: c_bytes_def string_bytes_def set_map)
  then obtain c where c: "(0 :: u8) = of_nat (of_char c)" "c \<in> set (takeWhile (\<lambda>c. c \<noteq> CHR 0x00) s)" by (rule imageE)
  from unat_char_byte [of c] have "(of_char c :: nat) = of_char (CHR 0x00)" unfolding c(1) [symmetric] by simp
  then have "c = CHR 0x00" by (simp only: of_char_eq_iff)
  with set_takeWhileD [OF c(2)] show False by simp
qed

lemma unannounced_publish:
  assumes "PublishDatagram_ok d" and "publish_namespace_found (h_name (pd_header d)) (sv_publish_namespaces s) = Inr False"
  shows "server_handle del ctx stream (enc_PublishDatagram d) s = (Inr (), s)"
proof -
  obtain tl where m: "enc_PublishDatagram d = MessageType_code MT_Publish # tl"
    by (simp add: enc_PublishDatagram_def enc_type_def enc_u8_def)
  have "get_PublishDatagram (enc_PublishDatagram d) = Inr (d, [])"
    using publish_datagram.get_enc [OF assms(1), of "[]"] by simp
  with m assms(2) show ?thesis
    by (simp add: server_handle_def MessageType_cast_def handle_publish_def op_simps Let_def)
qed

lemma destroy_idle: "subscribe_state c = [] \<Longrightarrow> client_destroy env c = (Inr (), c)"
  by (simp add: client_destroy_def removeSubscribeState_def op_simps)

lemma make_transport_ready:
  "status 0 \<noteq> TS_Connecting \<Longrightarrow> status 1 = TS_Ready \<Longrightarrow> make_transport status ctx stream = Some (Inr (new_client ctx stream))"
  by (simp add: make_transport_def poll_status.simps)

text \<open>The publishing mode of \<^verbatim>\<open>reallyTest\<close> sends the object, all of it, and exits normally; but it never
  announces a namespace, and a relay on which nobody else has announced one that contains the name
  drops every message: its state does not change and no subscriber is sent anything.\<close>

lemma reallyTest_publisher_dropped:
  assumes "Name_of_hex arg = Inr name" and "c_bytes text \<noteq> []" and "length text < 2 ^ 30"
    and "reallyTest_relay relayVar portVar = Inr r" and "status 0 \<noteq> TS_Connecting" and "status 1 = TS_Ready"
    and "\<forall>h m. accepts env h ctx stream m" and "stream < 2 ^ 60"
    and "publish_namespace_found name (sv_publish_namespaces s) = Inr False"
  shows "\<exists>ms c. reallyTest_main [prog, arg, text] relayVar portVar status ctx stream env tid sd s20 s15 [] =
      Some (Inr (Finished 0 r c)) \<and> events c = map (Enqueue ctx stream) ms \<and> ms \<noteq> [] \<and>
    op_for ms (server_handle (really_delegate mk) pctx pstream) s = (Inr (), s)"
proof -
  let ?data = "c_bytes text" and ?c = "new_client ctx stream"
  let ?ms = "map enc_PublishDatagram (object_datagrams stream name ?data)"
  have "length ?data \<le> length text" by (simp add: c_bytes_def string_bytes_def length_takeWhile_le)
  with assms(3) have len: "length ?data < 2 ^ 30" by simp
  have f: "transport_stream_id ?c = stream" "transport_context_id ?c = ctx" "publish_state ?c = []" "events ?c = []" "subscribe_state ?c = []"
    by (simp_all add: new_client_def)
  have pub: "publishNamedObject env name ?data ?c = (Inr (), ?c\<lparr>events := map (Enqueue ctx stream) ?ms\<rparr>)"
    using publishNamedObject_run [of ?c ?data env name] assms(7,8) len by (simp add: f send_all_accepted)
  have ok: "\<forall>d \<in> set (object_datagrams stream name ?data). PublishDatagram_ok d \<and> h_name (pd_header d) = name"
    by (rule object_datagrams_ok [OF assms(8) len])
  have "op_for (map enc_PublishDatagram ds) (server_handle (really_delegate mk) pctx pstream) s = (Inr (), s)"
    if "\<forall>d \<in> set ds. PublishDatagram_ok d \<and> h_name (pd_header d) = name" for ds
    using that assms(9) by (induction ds) (simp_all add: op_simps unannounced_publish)
  then have drop: "op_for ?ms (server_handle (really_delegate mk) pctx pstream) s = (Inr (), s)" using ok by blast
  have body: "reallyTest_body env tid sd name ?data s20 s15 ?c = (Inr (), ?c\<lparr>events := map (Enqueue ctx stream) ?ms\<rparr>)"
    using assms(2) pub by (simp add: reallyTest_body_def)
  note then_body = op_then_Inr [where m = "reallyTest_body env tid sd name ?data s20 s15", OF body]
  have "reallyTest_main [prog, arg, text] relayVar portVar status ctx stream env tid sd s20 s15 [] =
      Some (Inr (Finished 0 r (?c\<lparr>events := map (Enqueue ctx stream) ?ms\<rparr>)))"
    by (simp add: reallyTest_main_def assms(1,4) make_transport_ready [OF assms(5,6)] then_body
        sleep_for_def op_simps destroy_idle f)
  then show ?thesis
    using drop object_datagrams_not_Nil by (intro exI [of _ ?ms] exI conjI) (assumption | simp)+
qed

text \<open>The subscribing mode of \<^verbatim>\<open>reallyTest\<close> subscribes to the 96-bit prefix of the name and unsubscribes
  again; the namespace contains the name. When an object published by the other mode reaches
  its delegate, printing it is undefined: the text has no null byte and the delegate prints up to one.\<close>

lemma reallyTest_subscriber:
  assumes "Name_of_hex arg = Inr name" and "reallyTest_relay relayVar portVar = Inr r"
    and "status 0 \<noteq> TS_Connecting" and "status 1 = TS_Ready" and "c_bytes text \<noteq> []"
  shows "\<exists>ns c. mk_Namespace name 96 = Inr ns \<and> contains ns name = Inr True \<and>
    reallyTest_main [prog, arg] relayVar portVar status ctx stream env tid sd [] [] [] = Some (Inr (Finished 0 r c)) \<and>
    events c = [Enqueue ctx stream (enc_Subscribe \<lparr>s_version = 1, s_transaction_id = tid, s_namespace = ns, s_intent = immediate\<rparr>),
      Enqueue ctx stream (enc_Unsubscribe \<lparr>u_version = 1, u_namespace = ns\<rparr>)] \<and>
    sub_delegates c = [(ns, sd)] \<and>
    subDelegate_onSubscribedObject name' (c_bytes text) = Inl undefined_behaviour"
proof -
  let ?c = "new_client ctx stream"
  obtain m where m: "prefix_mask 96 = Inr m" by (simp add: prefix_mask_ok)
  then obtain ns where ns: "mk_Namespace name 96 = Inr ns" and "ns = \<lparr>ns_name = Name_and name m, sig_bits = 96\<rparr>"
    by (simp add: mk_Namespace_def)
  with m have cont: "contains ns name = Inr True" by (simp add: contains_def Name_eq_def)
  note wf = mk_Namespace_wf [OF ns]
  have body: "reallyTest_body env tid sd name [] [] [] ?c = (Inr (), (session_subscriber ctx stream tid sd ns
      [Enqueue ctx stream (enc_Subscribe \<lparr>s_version = 1, s_transaction_id = tid, s_namespace = ns, s_intent = immediate\<rparr>),
      Enqueue ctx stream (enc_Unsubscribe \<lparr>u_version = 1, u_namespace = ns\<rparr>)])\<lparr>subscribe_state := []\<rparr>)"
    using ns subscribe_run [OF new_client_inv wf immediate_named, of env tid sd ctx stream]
    by (simp add: reallyTest_body_def sleep_for_def op_simps unsubscribe_run [OF wf] session_subscriber_def new_client_def
        map_emplace_def map_has_def ns_order.irrefl)
  note then_body = op_then_Inr [where m = "reallyTest_body env tid sd name [] [] []", OF body]
  have "reallyTest_main [prog, arg] relayVar portVar status ctx stream env tid sd [] [] [] =
    Some (Inr (Finished 0 r ((session_subscriber ctx stream tid sd ns
      [Enqueue ctx stream (enc_Subscribe \<lparr>s_version = 1, s_transaction_id = tid, s_namespace = ns, s_intent = immediate\<rparr>),
      Enqueue ctx stream (enc_Unsubscribe \<lparr>u_version = 1, u_namespace = ns\<rparr>)])\<lparr>subscribe_state := []\<rparr>)))"
    by (simp add: reallyTest_main_def assms(1,2) make_transport_ready [OF assms(3,4)] then_body
        sleep_for_def op_simps destroy_idle)
  moreover have "subDelegate_onSubscribedObject name' (c_bytes text) = Inl undefined_behaviour"
    using assms(5) c_bytes_nonzero by (simp add: subDelegate_onSubscribedObject_def Let_def)
  ultimately show ?thesis using ns cont by (intro exI conjI) (assumption | simp add: session_subscriber_def)+
qed

section \<open>Samples\<close>

lemma sample_args:
  "Name_of_hex ''FF0001'' = Inr (Name 0 0xFF0001)" "Name_of_hex ''FF0000'' = Inr (Name 0 0xFF0000)"
  "reallyTest_relay None (Some ''4433'') = Inr \<lparr>hostname = ''127.0.0.1'', port = 4433, proto = QUIC\<rparr>"
  "c_bytes ''pub'' = [112, 117, 98]"
  by code_simp+

lemma reallyTest_publisher_dropped_witness:
  "\<exists>ms c. reallyTest_main [''reallyTest'', ''FF0001'', ''pub''] None (Some ''4433'') (\<lambda>_. TS_Ready) 1 2 sample_env 5 0 [] [] [] =
      Some (Inr (Finished 0 \<lparr>hostname = ''127.0.0.1'', port = 4433, proto = QUIC\<rparr> c)) \<and>
    events c = map (Enqueue 1 2) ms \<and> ms \<noteq> [] \<and>
    op_for ms (server_handle (really_delegate mk_Namespace) 3 30) relay_one = (Inr (), relay_one)"
proof -
  have "publish_namespace_found (Name 0 0xFF0001) (sv_publish_namespaces relay_one) = Inr False"
    by (simp add: relay_one_def new_relay_fields)
  from reallyTest_publisher_dropped [OF sample_args(1) _ _ sample_args(3) _ _ _ _ this, of "''pub''" "\<lambda>_. TS_Ready" sample_env 1 2]
  show ?thesis by (simp add: sample_args(4) sample_env_def)
qed

lemma reallyTest_subscriber_witness:
  "\<exists>ns c. mk_Namespace (Name 0 0xFF0000) 96 = Inr ns \<and>
    reallyTest_main [''reallyTest'', ''FF0000''] None (Some ''4433'') (\<lambda>_. TS_Ready) 1 2 sample_env 5 0 [] [] [] =
      Some (Inr (Finished 0 \<lparr>hostname = ''127.0.0.1'', port = 4433, proto = QUIC\<rparr> c)) \<and>
    sub_delegates c = [(ns, 0)] \<and>
    subDelegate_onSubscribedObject (Name 0 0xFF0001) (c_bytes ''pub'') = Inl undefined_behaviour"
  using reallyTest_subscriber [OF sample_args(2,3), of "\<lambda>_. TS_Ready" "''pub''" "''reallyTest''" 1 2 sample_env 5 0 "Name 0 0xFF0001"]
  by (simp add: sample_args(4)) blast

end
