(* ===== verification/Test_Logger.thy ===== *)
theory Test_Logger
  imports Cpp_Strings
begin

text \<open>
  \<^verbatim>\<open>testLogger\<close>, the log handler of the relay and of the test program (\<^verbatim>\<open>cmd/really/testLogger.cpp\<close>): the line that
  a call writes to the console. The clock and the conversion to local time are parameters; the
  mutex makes the calls of several threads a sequence. Lines have fixed columns and a
  log splits into its calls again.
\<close>

datatype LogLevel = LL_fatal | LL_error | LL_warn | LL_info | LL_debug

definition testLogger_label :: "LogLevel \<Rightarrow> string" where
  "testLogger_label level =
     (case level of LL_fatal \<Rightarrow> ''FATAL'' | LL_error \<Rightarrow> ''ERROR'' | LL_warn \<Rightarrow> ''WARN''
      | LL_debug \<Rightarrow> ''DEBUG'' | _ \<Rightarrow> ''INFO'')"

text \<open>What \<^verbatim>\<open>std::localtime\<close> returns, for dates from 1900 on.\<close>

record tm =
  tm_sec :: nat
  tm_min :: nat
  tm_hour :: nat
  tm_mday :: nat
  tm_mon :: nat
  tm_year :: nat

text \<open>\<^verbatim>\<open>std::setfill\<close> and \<^verbatim>\<open>std::setw\<close> with the default adjustment, to the right.\<close>

definition padded :: "char \<Rightarrow> nat \<Rightarrow> string \<Rightarrow> string" where
  "padded fill width s = replicate (width - length s) fill @ s"

definition two_digits :: "nat \<Rightarrow> string" where
  "two_digits n = padded (CHR ''0'') 2 (dec_string n)"

text \<open>\<^verbatim>\<open>std::put_time\<close> with the format \<^verbatim>\<open>%m-%d-%Y %H:%M:%S\<close>.\<close>

definition put_time :: "tm \<Rightarrow> string" where
  "put_time t =
     two_digits (tm_mon t + 1) @ ''-'' @ two_digits (tm_mday t) @ ''-'' @ dec_string (tm_year t + 1900) @ '' '' @
     two_digits (tm_hour t) @ '':'' @ two_digits (tm_min t) @ '':'' @ two_digits (tm_sec t)"

text \<open>A call of \<open>log\<close>: \<open>us\<close> is the clock in microseconds since the epoch and \<open>localtime\<close> the conversion of seconds.\<close>

definition testLogger_log :: "(nat \<Rightarrow> tm) \<Rightarrow> nat \<Rightarrow> LogLevel \<Rightarrow> string \<Rightarrow> string" where
  "testLogger_log localtime us level msg =
     put_time (localtime (us div 1000000)) @ ''.'' @ padded (CHR ''0'') 6 (dec_string (us mod 1000000)) @
     '' '' @ padded (CHR '' '') 6 (testLogger_label level) @ '' | '' @ msg @ [CHR 0x0A]"

definition tm_ok :: "tm \<Rightarrow> bool" where
  "tm_ok t \<longleftrightarrow> tm_sec t \<le> 60 \<and> tm_min t < 60 \<and> tm_hour t < 24 \<and> tm_mday t \<le> 31 \<and> tm_mon t < 12 \<and> tm_year t < 8100"

lemma length_padded: "length (padded fill w s) = max w (length s)"
  by (simp add: padded_def)

lemma length_two_digits: "n < 100 \<Longrightarrow> length (two_digits n) = 2"
  using length_dec_string [of n 1] by (simp add: two_digits_def length_padded)

lemma length_year: "1000 \<le> n \<Longrightarrow> n < 10000 \<Longrightarrow> length (dec_string n) = 4"
  using length_dec_string [of n 2] length_dec_string [of n 3] by simp

lemma length_put_time: "tm_ok t \<Longrightarrow> length (put_time t) = 19"
  by (simp add: put_time_def tm_ok_def length_two_digits length_year)

lemma length_label: "length (testLogger_label level) \<le> 6"
  by (cases level) (simp_all add: testLogger_label_def)

text \<open>Every line has the same columns: date and time, microseconds, the label in six and the text from the
  36th on, so that a reader of the log finds level and text in fixed places.\<close>

lemma testLogger_columns:
  fixes localtime us level msg
  assumes "tm_ok (localtime (us div 1000000))"
  defines "line \<equiv> testLogger_log localtime us level msg"
  shows "take 19 line = put_time (localtime (us div 1000000))"
    and "take 6 (drop 20 line) = padded (CHR ''0'') 6 (dec_string (us mod 1000000))"
    and "take 6 (drop 27 line) = padded (CHR '' '') 6 (testLogger_label level)"
    and "drop 36 line = msg @ [CHR 0x0A]"
proof -
  have "length (dec_string (us mod 1000000)) \<le> 6" using length_dec_string [of "us mod 1000000" 5] by simp
  then have "length (padded (CHR ''0'') 6 (dec_string (us mod 1000000))) = 6" by (simp add: length_padded)
  moreover have "length (padded (CHR '' '') 6 (testLogger_label level)) = 6"
    using length_label [of level] by (simp add: length_padded)
  ultimately show "take 19 line = put_time (localtime (us div 1000000))"
    "take 6 (drop 20 line) = padded (CHR ''0'') 6 (dec_string (us mod 1000000))"
    "take 6 (drop 27 line) = padded (CHR '' '') 6 (testLogger_label level)"
    "drop 36 line = msg @ [CHR 0x0A]"
    using length_put_time [OF assms(1)] by (simp_all add: line_def testLogger_log_def drop_Cons')
qed

text \<open>The lines of a log that several threads write, one call of \<open>log\<close> at a time under the mutex: when no text has a
  line break, the file splits into the calls again.\<close>

type_synonym log_call = "nat \<times> LogLevel \<times> string"

definition log_file :: "(nat \<Rightarrow> tm) \<Rightarrow> log_call list \<Rightarrow> string" where
  "log_file localtime calls = concat (map (\<lambda>(us, level, msg). testLogger_log localtime us level msg) calls)"

fun lines_of :: "string \<Rightarrow> string \<Rightarrow> string list" where
  "lines_of acc [] = (if acc = [] then [] else [acc])"
| "lines_of acc (c # cs) = (if c = CHR 0x0A then acc # lines_of [] cs else lines_of (acc @ [c]) cs)"

lemma lines_of_line: "CHR 0x0A \<notin> set s \<Longrightarrow> lines_of acc (s @ CHR 0x0A # rest) = (acc @ s) # lines_of [] rest"
  by (induction s arbitrary: acc) auto

lemma digits_no_break: "CHR 0x0A \<notin> set (dec_string n)"
  using dec_string_digits [of n] by (auto simp: list_all_iff is_digit_def)

lemma log_prefix_no_break:
  "CHR 0x0A \<notin> set msg \<Longrightarrow> \<exists>s. testLogger_log localtime us level msg = s @ [CHR 0x0A] \<and> CHR 0x0A \<notin> set s"
  by (rule exI [of _ "butlast (testLogger_log localtime us level msg)"], cases level)
    (simp_all add: testLogger_log_def put_time_def two_digits_def padded_def digits_no_break testLogger_label_def butlast_append)

lemma log_file_lines:
  assumes "list_all (\<lambda>(us, level, msg). CHR 0x0A \<notin> set msg) calls"
  shows "lines_of [] (log_file localtime calls) = map (\<lambda>(us, level, msg). butlast (testLogger_log localtime us level msg)) calls"
  using assms
proof (induction calls)
  case (Cons call calls)
  obtain us level msg where call: "call = (us, level, msg)" by (cases call)
  with Cons.prems log_prefix_no_break [of msg localtime us level] obtain s
    where "testLogger_log localtime us level msg = s @ [CHR 0x0A]" "CHR 0x0A \<notin> set s" by auto
  with Cons show ?case by (simp add: call log_file_def lines_of_line)
qed (simp add: log_file_def)

end
