(* ===== verification/Queue_Loop.thy ===== *)
theory Queue_Loop
  imports Prelude
begin

text \<open>
  The loops of the command-line programs that read a queue until they are told to stop. In each pass things may
  arrive; the loop ends, finds nothing, or takes the first element and shows it. The locale states these laws of a
  loop and proves once that such a loop shows what arrives first in, first out; the chat client and the reader of
  \<^verbatim>\<open>forty\<close> are its instances.
\<close>

locale queue_loop =
  fixes wf :: "'s \<Rightarrow> bool" and running :: "'s \<Rightarrow> bool" and queue :: "'s \<Rightarrow> 'a list"
    and arrives :: "'r \<Rightarrow> 'a list" and halts :: "'r \<Rightarrow> bool" and prints :: "'a \<Rightarrow> 'o list"
    and loop :: "'r list \<Rightarrow> 's \<Rightarrow> 'o list \<times> 's"
  assumes loop_Nil: "loop [] s = ([], s)"
    and loop_halt: "wf s \<Longrightarrow> \<not> running s \<or> halts r \<Longrightarrow>
      \<exists>s'. wf s' \<and> queue s' = queue s @ arrives r \<and> loop (r # rs) s = ([], s')"
    and loop_empty: "wf s \<Longrightarrow> running s \<Longrightarrow> \<not> halts r \<Longrightarrow> queue s @ arrives r = [] \<Longrightarrow>
      \<exists>s'. wf s' \<and> running s' \<and> queue s' = [] \<and> loop (r # rs) s = loop rs s'"
    and loop_take: "wf s \<Longrightarrow> running s \<Longrightarrow> \<not> halts r \<Longrightarrow> queue s @ arrives r = d # ds \<Longrightarrow>
      \<exists>s'. wf s' \<and> running s' \<and> queue s' = ds \<and>
        loop (r # rs) s = (prints d @ fst (loop rs s'), snd (loop rs s'))"
begin

text \<open>What has arrived in the first \<open>m\<close> passes, after what was queued at the start.\<close>

abbreviation (input) seen :: "'s \<Rightarrow> 'r list \<Rightarrow> nat \<Rightarrow> 'a list" where
  "seen s rounds m \<equiv> queue s @ concat (map arrives (take m rounds))"

lemma loop_fifo:
  assumes "wf s" and "loop rounds s = (out, s')"
  shows "\<exists>k m. m \<le> length rounds \<and> out = concat (map prints (take k (seen s rounds m))) \<and>
    queue s' = drop k (seen s rounds m) \<and>
    (running s \<and> list_all (\<lambda>r. \<not> halts r) rounds \<longrightarrow>
       m = length rounds \<and> min (length (queue s)) (length rounds) \<le> k) \<and> wf s'"
  using assms
proof (induction rounds arbitrary: s out)
  case Nil
  then show ?case by (intro exI [of _ 0]) (simp add: loop_Nil)
next
  case (Cons r rounds)
  consider (halt) "\<not> running s \<or> halts r"
    | (empty) "running s" "\<not> halts r" "queue s @ arrives r = []"
    | (some) d ds where "running s" "\<not> halts r" "queue s @ arrives r = d # ds"
    by (cases "queue s @ arrives r") auto
  then show ?case
  proof cases
    case halt
    from loop_halt [OF Cons.prems(1) halt, of rounds] Cons.prems(2) halt show ?thesis
      by (intro exI [of _ 0] exI [of _ 1]) auto
  next
    case empty
    from loop_empty [OF Cons.prems(1) empty, of rounds] obtain t
      where t: "wf t" "running t" "queue t = []" "loop rounds t = (out, s')" using Cons.prems(2) by auto
    from Cons.IH [OF t(1,4)] t(2,3) obtain k m where "m \<le> length rounds"
      "out = concat (map prints (take k (concat (map arrives (take m rounds)))))"
      "queue s' = drop k (concat (map arrives (take m rounds)))"
      "list_all (\<lambda>r. \<not> halts r) rounds \<longrightarrow> m = length rounds" "wf s'" by auto
    with empty show ?thesis by (intro exI [of _ k] exI [of _ "Suc m"]) simp
  next
    case some
    from loop_take [OF Cons.prems(1) some, of rounds] obtain t out1
      where t: "wf t" "running t" "queue t = ds" "loop rounds t = (out1, s')" and out: "out = prints d @ out1"
      using Cons.prems(2) by (metis prod.collapse prod.inject)
    from Cons.IH [OF t(1,4)] t(2,3) obtain k m where IH: "m \<le> length rounds"
      "out1 = concat (map prints (take k (ds @ concat (map arrives (take m rounds)))))"
      "queue s' = drop k (ds @ concat (map arrives (take m rounds)))"
      "list_all (\<lambda>r. \<not> halts r) rounds \<longrightarrow> m = length rounds \<and> min (length ds) (length rounds) \<le> k" "wf s'" by auto
    have all: "seen s (r # rounds) (Suc m) = d # ds @ concat (map arrives (take m rounds))"
      using some(3) by (metis append_Cons append_assoc concat.simps(2) list.map(2) take_Suc_Cons)
    have "length (queue s) \<le> Suc (length ds)" using arg_cong [OF some(3), of length] by simp
    with IH(4) have "list_all (\<lambda>r. \<not> halts r) (r # rounds) \<longrightarrow>
        Suc m = length (r # rounds) \<and> min (length (queue s)) (length (r # rounds)) \<le> Suc k" by auto
    moreover have "out = concat (map prints (take (Suc k) (seen s (r # rounds) (Suc m))))"
      "queue s' = drop (Suc k) (seen s (r # rounds) (Suc m))" unfolding all using IH(2,3) out by simp_all
    moreover have "Suc m \<le> length (r # rounds)" using IH(1) by simp
    ultimately show ?thesis using IH(5) by blast
  qed
qed

end

lemma concat_map_nonempty:
  "concat (map (\<lambda>d. if P d then [f d] else []) xs) = map f (filter P xs)"
  by (induction xs) simp_all

end
