(* ===== verification/Chatty.thy ===== *)
theory Chatty
  imports Cpp_Strings State_Ops Queue_Loop
begin

text \<open>
  The chat program \<^verbatim>\<open>cmd/chatty\<close>: the delegate with its queue of byte strings for each channel
  (\<^verbatim>\<open>ChannelMsgDelegate\<close>), \<^verbatim>\<open>Message\<close>, \<^verbatim>\<open>ChatClient\<close> and \<^verbatim>\<open>main\<close>. The program is written against an earlier
  interface of the client library (names are strings, \<^verbatim>\<open>register_names\<close> announces a publisher), which
  the repository no longer has: its calls are recorded in the order they are made and nothing is assumed of them. The
  constructor of \<^verbatim>\<open>ChatClient\<close> leaves the host and the port to that library; log lines are left out.
  The locks protect the queues and the receive loop, so each operation below is one step.
\<close>

section \<open>The delegate: a queue for each channel\<close>

type_synonym byte_queues = "(string \<times> bytes list) list"

definition ChannelMsgDelegate_Receive :: "string \<Rightarrow> byte_queues \<Rightarrow> bytes \<times> byte_queues" where
  "ChannelMsgDelegate_Receive channel received_byte_queues =
     (case map_find string_lt channel received_byte_queues of
        None \<Rightarrow> ([], received_byte_queues)
      | Some [] \<Rightarrow> ([], received_byte_queues)
      | Some (data # queue) \<Rightarrow>
          (data, if queue = [] then map_erase string_lt channel received_byte_queues
                 else map_set string_lt channel queue received_byte_queues))"

definition ChannelMsgDelegate_on_data_arrived :: "string \<Rightarrow> bytes \<Rightarrow> byte_queues \<Rightarrow> byte_queues" where
  "ChannelMsgDelegate_on_data_arrived name data received_byte_queues =
     map_set string_lt name (map_get string_lt [] name received_byte_queues @ [data]) received_byte_queues"

text \<open>\<^verbatim>\<open>Message::operator()\<close>: the characters of the text; the sender is not part of it.\<close>

record Message =
  sender :: string
  msg_data :: string

definition Message_bytes :: "Message \<Rightarrow> bytes" where
  "Message_bytes m = string_bytes (msg_data m)"

text \<open>The handler \<^verbatim>\<open>main\<close> installs as \<^verbatim>\<open>OnReceive\<close>: the line it prints.\<close>

definition shown_text :: "bytes \<Rightarrow> string" where
  "shown_text data = bytes_string data"

section \<open>The chat client\<close>

text \<open>The calls of the client library are those of an earlier version of it, which the repository does not
  have: they are recorded in order.\<close>

datatype library_call =
    register_names "string list" bool
  | unregister_names "string list"
  | lib_subscribe "string list" bool bool
  | lib_unsubscribe "string list"
  | publish_named_data string bytes u64 u64

record ChatClient =
  chat_done :: bool
  has_delegate :: bool
  has_client :: bool
  username :: string
  active_channel :: string
  chat_queues :: byte_queues
  calls :: "library_call list"

definition new_ChatClient :: ChatClient where
  "new_ChatClient = \<lparr>chat_done = False, has_delegate = True, has_client = True, username = [],
     active_channel = [], chat_queues = [], calls = []\<rparr>"

definition library :: "library_call \<Rightarrow> (ChatClient, unit) op" where
  "library call = op_modify (\<lambda>c. c\<lparr>calls := calls c @ [call]\<rparr>)"

definition check_client :: "(ChatClient, unit) op" where
  "check_client =
     op_bind (op_get id) (\<lambda>c.
     if \<not> has_client c then op_lift (Inl runtime_error)
     else if \<not> has_delegate c then op_lift (Inl runtime_error)
     else op_return ())"

definition chat_Start :: "(ChatClient, unit) op" where
  "chat_Start = op_modify (\<lambda>c. c\<lparr>chat_done := False\<rparr>)"

definition chat_Login :: "string \<Rightarrow> (ChatClient, unit) op" where
  "chat_Login name =
     op_then check_client (
     op_then (op_modify (\<lambda>c. c\<lparr>username := name\<rparr>)) (
     op_bind (op_get username) (\<lambda>u.
     op_then (library (register_names [u] True)) chat_Start)))"

definition chat_Shutdown :: "(ChatClient, unit) op" where
  "chat_Shutdown =
     op_then (op_modify (\<lambda>c. c\<lparr>chat_done := True\<rparr>)) (
     op_bind (op_get username) (\<lambda>u. library (unregister_names [u])))"

definition chat_Send :: "string \<Rightarrow> (ChatClient, unit) op" where
  "chat_Send str =
     op_then check_client (
     op_bind (op_get id) (\<lambda>c.
     if active_channel c = [] then op_return ()
     else library (publish_named_data (active_channel c)
       (Message_bytes \<lparr>sender = username c, msg_data = str\<rparr>) 0 0)))"

definition chat_Join :: "string \<Rightarrow> (ChatClient, unit) op" where
  "chat_Join channel =
     op_bind (op_get active_channel) (\<lambda>old.
     op_then (op_when (old \<noteq> []) (library (unregister_names [old]))) (
     op_then (op_modify (\<lambda>c. c\<lparr>active_channel := channel\<rparr>))
       (library (register_names [channel] True))))"

definition chat_Subscribe :: "string list \<Rightarrow> (ChatClient, unit) op" where
  "chat_Subscribe channels = op_then check_client (library (lib_subscribe channels False False))"

definition chat_Unsubscribe :: "string list \<Rightarrow> (ChatClient, unit) op" where
  "chat_Unsubscribe channels = op_then check_client (library (lib_unsubscribe channels))"

definition chat_GetChannels :: "(ChatClient, string list) op" where
  "chat_GetChannels = op_bind check_client (\<lambda>_. op_return [])"

text \<open>The receive loop. A round is what happens before the loop condition is evaluated again: data that
  arrives, and whether \<^verbatim>\<open>Shutdown\<close> runs. The list of rounds is the part of the run that is looked
  at; the first component of the result is what \<^verbatim>\<open>OnReceive\<close> is called with, when it is set.\<close>

record round =
  arrivals :: "(string \<times> bytes) list"
  shuts_down :: bool

definition arrive :: "round \<Rightarrow> ChatClient \<Rightarrow> ChatClient" where
  "arrive r c =
     (let c = c\<lparr>chat_queues := fold (\<lambda>(n, d). ChannelMsgDelegate_on_data_arrived n d) (arrivals r) (chat_queues c)\<rparr>
      in if shuts_down r then snd (chat_Shutdown c) else c)"

fun receive_rounds :: "bool \<Rightarrow> round list \<Rightarrow> ChatClient \<Rightarrow> (string \<times> bytes) list \<times> ChatClient" where
  "receive_rounds has_OnReceive [] c = ([], c)"
| "receive_rounds has_OnReceive (r # rounds) c =
     (let c = arrive r c in
      if chat_done c then ([], c)
      else
        let (data, queues) = ChannelMsgDelegate_Receive (active_channel c) (chat_queues c);
            c' = c\<lparr>chat_queues := queues\<rparr>;
            (out, c'') = receive_rounds has_OnReceive rounds c' in
        if data = [] then (out, c'')
        else ((if has_OnReceive then [(active_channel c, data)] else []) @ out, c''))"

definition ReceiveLoop :: "bool \<Rightarrow> round list \<Rightarrow> (ChatClient, (string \<times> bytes) list) op" where
  "ReceiveLoop has_OnReceive rounds =
     op_bind check_client (\<lambda>_ c. let (out, c') = receive_rounds has_OnReceive rounds c in (Inr out, c'))"

text \<open>\<^verbatim>\<open>main\<close> up to the threads, for a command line of the right length.\<close>

definition chat_channels :: "string list" where
  "chat_channels = [''Team1'', ''Team2'', ''Team3'', ''Team4'']"

definition chat_main :: "string list \<Rightarrow> string \<Rightarrow> (int, unit res \<times> ChatClient) sum" where
  "chat_main argv typed =
     (if length argv \<noteq> 4 then Inl (- 1)
      else Inr (op_then (chat_Login (argv ! 3)) (
                op_then (chat_Subscribe chat_channels) (
                op_then (chat_Join (chat_channels ! 0))
                  (chat_Send typed))) new_ChatClient))"

section \<open>First in, first out\<close>

definition queues_wf :: "byte_queues \<Rightarrow> bool" where
  "queues_wf m \<longleftrightarrow> map_wf string_lt m \<and> list_all (\<lambda>e. snd e \<noteq> []) m"

definition queue_of :: "byte_queues \<Rightarrow> string \<Rightarrow> bytes list" where
  "queue_of m channel = map_get string_lt [] channel m"

lemma queues_wf_new: "queues_wf []"
  by (simp add: queues_wf_def)

lemma on_data_arrived_refines:
  assumes "queues_wf m"
  shows "queues_wf (ChannelMsgDelegate_on_data_arrived n d m)"
    and "queue_of (ChannelMsgDelegate_on_data_arrived n d m) = (queue_of m)(n := queue_of m n @ [d])"
  using assms
  by (auto simp: queues_wf_def ChannelMsgDelegate_on_data_arrived_def queue_of_def fun_eq_iff map_get_def
      string_order.find_set string_order.eqv_iff_eq string_order.wf_set intro!: string_order.list_all_set_total)

lemma Receive_refines:
  assumes "queues_wf m"
  shows "queues_wf (snd (ChannelMsgDelegate_Receive n m))"
    and "fst (ChannelMsgDelegate_Receive n m) = (case queue_of m n of [] \<Rightarrow> [] | d # _ \<Rightarrow> d)"
    and "queue_of (snd (ChannelMsgDelegate_Receive n m)) = (queue_of m)(n := tl (queue_of m n))"
proof -
  have wf: "map_wf string_lt m" and ne: "list_all (\<lambda>e. snd e \<noteq> []) m" using assms by (simp_all add: queues_wf_def)
  show "queues_wf (snd (ChannelMsgDelegate_Receive n m))"
    using wf ne by (auto simp: queues_wf_def ChannelMsgDelegate_Receive_def string_order.wf_set string_order.wf_erase
        list_all_erase intro!: string_order.list_all_set_total split: option.split list.split)
  show "fst (ChannelMsgDelegate_Receive n m) = (case queue_of m n of [] \<Rightarrow> [] | d # _ \<Rightarrow> d)"
    by (simp add: ChannelMsgDelegate_Receive_def queue_of_def map_get_def split: option.split list.split)
  show "queue_of (snd (ChannelMsgDelegate_Receive n m)) = (queue_of m)(n := tl (queue_of m n))"
    using wf by (auto simp: ChannelMsgDelegate_Receive_def queue_of_def fun_eq_iff map_get_def string_order.find_set
        string_order.find_erase string_order.eqv_iff_eq split: option.split list.split)
qed

definition arrived_on :: "string \<Rightarrow> round list \<Rightarrow> bytes list" where
  "arrived_on channel rounds = map snd (filter (\<lambda>e. fst e = channel) (concat (map arrivals rounds)))"

lemma arrive_refines:
  assumes "queues_wf (chat_queues c)"
  shows "queues_wf (chat_queues (arrive r c))"
    and "queue_of (chat_queues (arrive r c)) n = queue_of (chat_queues c) n @ arrived_on n [r]"
    and "active_channel (arrive r c) = active_channel c" and "chat_done (arrive r c) \<longleftrightarrow> chat_done c \<or> shuts_down r"
proof -
  have "queues_wf (fold (\<lambda>(n, d). ChannelMsgDelegate_on_data_arrived n d) es m) \<and>
      queue_of (fold (\<lambda>(n, d). ChannelMsgDelegate_on_data_arrived n d) es m) n =
        queue_of m n @ map snd (filter (\<lambda>e. fst e = n) es)" if "queues_wf m" for es m
    using that by (induction es arbitrary: m) (auto simp: on_data_arrived_refines)
  with assms show "queues_wf (chat_queues (arrive r c))"
    and "queue_of (chat_queues (arrive r c)) n = queue_of (chat_queues c) n @ arrived_on n [r]"
    by (simp_all add: arrive_def Let_def chat_Shutdown_def library_def op_simps arrived_on_def)
qed (simp_all add: arrive_def Let_def chat_Shutdown_def library_def op_simps)

text \<open>One pass of the loop that is not told to stop.\<close>

lemma receive_pass:
  assumes "queues_wf (chat_queues c)" and "active_channel c = ch" and "\<not> chat_done c" and "\<not> shuts_down r"
  shows "\<exists>c'. queues_wf (chat_queues c') \<and> active_channel c' = ch \<and> \<not> chat_done c' \<and>
    queue_of (chat_queues c') ch = tl (queue_of (chat_queues c) ch @ arrived_on ch [r]) \<and>
    receive_rounds True (r # rs) c =
      ((case queue_of (chat_queues c) ch @ arrived_on ch [r] of [] \<Rightarrow> [] | d # _ \<Rightarrow> if d \<noteq> [] then [(ch, d)] else []) @
         fst (receive_rounds True rs c'), snd (receive_rounds True rs c'))"
proof -
  note a = arrive_refines [OF assms(1), of r]
  obtain data queues where rcv: "ChannelMsgDelegate_Receive ch (chat_queues (arrive r c)) = (data, queues)" by fastforce
  note R = Receive_refines [OF a(1), of ch, unfolded rcv fst_conv snd_conv a(2)]
  have data: "(case queue_of (chat_queues c) ch @ arrived_on ch [r] of [] \<Rightarrow> [] | d # _ \<Rightarrow> if d \<noteq> [] then [(ch, d)] else []) =
      (if data = [] then [] else [(ch, data)])"
    using R(2) by (auto split: list.splits)
  show ?thesis
    unfolding data using R(1,3) a(3,4) assms(2-4) rcv
    by (intro exI [of _ "(arrive r c)\<lparr>chat_queues := queues\<rparr>"]) (auto simp: Let_def split: prod.split)
qed

lemma concat_arrived_on: "concat (map (\<lambda>r. arrived_on ch [r]) rounds) = arrived_on ch rounds"
  by (induction rounds) (simp_all add: arrived_on_def)

interpretation chat_loop: queue_loop
  "\<lambda>c. queues_wf (chat_queues c) \<and> active_channel c = ch" "\<lambda>c. \<not> chat_done c" "\<lambda>c. queue_of (chat_queues c) ch"
  "\<lambda>r. arrived_on ch [r]" shuts_down "\<lambda>d. if d \<noteq> [] then [(ch, d)] else []" "receive_rounds True" for ch
proof
  fix c :: ChatClient and r :: round and rs
  assume c: "queues_wf (chat_queues c) \<and> active_channel c = ch" and "\<not> \<not> chat_done c \<or> shuts_down r"
  then show "\<exists>c'. (queues_wf (chat_queues c') \<and> active_channel c' = ch) \<and>
      queue_of (chat_queues c') ch = queue_of (chat_queues c) ch @ arrived_on ch [r] \<and> receive_rounds True (r # rs) c = ([], c')"
    by (intro exI [of _ "arrive r c"]) (simp add: arrive_refines Let_def)
next
  fix c :: ChatClient and r :: round and rs
  assume c: "queues_wf (chat_queues c) \<and> active_channel c = ch" "\<not> chat_done c" "\<not> shuts_down r"
    and "queue_of (chat_queues c) ch @ arrived_on ch [r] = []"
  with receive_pass [of c ch r rs] show "\<exists>c'. (queues_wf (chat_queues c') \<and> active_channel c' = ch) \<and> \<not> chat_done c' \<and>
      queue_of (chat_queues c') ch = [] \<and> receive_rounds True (r # rs) c = receive_rounds True rs c'"
    by fastforce
next
  fix c :: ChatClient and r :: round and rs d ds
  assume c: "queues_wf (chat_queues c) \<and> active_channel c = ch" "\<not> chat_done c" "\<not> shuts_down r"
    and "queue_of (chat_queues c) ch @ arrived_on ch [r] = d # ds"
  with receive_pass [of c ch r rs] show "\<exists>c'. (queues_wf (chat_queues c') \<and> active_channel c' = ch) \<and> \<not> chat_done c' \<and>
      queue_of (chat_queues c') ch = ds \<and> receive_rounds True (r # rs) c =
        ((if d \<noteq> [] then [(ch, d)] else []) @ fst (receive_rounds True rs c'), snd (receive_rounds True rs c'))"
    by fastforce
qed simp

text \<open>C38. The receive loop is a first-in-first-out reader of its channel: what it hands out on the active
  channel is a prefix of what was queued and what arrived there, in order, without the empty
  objects, which it cannot tell from an empty queue; what is left in the queue is the rest. Without a
  shutdown every round takes one of the objects that were queued at the start, until none is left.\<close>

theorem chat_receive_fifo:
  assumes "has_client c" and "has_delegate c" and "queues_wf (chat_queues c)"
    and "ReceiveLoop True rounds c = (r, c')"
  shows "\<exists>out k m. r = Inr out \<and> m \<le> length rounds \<and> out = map (\<lambda>d. (active_channel c, d))
      (filter (\<lambda>d. d \<noteq> []) (take k (queue_of (chat_queues c) (active_channel c) @ arrived_on (active_channel c) (take m rounds)))) \<and>
    queue_of (chat_queues c') (active_channel c) =
      drop k (queue_of (chat_queues c) (active_channel c) @ arrived_on (active_channel c) (take m rounds)) \<and>
    (\<not> chat_done c \<and> list_all (\<lambda>r. \<not> shuts_down r) rounds \<longrightarrow>
       m = length rounds \<and> min (length (queue_of (chat_queues c) (active_channel c))) (length rounds) \<le> k) \<and>
    queues_wf (chat_queues c')"
proof -
  obtain out where out: "receive_rounds True rounds c = (out, c')" "r = Inr out"
    using assms by (auto simp: ReceiveLoop_def check_client_def op_simps split: prod.splits)
  from chat_loop.loop_fifo [OF _ out(1), of "active_channel c"] assms(3) show ?thesis
    unfolding concat_arrived_on concat_map_nonempty out(2) by fastforce
qed

text \<open>A chat message is shown as it was typed: the bytes that \<^verbatim>\<open>Send\<close> publishes on the channel \<^verbatim>\<open>main\<close> joins
  are the characters of the text, and the handler that \<^verbatim>\<open>main\<close> installs prints them back; the program
  registers the user's name and the channel, subscribes to the four channels, and in this order.\<close>

lemma chat_session:
  assumes "length argv = 4"
  shows "\<exists>c bytes. chat_main argv typed = Inr (Inr (), c) \<and>
    calls c = [register_names [argv ! 3] True, lib_subscribe [''Team1'', ''Team2'', ''Team3'', ''Team4''] False False,
      register_names [''Team1''] True, publish_named_data ''Team1'' bytes 0 0] \<and>
    shown_text bytes = typed \<and> active_channel c = ''Team1'' \<and> username c = argv ! 3"
  using assms by (simp add: chat_main_def chat_Login_def chat_Subscribe_def chat_Join_def chat_Send_def check_client_def
      chat_Start_def library_def new_ChatClient_def op_simps chat_channels_def shown_text_def Message_bytes_def)

section \<open>Samples\<close>

theorem chat_receive_fifo_witness:
  "\<exists>k. [(''Team1'', [7]), (''Team1'', [8, 9])] = map (\<lambda>d. (''Team1'', d)) (filter (\<lambda>d. d \<noteq> []) (take k [[7 :: u8], [], [8, 9]]))"
proof -
  let ?c = "new_ChatClient\<lparr>active_channel := ''Team1''\<rparr>"
  let ?r = "[\<lparr>arrivals = [(''Team1'', [7]), (''Team2'', [1])], shuts_down = False\<rparr>,
    \<lparr>arrivals = [(''Team1'', []), (''Team1'', [8, 9])], shuts_down = False\<rparr>, \<lparr>arrivals = [], shuts_down = False\<rparr>]"
  have run: "fst (ReceiveLoop True ?r ?c) = Inr [(''Team1'', [7]), (''Team1'', [8, 9])]" by code_simp
  have set: "has_client ?c" "has_delegate ?c" "queues_wf (chat_queues ?c)" by (simp_all add: new_ChatClient_def queues_wf_new)
  have empty: "active_channel ?c = ''Team1''" "queue_of (chat_queues ?c) ''Team1'' = []"
    and running: "\<not> chat_done ?c \<and> list_all (\<lambda>r. \<not> shuts_down r) ?r"
    by (simp_all add: new_ChatClient_def queue_of_def map_get_def)
  obtain r c' where out: "ReceiveLoop True ?r ?c = (r, c')" by (cases "ReceiveLoop True ?r ?c")
  have r: "r = Inr [(''Team1'', [7]), (''Team1'', [8, 9])]" using run unfolding out by simp
  have all: "arrived_on ''Team1'' (take (length ?r) ?r) = [[7], [], [8, 9]]" by (simp add: arrived_on_def)
  from chat_receive_fifo [OF set out, unfolded empty append_Nil] show ?thesis
  proof (elim exE conjE)
    fix o1 k m
    assume o: "r = Inr o1" "o1 = map (\<lambda>d. (''Team1'', d)) (filter (\<lambda>d. d \<noteq> []) (take k (arrived_on ''Team1'' (take m ?r))))"
      and m: "\<not> chat_done ?c \<and> list_all (\<lambda>r. \<not> shuts_down r) ?r \<longrightarrow>
        m = length ?r \<and> min (length ([] :: bytes list)) (length ?r) \<le> k"
    from m running have "m = length ?r" by blast
    with o r all have "[(''Team1'', [7]), (''Team1'', [8, 9])] = map (\<lambda>d. (''Team1'', d)) (filter (\<lambda>d. d \<noteq> []) (take k [[7 :: u8], [], [8, 9]]))"
      by (simp only: sum.inject)
    then show ?thesis by (rule exI)
  qed
qed

lemma chat_session_witness:
  "\<exists>c bytes. chat_main [''chat'', ''host'', ''1234'', ''me''] ''hello'' = Inr (Inr (), c) \<and> shown_text bytes = ''hello'' \<and>
     username c = ''me''"
  using chat_session [of "[''chat'', ''host'', ''1234'', ''me'']" "''hello''"] by auto

end
