(* ===== verification/Forty.thy ===== *)
theory Forty
  imports Cpp_Strings State_Ops Queue_Loop
begin

text \<open>
  The program \<^verbatim>\<open>cmd/forty/forty-bytes.cpp\<close>: the delegate with its queue, the loop that prints what arrives, the loop that
  publishes forty bytes at a time under consecutive group and object numbers, and \<^verbatim>\<open>main\<close>. Like
  \<^verbatim>\<open>chatty\<close> it is written against an earlier interface of the client library; its calls are recorded in the order they
  are made and nothing is assumed of them. \<^verbatim>\<open>SIGINT\<close> sets the flag \<^verbatim>\<open>done\<close> that both loops test: it ends the list
  of rounds or passes that is looked at. The wait for \<^verbatim>\<open>is_transport_ready\<close> lies between the calls of
  \<open>fr_setup\<close> and the loops.
\<close>

section \<open>The delegate\<close>

record Datum =
  dt_group_id :: u64
  dt_object_id :: u64
  dt_name :: string
  dt_data :: bytes

definition no_Datum :: Datum where
  "no_Datum = \<lparr>dt_group_id = 0, dt_object_id = 0, dt_name = [], dt_data = []\<rparr>"

definition Forty_on_data_arrived :: "string \<Rightarrow> bytes \<Rightarrow> u64 \<Rightarrow> u64 \<Rightarrow> Datum list \<Rightarrow> Datum list" where
  "Forty_on_data_arrived name data group_id object_id recv_q =
     recv_q @ [\<lparr>dt_group_id = group_id, dt_object_id = object_id, dt_name = name, dt_data = data\<rparr>]"

definition Forty_recv :: "Datum list \<Rightarrow> Datum \<times> Datum list" where
  "Forty_recv recv_q = (case recv_q of [] \<Rightarrow> (no_Datum, []) | data # rest \<Rightarrow> (data, rest))"

text \<open>\<^verbatim>\<open>to_hex\<close>: two digits of the stream's lower-case hexadecimal for every byte.\<close>

definition hex_digit :: "nat \<Rightarrow> char" where
  "hex_digit n = ''0123456789abcdef'' ! n"

definition to_hex :: "bytes \<Rightarrow> string" where
  "to_hex data = concat (map (\<lambda>b. [hex_digit (unat b div 16), hex_digit (unat b mod 16)]) data)"

section \<open>The read loop\<close>

text \<open>What the loop prints, with the queue it leaves. A round is what happens before the loop condition is evaluated
  again: data that arrives, and the interrupt that sets \<^verbatim>\<open>done\<close>. \<^verbatim>\<open>chat_mode\<close> is a global that the
  program never sets.\<close>

datatype line =
    chat_line string
  | chat_end string
  | datum_line string u64 u64 string

record read_round =
  rr_arrivals :: "(string \<times> bytes \<times> u64 \<times> u64) list"
  rr_interrupt :: bool

fun read_loop :: "bool \<Rightarrow> read_round list \<Rightarrow> string \<Rightarrow> Datum list \<Rightarrow> line list \<times> Datum list" where
  "read_loop chat_mode [] chat_message recv_q = ([], recv_q)"
| "read_loop chat_mode (r # rounds) chat_message recv_q =
     (let recv_q = fold (\<lambda>(n, d, g, i). Forty_on_data_arrived n d g i) (rr_arrivals r) recv_q in
      if rr_interrupt r then ([], recv_q)
      else
        let (datum, recv_q) = Forty_recv recv_q in
        if dt_data datum = [] then read_loop chat_mode rounds chat_message recv_q
        else if chat_mode then
          let msg = bytes_string (dt_data datum) in
          if msg = ''end'' then
            let (out, q) = read_loop chat_mode rounds [] recv_q in (chat_line chat_message # chat_end chat_message # out, q)
          else
            let (out, q) = read_loop chat_mode rounds (chat_message @ msg) recv_q in (chat_line chat_message # out, q)
        else
          let (out, q) = read_loop chat_mode rounds chat_message recv_q in
          (datum_line (dt_name datum) (dt_group_id datum) (dt_object_id datum) (to_hex (dt_data datum)) # out, q))"

section \<open>The send loop\<close>

datatype old_call =
    old_register "(string \<times> u64) list" bool
  | old_unregister "(string \<times> u64) list"
  | old_subscribe "(string \<times> u64) list" bool bool
  | old_unsubscribe "(string \<times> u64) list"
  | old_publish string bytes u64 u64 u8 u64

definition forty_bytes :: bytes where
  "forty_bytes = [0, 1, 2, 3, 4, 5, 6, 7, 8, 9, 0, 1, 2, 3, 4, 5, 6, 7, 8, 9,
                  0, 1, 2, 3, 4, 5, 6, 7, 8, 9, 0, 1, 2, 3, 4, 5, 6, 7, 8, 9]"

text \<open>\<^verbatim>\<open>group_id\<close> and \<^verbatim>\<open>object_id\<close> are \<^verbatim>\<open>int\<close>: adding past the largest one is undefined. They are
  converted to unsigned in the comparison with \<^verbatim>\<open>group_size\<close> and in the call. \<open>inputs\<close> has an element
  for every pass of the loop before the interrupt, the word read from the terminal in chat mode.\<close>

definition int_add :: "int \<Rightarrow> int \<Rightarrow> int res" where
  "int_add a b = (if is_int32 (a + b) then Inr (a + b) else Inl undefined_behaviour)"

fun send_passes :: "bool \<Rightarrow> string \<Rightarrow> u64 \<Rightarrow> string list \<Rightarrow> int \<Rightarrow> int \<Rightarrow> old_call list res" where
  "send_passes chat_mode name group_size [] group_id object_id = Inr []"
| "send_passes chat_mode name group_size (input # inputs) group_id object_id =
     rbind (if chat_mode then
              Inr (old_publish name (string_bytes (input @ ''end'')) (word_of_int group_id) (word_of_int object_id) 0 0, object_id)
            else
              rbind (int_add object_id 1) (\<lambda>next.
              Inr (old_publish name forty_bytes (word_of_int group_id) (word_of_int object_id) 0x81 0, next)))
       (\<lambda>(call, object_id).
     rbind (if word_of_int object_id \<ge> group_size then rbind (int_add group_id 1) (\<lambda>g. Inr (g, 0))
            else Inr (group_id, object_id)) (\<lambda>(group_id, object_id).
     rbind (send_passes chat_mode name group_size inputs group_id object_id) (\<lambda>calls.
     Inr (call # calls))))"

definition send_loop :: "bool \<Rightarrow> string \<Rightarrow> u64 \<Rightarrow> string list \<Rightarrow> old_call list res" where
  "send_loop chat_mode name group_size inputs =
     rbind (send_passes chat_mode name group_size inputs 0 0) (\<lambda>calls.
     Inr (calls @ [old_unregister [(name, 0)]]))"

section \<open>The main function\<close>

text \<open>How the program stops early, and what it does otherwise: the calls it makes before the transport is
  waited for, the loops it runs, and the calls it makes after them.\<close>

datatype stop =
    exit_with int
  | uncaught stoi_error
  | null_argument

datatype program_loop =
    Reader
  | Sender string u64 u64

record forty_run =
  fr_server :: string
  fr_port :: u16
  fr_setup :: "old_call list"
  fr_loops :: "program_loop list"
  fr_teardown :: "old_call list"

text \<open>\<^verbatim>\<open>argv[i]\<close> as the source of a string: a null pointer at \<^verbatim>\<open>argc\<close>, past the array beyond it.\<close>

definition arg :: "string list \<Rightarrow> nat \<Rightarrow> stop + string" where
  "arg argv i = (if i < length argv then Inr (argv ! i) else Inl null_argument)"

definition stoi_arg :: "string \<Rightarrow> stop + int" where
  "stoi_arg s = (case stoi s of Inl e \<Rightarrow> Inl (uncaught e) | Inr v \<Rightarrow> Inr v)"

definition forty_plan :: "string \<Rightarrow> u16 \<Rightarrow> string \<Rightarrow> string \<Rightarrow> string \<Rightarrow> u64 \<Rightarrow> stop + forty_run" where
  "forty_plan server_ip server_port mode me you mask_len =
     (if mode = ''recv'' then
        if you = [] then Inl (exit_with (- 1))
        else
          let qname_audio = (you @ ''_audio'', mask_len); qname_video = (you @ ''_video'', mask_len) in
          Inr \<lparr>fr_server = server_ip, fr_port = server_port,
               fr_setup = [old_subscribe [qname_audio] False True, old_subscribe [qname_video] False True],
               fr_loops = [Reader], fr_teardown = [old_unsubscribe [qname_audio, qname_video]]\<rparr>
      else if mode = ''send'' then
        if me = [] then Inl (exit_with (- 1))
        else
          let me_audio = me @ ''_audio''; me_video = me @ ''_video'' in
          Inr \<lparr>fr_server = server_ip, fr_port = server_port,
               fr_setup = [old_register [(me_audio, 0), (me_video, 0)] False],
               fr_loops = [Sender me_audio 50 1, Sender me_video 33 50], fr_teardown = []\<rparr>
      else
        if me = [] \<or> you = [] then Inl (exit_with (- 1))
        else
          Inr \<lparr>fr_server = server_ip, fr_port = server_port,
               fr_setup = [old_register [(me, 0)] True, old_subscribe [(you, mask_len)] False False],
               fr_loops = [Reader, Sender me 50 1], fr_teardown = []\<rparr>)"

definition forty_main :: "string list \<Rightarrow> stop + forty_run" where
  "forty_main argv =
     (if length argv < 5 then Inl (exit_with (- 1))
      else
        rbind (arg argv 1) (\<lambda>server_ip.
        rbind (arg argv 2) (\<lambda>port_str.
        if port_str = [] then Inl (exit_with (- 1))
        else
          rbind (stoi_arg port_str) (\<lambda>server_port.
          rbind (arg argv 3) (\<lambda>mode.
          if mode \<noteq> ''send'' \<and> mode \<noteq> ''recv'' \<and> mode \<noteq> ''sendrecv'' then Inl (exit_with (- 1))
          else
            rbind (arg argv 4) (\<lambda>me.
            rbind (arg argv 5) (\<lambda>you.
            rbind (arg argv 6) (\<lambda>mask_str.
            rbind (if mask_str \<noteq> [] then stoi_arg mask_str else Inr 0) (\<lambda>mask_len.
            forty_plan server_ip (word_of_int server_port) mode me you (word_of_int mask_len))))))))))"

section \<open>Numbering\<close>

definition forty_call :: "string \<Rightarrow> nat \<Rightarrow> nat \<Rightarrow> old_call" where
  "forty_call name g k = old_publish name forty_bytes (of_nat (k div g)) (of_nat (k mod g)) 0x81 0"

lemma div_mod_Suc:
  assumes "0 < (g :: nat)"
  shows "Suc (k mod g) = g \<Longrightarrow> Suc k div g = Suc (k div g) \<and> Suc k mod g = 0"
    and "Suc (k mod g) \<noteq> g \<Longrightarrow> Suc k div g = k div g \<and> Suc k mod g = Suc (k mod g)"
  using assms by (simp_all add: div_Suc mod_Suc)

lemma group_full_iff:
  assumes "0 < g" "g < 2 ^ 31" "m < g"
  shows "(of_nat g :: u64) \<le> of_nat (Suc m) \<longleftrightarrow> Suc m = g"
proof -
  have "unat (of_nat (Suc m) :: u64) = Suc m" "unat (of_nat g :: u64) = g"
    by (rule unat_of_nat_word; use assms in simp)+
  then show ?thesis using assms(3) by (auto simp: word_le_nat_alt simp del: of_nat_Suc)
qed

lemma int_add_one: "int_add (int n) 1 = (if n < 2 ^ 31 - 1 then Inr (int (Suc n)) else Inl undefined_behaviour)"
  by (auto simp: int_add_def is_int32_def)

lemma send_pass:
  assumes g: "0 < g" "g < 2 ^ 31" and k: "k div g < 2 ^ 31"
  shows "send_passes False name (of_nat g) (i # is) (int (k div g)) (int (k mod g)) =
    (if Suc k div g < 2 ^ 31 then
       rbind (send_passes False name (of_nat g) is (int (Suc k div g)) (int (Suc k mod g))) (\<lambda>calls. Inr (forty_call name g k # calls))
     else Inl undefined_behaviour)"
proof -
  have m: "k mod g < g" using g by simp
  have o: "int_add (int (k mod g)) 1 = Inr (int (Suc (k mod g)))"
    unfolding int_add_one using order.strict_trans2 [OF m, of "2 ^ 31 - 1"] g by simp
  note full = group_full_iff [OF g m]
  show ?thesis
  proof (cases "Suc (k mod g) = g")
    case True
    note s = div_mod_Suc(1) [OF g(1) True]
    show ?thesis
      using s True full by (simp add: o int_add_one [of "k div g"] forty_call_def del: of_nat_Suc)
  next
    case False
    note s = div_mod_Suc(2) [OF g(1) False]
    show ?thesis
      using s False full k by (simp add: o forty_call_def del: of_nat_Suc)
  qed
qed

lemma send_passes_numbered:
  assumes "0 < g" "g < 2 ^ 31" "k div g < 2 ^ 31"
  shows "send_passes False name (of_nat g) inputs (int (k div g)) (int (k mod g)) =
    (if (k + length inputs) div g < 2 ^ 31 then Inr (map (forty_call name g) [k..<k + length inputs])
     else Inl undefined_behaviour)"
  using assms(3)
proof (induction inputs arbitrary: k)
  case (Cons i inputs)
  have le: "Suc k div g \<le> (k + length (i # inputs)) div g" by (rule div_le_mono) simp
  show ?case
    unfolding send_pass [OF assms(1, 2) Cons.prems]
    using Cons.IH [of "Suc k"] le by (auto simp: upt_conv_Cons simp del: upt_Suc send_passes.simps)
qed simp

text \<open>C39. The sender numbers its objects: with a group size \<open>g\<close> the \<open>k\<close>-th object it publishes is object
  \<open>k mod g\<close> of group \<open>k div g\<close>, so no two objects of the run have the same pair, and after the
  interrupt it unregisters its name. This holds as long as the group number fits an \<^verbatim>\<open>int\<close>; the pass that would
  start group \<open>2 ^ 31\<close> is undefined.\<close>

theorem forty_numbering:
  assumes "0 < g" and "g < 2 ^ 31"
  shows "send_loop False name (of_nat g) inputs =
      (if length inputs div g < 2 ^ 31
       then Inr (map (\<lambda>k. old_publish name forty_bytes (of_nat (k div g)) (of_nat (k mod g)) 0x81 0) [0..<length inputs] @
                 [old_unregister [(name, 0)]])
       else Inl undefined_behaviour) \<and>
    (length inputs div g < 2 ^ 31 \<longrightarrow>
      distinct (map (\<lambda>k. (of_nat (k div g) :: u64, of_nat (k mod g) :: u64)) [0..<length inputs]))"
proof
  have "send_passes False name (of_nat g) inputs 0 0 =
    (if length inputs div g < 2 ^ 31 then Inr (map (forty_call name g) [0..<length inputs]) else Inl undefined_behaviour)"
    using send_passes_numbered [OF assms, of 0 name inputs] by simp
  then show "send_loop False name (of_nat g) inputs =
      (if length inputs div g < 2 ^ 31
       then Inr (map (\<lambda>k. old_publish name forty_bytes (of_nat (k div g)) (of_nat (k mod g)) 0x81 0) [0..<length inputs] @
                 [old_unregister [(name, 0)]])
       else Inl undefined_behaviour)"
    by (simp add: send_loop_def forty_call_def [abs_def])
  show "length inputs div g < 2 ^ 31 \<longrightarrow>
      distinct (map (\<lambda>k. (of_nat (k div g) :: u64, of_nat (k mod g) :: u64)) [0..<length inputs])"
  proof
    assume n: "length inputs div g < 2 ^ 31"
    have "j = k" if "j < length inputs" "k < length inputs"
      and eq: "(of_nat (j div g) :: u64) = of_nat (k div g)" "(of_nat (j mod g) :: u64) = of_nat (k mod g)" for j k
    proof -
      have small: "unat (of_nat (i div g) :: u64) = i div g \<and> unat (of_nat (i mod g) :: u64) = i mod g"
        if "i < length inputs" for i
      proof -
        have "i div g \<le> length inputs div g" "i mod g < g" using that assms by (simp_all add: div_le_mono)
        then have "i div g < 2 ^ 64" "i mod g < 2 ^ 64" using n assms(2) by simp_all
        then show ?thesis by (auto intro!: unat_of_nat_word)
      qed
      have "j div g = k div g" "j mod g = k mod g" using small [OF that(1)] small [OF that(2)] eq by metis+
      then show "j = k" by (metis div_mult_mod_eq)
    qed
    then show "distinct (map (\<lambda>k. (of_nat (k div g) :: u64, of_nat (k mod g) :: u64)) [0..<length inputs])"
      by (auto simp: distinct_map inj_on_def)
  qed
qed

section \<open>The arguments\<close>

lemma arg_simps [simp]:
  "i < length argv \<Longrightarrow> arg argv i = Inr (argv ! i)" "length argv \<le> i \<Longrightarrow> arg argv i = Inl null_argument"
  by (simp_all add: arg_def)

text \<open>C40. Six arguments are documented and all six are read, but only four are asked for: with four or five
  arguments, a port that is a number and a mode that is one of the three, a string is assigned from a
  null pointer, which is undefined, and in no other case. With six arguments the program exits, stops on an
  exception of \<^verbatim>\<open>stoi\<close>, or runs.\<close>

theorem forty_args:
  "forty_main argv = Inl null_argument \<longleftrightarrow>
     length argv \<in> {5, 6} \<and> argv ! 2 \<noteq> [] \<and> (\<exists>p. stoi (argv ! 2) = Inr p) \<and>
     argv ! 3 \<in> {''send'', ''recv'', ''sendrecv''}"
proof -
  have plan: "forty_plan a b c d e f \<noteq> Inl null_argument" for a b c d e f
    by (simp add: forty_plan_def Let_def)
  have mask: "rbind (if s \<noteq> [] then stoi_arg s else Inr 0) (\<lambda>m. forty_plan a b c d e (word_of_int m)) \<noteq> Inl null_argument"
    for s a b c d e using plan by (auto simp: stoi_arg_def split: sum.split)
  consider "length argv < 5" | "length argv = 5" | "length argv = 6" | "7 \<le> length argv" by linarith
  then show ?thesis
  proof cases
    case 4
    then show ?thesis using mask by (auto simp: forty_main_def stoi_arg_def split: sum.split)
  qed (auto simp: forty_main_def stoi_arg_def split: sum.split)
qed

section \<open>The reader\<close>

definition shown_datum :: "Datum \<Rightarrow> line" where
  "shown_datum d = datum_line (dt_name d) (dt_group_id d) (dt_object_id d) (to_hex (dt_data d))"

definition arrived :: "read_round \<Rightarrow> Datum list" where
  "arrived r = map (\<lambda>(n, d, g, i). \<lparr>dt_group_id = g, dt_object_id = i, dt_name = n, dt_data = d\<rparr>) (rr_arrivals r)"

lemma fold_arrived: "fold (\<lambda>(n, d, g, i). Forty_on_data_arrived n d g i) (rr_arrivals r) q = q @ arrived r"
proof -
  have "fold (\<lambda>(n, d, g, i). Forty_on_data_arrived n d g i) es q =
      q @ map (\<lambda>(n, d, g, i). \<lparr>dt_group_id = g, dt_object_id = i, dt_name = n, dt_data = d\<rparr>) es" for es
    by (induction es arbitrary: q) (auto simp: Forty_on_data_arrived_def)
  then show ?thesis by (simp add: arrived_def)
qed

interpretation forty_loop: queue_loop
  "\<lambda>_. True" "\<lambda>_. True" "\<lambda>q. q" arrived rr_interrupt "\<lambda>d. if dt_data d \<noteq> [] then [shown_datum d] else []"
  "\<lambda>rounds. read_loop False rounds chat_message" for chat_message
  by unfold_locales (auto simp: fold_arrived Forty_recv_def no_Datum_def shown_datum_def Let_def split: prod.split)

text \<open>The reader prints the objects in the order of their arrival, the empty ones left out; without an interrupt
  it takes an object in every round that finds one.\<close>

lemma read_loop_fifo:
  assumes "read_loop False rounds chat_message q = (out, q')" and "list_all (\<lambda>r. \<not> rr_interrupt r) rounds"
  shows "\<exists>k. out = map shown_datum (filter (\<lambda>d. dt_data d \<noteq> []) (take k (q @ concat (map arrived rounds)))) \<and>
    q' = drop k (q @ concat (map arrived rounds)) \<and> min (length q) (length rounds) \<le> k"
  using forty_loop.loop_fifo [OF TrueI assms(1)] assms(2) unfolding concat_map_nonempty by fastforce

text \<open>In chat mode the sender appends \<^verbatim>\<open>end\<close> to the word it publishes and the reader looks for an object
  that is \<^verbatim>\<open>end\<close>: what a peer typed is never shown as a complete message.\<close>

definition typed_message :: "bytes \<Rightarrow> bool" where
  "typed_message b \<longleftrightarrow> (\<exists>w. w \<noteq> [] \<and> b = string_bytes (w @ ''end''))"

lemma typed_not_end: "typed_message b \<Longrightarrow> bytes_string b \<noteq> ''end''"
  by (auto simp: typed_message_def)

lemma chat_never_ends:
  assumes "list_all (\<lambda>r. list_all (\<lambda>d. typed_message (dt_data d)) (arrived r)) rounds"
    and "list_all (\<lambda>d. typed_message (dt_data d)) q"
  shows "chat_end s \<notin> set (fst (read_loop True rounds m q))"
  using assms
proof (induction rounds arbitrary: q m)
  case (Cons r rounds)
  have q: "list_all (\<lambda>d. typed_message (dt_data d)) (q @ arrived r)" using Cons.prems by simp
  show ?case
  proof (cases "q @ arrived r")
    case Nil
    then show ?thesis using Cons.IH [of "[]"] Cons.prems by (simp add: fold_arrived Forty_recv_def no_Datum_def)
  next
    case c: (Cons d q')
    then have "bytes_string (dt_data d) \<noteq> ''end''" "list_all (\<lambda>d. typed_message (dt_data d)) q'"
      using q typed_not_end by simp_all
    then show ?thesis using Cons.IH [of q'] Cons.prems c by (auto simp: fold_arrived Forty_recv_def Let_def case_prod_beta)
  qed
qed simp

section \<open>Samples\<close>

theorem forty_numbering_witness:
  "send_loop False ''v'' 2 [[], [], []] =
     Inr [old_publish ''v'' forty_bytes 0 0 0x81 0, old_publish ''v'' forty_bytes 0 1 0x81 0,
          old_publish ''v'' forty_bytes 1 0 0x81 0, old_unregister [(''v'', 0)]]"
proof -
  have "[0..<length [[], [], [] :: string]] = [0, 1, 2]" by (simp add: upt_rec)
  then show ?thesis using forty_numbering [of 2 "''v''" "[[], [], []]"] by simp
qed

lemma forty_samples:
  "to_hex [0, 10, 255] = ''000aff''"
  "forty_main [''forty'', ''::1'', ''1234'', ''send'', ''alice''] = Inl null_argument"
  "forty_main [''forty'', ''::1'', ''port'', ''send'', ''alice'', ''bob'', ''1''] = Inl (uncaught invalid_argument)"
  "map fr_loops [case forty_main [''forty'', ''::1'', ''1234'', ''sendrecv'', ''alice'', ''bob'', ''''] of Inr f \<Rightarrow> f]
    = [[Reader, Sender ''alice'' 50 1]]"
  by code_simp+

end
