(* ===== verification/Hex_Endec.thy ===== *)
theory Hex_Endec
  imports Quicr_Name
begin

text \<open>
  \<^verbatim>\<open>quicr::HexEndec<Size, Dist...>\<close> (\<^verbatim>\<open>include/quicr/hex_endec.h\<close>): packs numbers into the bit
  fields of a hex string and reads them back. The template parameters are arguments: \<open>Size\<close> selects
  between the branch that computes in a 64-bit integer (\<open>Size \<le> 64\<close>) and the one that computes in
  a \<^verbatim>\<open>std::bitset<Size>\<close>, a natural number below \<open>2 ^ Size\<close> here. The overloads that take
  parameter packs, arrays and vectors call the ones on spans. What \<^verbatim>\<open>static_assert\<close> demands are
  hypotheses of the lemmas; the \<^verbatim>\<open>assert\<close> that the two lists are equally long is a
  branch, undefined where it fails. The specification is \<open>pack\<close>, the number whose consecutive fields are the values.
\<close>

unbundle bit_operations_syntax

section \<open>The class\<close>

text \<open>\<^verbatim>\<open>~(~0x0ull << dist)\<close>\<close>

definition dist_mask :: "nat \<Rightarrow> u64 res" where
  "dist_mask dist = rbind (shl64 (NOT 0) dist) (\<lambda>m. Inr (NOT m))"

fun encode64_loop :: "(u8 \<times> u64) list \<Rightarrow> u64 \<Rightarrow> u64 res" where
  "encode64_loop [] bits = Inr bits"
| "encode64_loop ((dist, value) # rest) bits =
     rbind (shl64 bits (unat dist)) (\<lambda>bits.
     rbind (dist_mask (unat dist)) (\<lambda>m.
     encode64_loop rest (bits OR (value AND m))))"

definition Encode64 :: "u8 list \<Rightarrow> u64 list \<Rightarrow> string res" where
  "Encode64 distribution values =
     (if length distribution \<noteq> length values then Inl undefined_behaviour
      else rbind (encode64_loop (zip distribution values) 0) (\<lambda>bits. Inr (''0x'' @ uint_to_hex bits)))"

text \<open>\<^verbatim>\<open>std::bitset<Size>\<close>: shifting left drops what leaves the \<open>Size\<close> bits.\<close>

definition bitset_shl :: "nat \<Rightarrow> nat \<Rightarrow> nat \<Rightarrow> nat" where
  "bitset_shl Size bits k = take_bit Size (push_bit k bits)"

fun encode_bitset_loop :: "nat \<Rightarrow> (u8 \<times> u64) list \<Rightarrow> nat \<Rightarrow> nat" where
  "encode_bitset_loop Size [] bits = bits"
| "encode_bitset_loop Size ((dist, value) # rest) bits =
     encode_bitset_loop Size rest
       (bitset_shl Size bits (unat dist) OR
        take_bit Size (unat (if unat dist \<ge> 64 then value
                             else value AND NOT (push_bit (unat dist) (NOT 0)))))"

definition bits_mask :: "nat \<Rightarrow> nat" where
  "bits_mask Size = mask Size XOR drop_bit 64 (mask Size)"

text \<open>The loop over the \<^verbatim>\<open>Size / 64\<close> sections; \<open>n\<close> of them are left.\<close>

fun hex_sections :: "nat \<Rightarrow> nat \<Rightarrow> nat \<Rightarrow> string \<Rightarrow> string" where
  "hex_sections Size 0 bits out_hex = out_hex"
| "hex_sections Size (Suc n) bits out_hex =
     hex_sections Size n (bitset_shl Size bits 64)
       (out_hex @ uint_to_hex (of_nat (drop_bit (Size - 64) (bits AND bits_mask Size))))"

definition Encode_bitset :: "nat \<Rightarrow> u8 list \<Rightarrow> u64 list \<Rightarrow> string res" where
  "Encode_bitset Size distribution values =
     (if length distribution \<noteq> length values then Inl undefined_behaviour
      else Inr (hex_sections Size (Size div 64) (encode_bitset_loop Size (zip distribution values) 0) ''0x''))"

definition HexEndec_Encode :: "nat \<Rightarrow> u8 list \<Rightarrow> u64 list \<Rightarrow> string res" where
  "HexEndec_Encode Size distribution values =
     (if Size \<le> 64 then Encode64 distribution values else Encode_bitset Size distribution values)"

text \<open>The loop runs from the last field to the first.\<close>

fun decode64_loop :: "u8 list \<Rightarrow> u64 \<Rightarrow> u64 list \<Rightarrow> u64 list res" where
  "decode64_loop [] bits result = Inr result"
| "decode64_loop (dist # ds) bits result =
     rbind (dist_mask (unat dist)) (\<lambda>m.
     rbind (shr64 bits (unat dist)) (\<lambda>bits'.
     decode64_loop ds bits' ((bits AND m) # result)))"

definition Decode64 :: "u8 list \<Rightarrow> string \<Rightarrow> u64 list res" where
  "Decode64 distribution hex = decode64_loop (rev distribution) (hex_to_uint hex) []"

text \<open>The sections of the string, \<open>hex.substr(i, 16)\<close> for \<open>n\<close> more values of \<open>i\<close>, the last of them shifted by
  nothing.\<close>

fun read_sections :: "nat \<Rightarrow> string \<Rightarrow> nat \<Rightarrow> nat \<Rightarrow> nat \<Rightarrow> nat res" where
  "read_sections Size hex i 0 bits = Inr bits"
| "read_sections Size hex i (Suc n) bits =
     (if i > length hex then Inl out_of_range
      else read_sections Size hex (i + 16) n
        (bits OR bitset_shl Size (unat (hex_to_uint (take 16 (drop i hex)))) (64 * n)))"

text \<open>\<^verbatim>\<open>to_ullong\<close> throws when a field does not fit 64 bits.\<close>

fun read_fields :: "nat \<Rightarrow> u8 list \<Rightarrow> nat \<Rightarrow> u64 list res" where
  "read_fields Size [] bits = Inr []"
| "read_fields Size (dist # ds) bits =
     (let field = (if unat dist > Size then 0 else drop_bit (Size - unat dist) bits) in
      if field \<ge> 2 ^ 64 then Inl overflow_error
      else rbind (read_fields Size ds (bitset_shl Size bits (unat dist))) (\<lambda>result.
        Inr (of_nat field # result)))"

text \<open>The expected length is a \<^verbatim>\<open>uint8_t\<close>.\<close>

definition Decode_bitset :: "nat \<Rightarrow> u8 list \<Rightarrow> string \<Rightarrow> u64 list res" where
  "Decode_bitset Size distribution hex =
     (let hex = remove_0x hex; hex_length = (Size div 4) mod 256 in
      if length hex \<noteq> hex_length then Inl runtime_error
      else rbind (read_sections Size hex 0 (Size div 64) 0) (read_fields Size distribution))"

definition HexEndec_Decode :: "nat \<Rightarrow> u8 list \<Rightarrow> string \<Rightarrow> u64 list res" where
  "HexEndec_Decode Size distribution hex =
     (if Size \<le> 64 then Decode64 distribution hex else Decode_bitset Size distribution hex)"

definition HexEndec_Decode_Name :: "nat \<Rightarrow> u8 list \<Rightarrow> Name \<Rightarrow> u64 list res" where
  "HexEndec_Decode_Name Size distribution name = HexEndec_Decode Size distribution (Name_to_hex name)"

text \<open>The overloads that return an array of \<open>Uint_t\<close> convert every value to it.\<close>

definition HexEndec_Decode_array :: "nat \<Rightarrow> u8 list \<Rightarrow> string \<Rightarrow> ('u :: len) word list res" where
  "HexEndec_Decode_array Size distribution hex =
     rbind (HexEndec_Decode Size distribution hex) (\<lambda>result. Inr (map ucast result))"

definition HexEndec_Decode_array_Name :: "nat \<Rightarrow> u8 list \<Rightarrow> Name \<Rightarrow> ('u :: len) word list res" where
  "HexEndec_Decode_array_Name Size distribution name =
     rbind (HexEndec_Decode Size distribution (Name_to_hex name)) (\<lambda>result. Inr (map ucast result))"

section \<open>Fields of a number\<close>

fun pack :: "(u8 \<times> u64) list \<Rightarrow> nat \<Rightarrow> nat" where
  "pack [] n = n"
| "pack ((d, v) # rest) n = pack rest (n * 2 ^ unat d + unat v mod 2 ^ unat d)"

definition total_bits :: "u8 list \<Rightarrow> nat" where
  "total_bits ds = sum_list (map unat ds)"

lemma total_bits_simps [simp]: "total_bits [] = 0" "total_bits (d # ds) = unat d + total_bits ds"
  by (simp_all add: total_bits_def)

text \<open>The fields of a number, and that packing is their inverse.\<close>

fun unpack :: "u8 list \<Rightarrow> nat \<Rightarrow> nat list" where
  "unpack [] x = []"
| "unpack (d # ds) x = x div 2 ^ total_bits ds # unpack ds (x mod 2 ^ total_bits ds)"

definition field_values :: "u8 list \<Rightarrow> u64 list \<Rightarrow> nat list" where
  "field_values ds vs = map2 (\<lambda>d v. unat v mod 2 ^ unat d) ds vs"

lemma pack_add: "pack l n = n * 2 ^ total_bits (map fst l) + pack l 0"
proof (induction l arbitrary: n)
  case (Cons p l)
  obtain d v where p: "p = (d, v)" by (cases p)
  show ?case
    using Cons.IH [of "n * 2 ^ unat d + unat v mod 2 ^ unat d"] Cons.IH [of "unat v mod 2 ^ unat d"]
    by (simp add: p power_add algebra_simps)
qed simp

lemma mod_mult_less: "(a :: nat) < 2 ^ d \<Longrightarrow> b < 2 ^ t \<Longrightarrow> a * 2 ^ t + b < 2 ^ (d + t)"
proof -
  assume a: "a < 2 ^ d" and b: "b < 2 ^ t"
  have "a * 2 ^ t + b < (a + 1) * 2 ^ t" using b by simp
  also have "\<dots> \<le> 2 ^ d * 2 ^ t" using a by (intro mult_right_mono) auto
  finally show ?thesis by (simp add: power_add)
qed

lemma pack_less: "pack l 0 < 2 ^ total_bits (map fst l)"
proof (induction l)
  case (Cons p l)
  obtain d v where p: "p = (d, v)" by (cases p)
  show ?case
    using mod_mult_less [of "unat v mod 2 ^ unat d" "unat d", OF _ Cons.IH] pack_add [of l "unat v mod 2 ^ unat d"]
    by (simp add: p)
qed simp

lemma unpack_pack: "length ds = length vs \<Longrightarrow> unpack ds (pack (zip ds vs) 0) = field_values ds vs"
proof (induction ds vs rule: list_induct2)
  case (Cons d ds v vs)
  have t: "total_bits (map fst (zip ds vs)) = total_bits ds" using Cons.hyps by simp
  have "pack (zip (d # ds) (v # vs)) 0 = unat v mod 2 ^ unat d * 2 ^ total_bits ds + pack (zip ds vs) 0"
    using pack_add [of "zip ds vs" "unat v mod 2 ^ unat d"] by (simp add: t)
  moreover have "pack (zip ds vs) 0 < 2 ^ total_bits ds" using pack_less [of "zip ds vs"] by (simp add: t)
  ultimately show ?case using Cons.IH by (simp add: field_values_def)
qed (simp add: field_values_def)

lemma unpack_snoc: "x < 2 ^ total_bits (ds @ [d]) \<Longrightarrow> unpack (ds @ [d]) x = unpack ds (x div 2 ^ unat d) @ [x mod 2 ^ unat d]"
proof (induction ds arbitrary: x)
  case Nil
  then show ?case by simp
next
  case (Cons e ds)
  let ?t = "total_bits ds" and ?d = "unat d"
  have tot: "total_bits (ds @ [d]) = ?t + ?d" by (induction ds) simp_all
  have "x mod 2 ^ (?t + ?d) < 2 ^ (?t + ?d)" by simp
  from Cons.IH [of "x mod 2 ^ (?t + ?d)"] this
  have IH: "unpack (ds @ [d]) (x mod 2 ^ (?t + ?d)) = unpack ds (x mod 2 ^ (?t + ?d) div 2 ^ ?d) @ [x mod 2 ^ (?t + ?d) mod 2 ^ ?d]"
    by (simp add: tot)
  have "x mod 2 ^ (?t + ?d) div 2 ^ ?d = x div 2 ^ ?d mod 2 ^ ?t"
    by (simp add: power_add mult.commute [of "2 ^ ?t"] mod_mult2_eq)
  moreover have "x div 2 ^ ?t div 2 ^ ?d = x div 2 ^ ?d div 2 ^ ?t"
    by (simp flip: div_mult2_eq add: mult.commute)
  ultimately show ?case using IH by (simp add: tot power_add div_mult2_eq mult.commute mod_mod_cancel)
qed

section \<open>Bit sets\<close>

lemma or_add_nat: "w < 2 ^ d \<Longrightarrow> push_bit d n OR w = n * 2 ^ d + (w :: nat)"
proof -
  assume "w < 2 ^ d"
  then have "w = take_bit d w" by (simp add: take_bit_nat_eq_self)
  moreover have "push_bit d n AND take_bit d w = 0" by (rule bit_eqI) (auto simp: bit_simps)
  ultimately have "push_bit d n AND w = 0" by simp
  from disjunctive_add_eq_or [OF this] show ?thesis by (simp add: push_bit_eq_mult)
qed

lemma field_mask: "d < 64 \<Longrightarrow> NOT (push_bit d (NOT 0)) = (mask d :: u64)"
  by (rule bit_word_eqI) (auto simp: bit_simps)

lemma unat_take_bit: "unat (take_bit d (v :: u64)) = unat v mod 2 ^ d"
proof -
  have "unat (take_bit d v) = take_bit d (unat v)" by (rule unsigned_take_bit_eq)
  then show ?thesis by (simp only: take_bit_eq_mod)
qed

lemma field_value: "unat (if d \<ge> 64 then v else v AND NOT (push_bit d (NOT 0))) = unat (v :: u64) mod 2 ^ d"
proof (cases "64 \<le> d")
  case True
  have "unat v < 2 ^ 64" using unsigned_less [where ?'a = nat, of v] by simp
  also have "(2 :: nat) ^ 64 \<le> 2 ^ d" using True by (intro power_increasing) auto
  finally show ?thesis using True by simp
next
  case False
  then show ?thesis by (simp add: field_mask unat_take_bit take_bit_eq_mask [symmetric])
qed

lemma encode_bitset_loop_pack:
  "n < 2 ^ k \<Longrightarrow> k + total_bits (map fst l) \<le> Size \<Longrightarrow> encode_bitset_loop Size l n = pack l n"
proof (induction l arbitrary: n k)
  case (Cons p l)
  obtain d v where p: "p = (d, v)" by (cases p)
  let ?w = "unat v mod 2 ^ unat d"
  have step: "n * 2 ^ unat d + ?w < 2 ^ (k + unat d)" using Cons.prems(1) by (intro mod_mult_less) simp_all
  have "n * 2 ^ unat d < 2 ^ (k + unat d)" using step by simp
  also have "(2 :: nat) ^ (k + unat d) \<le> 2 ^ Size" using Cons.prems(2) by (intro power_increasing) (simp_all add: p)
  finally have "bitset_shl Size n (unat d) = push_bit (unat d) n"
    by (simp add: bitset_shl_def push_bit_eq_mult take_bit_nat_eq_self)
  moreover have "?w < 2 ^ Size"
  proof -
    have "?w < 2 ^ unat d" by simp
    also have "(2 :: nat) ^ unat d \<le> 2 ^ Size" using Cons.prems(2) by (intro power_increasing) (simp_all add: p)
    finally show ?thesis .
  qed
  ultimately have "encode_bitset_loop Size (p # l) n = encode_bitset_loop Size l (n * 2 ^ unat d + ?w)"
    by (simp only: p encode_bitset_loop.simps field_value take_bit_nat_eq_self or_add_nat) (simp add: or_add_nat)
  also have "\<dots> = pack l (n * 2 ^ unat d + ?w)"
    by (rule Cons.IH [OF step]) (use Cons.prems(2) in \<open>simp add: p\<close>)
  finally show ?case by (simp add: p)
qed simp

text \<open>The digits of a number in sections of sixteen.\<close>

fun sections :: "nat \<Rightarrow> nat \<Rightarrow> string" where
  "sections 0 b = []"
| "sections (Suc n) b = uint_to_hex (of_nat (b div 2 ^ (64 * n))) @ sections n (b mod 2 ^ (64 * n))"

lemma length_sections [simp]: "length (sections n b) = 16 * n"
  by (induction n arbitrary: b) simp_all

lemma top_section:
  assumes "x < 2 ^ Size" and "64 \<le> Size"
  shows "drop_bit (Size - 64) (x AND bits_mask Size) = drop_bit (Size - 64) x"
proof (rule bit_eqI)
  fix i
  have "bit x (Size - 64 + i) \<Longrightarrow> Size - 64 + i < Size"
    using assms(1) bit_take_bit_iff [of Size x "Size - 64 + i"] by (simp add: take_bit_nat_eq_self)
  moreover have "Size \<le> 64 + (Size - 64 + i)" using assms(2) by simp
  ultimately show "bit (drop_bit (Size - 64) (x AND bits_mask Size)) i = bit (drop_bit (Size - 64) x) i"
    by (auto simp: bit_simps bits_mask_def)
qed

lemma hex_sections_eq:
  assumes "Size = 64 * k" and "n \<le> k" and "b < 2 ^ (64 * n)"
  shows "hex_sections Size n (b * 2 ^ (64 * (k - n))) out = out @ sections n b"
  using assms(2,3)
proof (induction n arbitrary: b out)
  case (Suc n)
  let ?x = "b * 2 ^ (64 * (k - Suc n))"
  have e: "64 * Suc n + 64 * (k - Suc n) = Size" using Suc.prems(1) assms(1) by simp
  have "?x < 2 ^ (64 * Suc n) * 2 ^ (64 * (k - Suc n))"
    using Suc.prems(2) by (intro mult_strict_right_mono) simp_all
  then have x: "?x < 2 ^ Size" using e by (simp flip: power_add)
  have "Size - 64 = 64 * n + 64 * (k - Suc n)" using e by simp
  then have top: "drop_bit (Size - 64) ?x = b div 2 ^ (64 * n)"
    by (simp add: drop_bit_eq_div power_add)
  have pow: "(2 :: nat) ^ Size = 2 ^ (64 * n) * 2 ^ (64 * (k - n))"
    using Suc.prems(1) assms(1) by (simp flip: power_add)
  have "64 * (k - n) = 64 * (k - Suc n) + 64" using Suc.prems(1) by simp
  then have "bitset_shl Size ?x 64 = b * 2 ^ (64 * (k - n)) mod 2 ^ Size"
    by (simp add: bitset_shl_def push_bit_eq_mult take_bit_eq_mod power_add mult.assoc)
  also have "\<dots> = (b mod 2 ^ (64 * n)) * 2 ^ (64 * (k - n))"
    unfolding pow by (rule mult_mod_left [symmetric])
  finally have shl: "bitset_shl Size ?x 64 = (b mod 2 ^ (64 * n)) * 2 ^ (64 * (k - n))" .
  have "64 \<le> Size" using Suc.prems(1) assms(1) by simp
  from top_section [OF x this] top have sect: "drop_bit (Size - 64) (?x AND bits_mask Size) = b div 2 ^ (64 * n)" by simp
  have "hex_sections Size (Suc n) ?x out =
      hex_sections Size n (b mod 2 ^ (64 * n) * 2 ^ (64 * (k - n))) (out @ uint_to_hex (of_nat (b div 2 ^ (64 * n))))"
    by (simp only: hex_sections.simps sect shl)
  with Suc.IH [of "b mod 2 ^ (64 * n)"] Suc.prems(1) show ?case by simp
qed simp

lemma section_value: "x < 2 ^ 64 \<Longrightarrow> unat (hex_to_uint (uint_to_hex (of_nat x))) = x"
  by (simp add: hex_to_uint_of_uint_to_hex unat_of_nat_word)

lemma read_sections_eq:
  assumes "b < 2 ^ (64 * n)" and "B * 2 ^ (64 * n) + b < 2 ^ Size" and "64 * n \<le> Size"
  shows "read_sections Size (pre @ sections n b) (length pre) n (B * 2 ^ (64 * n)) = Inr (B * 2 ^ (64 * n) + b)"
  using assms
proof (induction n arbitrary: pre b B)
  case (Suc n)
  define q where "q = b div 2 ^ (64 * n)"
  define r where "r = b mod 2 ^ (64 * n)"
  have b: "b = q * 2 ^ (64 * n) + r" unfolding q_def r_def by (rule div_mult_mod_eq [symmetric])
  have q: "q < 2 ^ 64"
    unfolding q_def using Suc.prems(1) by (intro less_mult_imp_div_less) (simp add: power_add mult.commute)
  have r: "r < 2 ^ (64 * n)" by (simp add: r_def)
  have sum: "(B * 2 ^ 64 + q) * 2 ^ (64 * n) + r = B * 2 ^ (64 * Suc n) + b"
    by (simp add: b power_add algebra_simps)
  have "q * 2 ^ (64 * n) < 2 ^ Size" using Suc.prems(2) b by linarith
  then have shl: "bitset_shl Size q (64 * n) = q * 2 ^ (64 * n)"
    by (simp add: bitset_shl_def push_bit_eq_mult take_bit_nat_eq_self)
  have "push_bit (64 * n) (push_bit 64 B OR q) = push_bit (64 * Suc n) B OR push_bit (64 * n) q"
    unfolding push_bit_or push_bit_push_bit by (simp only: mult_Suc_right add.commute)
  then have "B * 2 ^ (64 * Suc n) OR q * 2 ^ (64 * n) = push_bit (64 * n) (push_bit 64 B OR q)"
    unfolding push_bit_eq_mult by (rule sym)
  then have merge: "B * 2 ^ (64 * Suc n) OR q * 2 ^ (64 * n) = (B * 2 ^ 64 + q) * 2 ^ (64 * n)"
    unfolding or_add_nat [OF q] by (simp only: push_bit_eq_mult)
  let ?hex = "pre @ uint_to_hex (of_nat q) @ sections n r"
  have digits: "take 16 (drop (length pre) ?hex) = uint_to_hex (of_nat q)" by simp
  have "read_sections Size ?hex (length pre) (Suc n) (B * 2 ^ (64 * Suc n)) =
      read_sections Size ?hex (length pre + 16) n ((B * 2 ^ 64 + q) * 2 ^ (64 * n))"
    unfolding read_sections.simps digits section_value [OF q] shl merge by simp
  also have "\<dots> = Inr ((B * 2 ^ 64 + q) * 2 ^ (64 * n) + r)"
    using Suc.IH [of r "B * 2 ^ 64 + q" "pre @ uint_to_hex (of_nat q)"] Suc.prems(2,3) r sum by simp
  finally show ?case unfolding sum by (simp only: sections.simps q_def r_def)
qed simp

lemma read_fields_eq:
  assumes "x < 2 ^ total_bits ds" and "total_bits ds \<le> Size" and "list_all (\<lambda>f. f < 2 ^ 64) (unpack ds x)"
  shows "read_fields Size ds (x * 2 ^ (Size - total_bits ds)) = Inr (map of_nat (unpack ds x))"
  using assms
proof (induction ds arbitrary: x)
  case (Cons d ds)
  let ?d = "unat d" and ?t = "total_bits ds"
  have le: "?d + ?t \<le> Size" using Cons.prems(2) by simp
  have "Size - ?d = ?t + (Size - (?d + ?t))" using le by simp
  then have field: "drop_bit (Size - ?d) (x * 2 ^ (Size - (?d + ?t))) = x div 2 ^ ?t"
    by (simp add: drop_bit_eq_div power_add)
  have pow: "(2 :: nat) ^ Size = 2 ^ ?t * 2 ^ (Size - ?t)" using le by (simp flip: power_add)
  have "Size - ?t = Size - (?d + ?t) + ?d" using le by simp
  then have "bitset_shl Size (x * 2 ^ (Size - (?d + ?t))) ?d = x * 2 ^ (Size - ?t) mod 2 ^ Size"
    by (simp only: bitset_shl_def push_bit_eq_mult take_bit_eq_mod power_add mult.assoc)
  also have "\<dots> = x mod 2 ^ ?t * 2 ^ (Size - ?t)" unfolding pow by (rule mult_mod_left [symmetric])
  finally have shl: "bitset_shl Size (x * 2 ^ (Size - (?d + ?t))) ?d = x mod 2 ^ ?t * 2 ^ (Size - ?t)" .
  have IH: "read_fields Size ds (x mod 2 ^ ?t * 2 ^ (Size - ?t)) = Inr (map of_nat (unpack ds (x mod 2 ^ ?t)))"
    by (rule Cons.IH) (use le Cons.prems(3) in simp_all)
  have small: "x div 2 ^ ?t < 2 ^ 64" using Cons.prems(3) by simp
  show ?case
    unfolding total_bits_simps read_fields.simps Let_def shl
    using le small IH field by simp
qed simp

lemma field_values_small: "list_all (\<lambda>f. f < 2 ^ 64) (field_values ds vs)"
proof -
  have "unat v mod 2 ^ unat d < 2 ^ 64" for v :: u64 and d :: u8
    using unsigned_less [where ?'a = nat, of v] mod_less_eq_dividend [of "unat v" "2 ^ unat d"]
    by (simp del: mod_less_eq_dividend)
  then show ?thesis by (auto simp: field_values_def list_all_iff)
qed

lemma of_nat_field_values:
  "length ds = length vs \<Longrightarrow> map of_nat (field_values ds vs) = map2 (\<lambda>d v. take_bit (unat d) v) ds vs"
proof (induction ds vs rule: list_induct2)
  case (Cons d ds v vs)
  have "of_nat (unat v mod 2 ^ unat d) = take_bit (unat d) v"
    by (simp flip: unat_take_bit)
  with Cons show ?case by (simp add: field_values_def)
qed (simp add: field_values_def)

lemma remove_0x_prefix [simp]: "remove_0x (CHR ''0'' # CHR ''x'' # x) = x"
  by (simp add: remove_0x_def)

text \<open>Decoding any string of sections.\<close>

lemma Decode_bitset_sections:
  assumes "Size = 64 * k" and "Size div 4 < 256" and "b < 2 ^ Size" and "total_bits ds = Size"
    and "list_all (\<lambda>f. f < 2 ^ 64) (unpack ds b)"
  shows "Decode_bitset Size ds (''0x'' @ sections k b) = Inr (map of_nat (unpack ds b))"
proof -
  have "read_sections Size (sections k b) 0 k 0 = Inr b"
    using read_sections_eq [of b k 0 Size "[]"] assms(1,3) by simp
  moreover have "read_fields Size ds b = Inr (map of_nat (unpack ds b))"
    using read_fields_eq [of b ds Size] assms(3-5) by simp
  ultimately show ?thesis using assms(1,2) by (simp add: Decode_bitset_def Let_def)
qed

lemma Encode_bitset_sections:
  assumes "Size = 64 * k" and "length ds = length vs" and "total_bits ds = Size"
  shows "Encode_bitset Size ds vs = Inr (''0x'' @ sections k (pack (zip ds vs) 0))"
proof -
  have t: "total_bits (map fst (zip ds vs)) = Size" using assms(2,3) by simp
  have "encode_bitset_loop Size (zip ds vs) 0 = pack (zip ds vs) 0"
    by (rule encode_bitset_loop_pack [of 0 0]) (simp_all add: t)
  moreover have "pack (zip ds vs) 0 < 2 ^ (64 * k)" using pack_less [of "zip ds vs"] by (simp add: t assms(1))
  ultimately show ?thesis
    using hex_sections_eq [OF assms(1) le_refl, of "pack (zip ds vs) 0" "''0x''"] assms(1,2)
    by (simp add: Encode_bitset_def)
qed

section \<open>The 64-bit branch\<close>

lemma dist_mask_ok: "d < 64 \<Longrightarrow> dist_mask d = Inr (mask d)"
  by (simp add: dist_mask_def field_mask)

lemma encode64_loop_pack:
  "unat n < 2 ^ k \<Longrightarrow> k + total_bits (map fst l) \<le> 64 \<Longrightarrow> list_all (\<lambda>p. unat (fst p) < 64) l \<Longrightarrow>
     encode64_loop l n = Inr (of_nat (pack l (unat n)))"
proof (induction l arbitrary: n k)
  case (Cons p l)
  obtain d v where p: "p = (d, v)" by (cases p)
  let ?w = "unat v mod 2 ^ unat d"
  have d: "unat d < 64" using Cons.prems(3) by (simp add: p)
  have step: "unat n * 2 ^ unat d + ?w < 2 ^ (k + unat d)" using Cons.prems(1) by (intro mod_mult_less) simp_all
  also have "(2 :: nat) ^ (k + unat d) \<le> 2 ^ 64" using Cons.prems(2) by (intro power_increasing) (simp_all add: p)
  finally have small: "unat n * 2 ^ unat d + ?w < 2 ^ 64" .
  let ?b = "push_bit (unat d) n OR (v AND mask (unat d))"
  have "unat (push_bit (unat d) n) = push_bit (unat d) (unat n)"
  proof -
    have "unat (push_bit (unat d) n) = take_bit 64 (push_bit (unat d) (unat n))"
      by (simp add: unsigned_push_bit_eq)
    also have "\<dots> = push_bit (unat d) (unat n)"
      using small by (simp add: take_bit_nat_eq_self push_bit_eq_mult)
    finally show ?thesis .
  qed
  moreover have "unat (v AND mask (unat d)) = ?w" by (simp add: take_bit_eq_mask [symmetric] unat_take_bit)
  ultimately have b: "unat ?b = unat n * 2 ^ unat d + ?w" by (simp add: unsigned_or_eq or_add_nat)
  have "encode64_loop (p # l) n = encode64_loop l ?b" using d by (simp add: p dist_mask_ok)
  also have "\<dots> = Inr (of_nat (pack l (unat ?b)))"
    by (rule Cons.IH [of _ "k + unat d"]) (use Cons.prems step b in \<open>simp_all add: p\<close>)
  finally show ?case by (simp add: b p)
qed simp

lemma decode64_loop_unpack:
  "unat b < 2 ^ total_bits ds \<Longrightarrow> list_all (\<lambda>d. unat d < 64) ds \<Longrightarrow>
     decode64_loop (rev ds) b acc = Inr (map of_nat (unpack ds (unat b)) @ acc)"
proof (induction ds arbitrary: b acc rule: rev_induct)
  case (snoc d ds)
  have tot: "total_bits (ds @ [d]) = total_bits ds + unat d" by (simp add: total_bits_def)
  have d: "unat d < 64" using snoc.prems(2) by simp
  have div: "unat (drop_bit (unat d) b) = unat b div 2 ^ unat d" 
  proof -
    have "unat (drop_bit (unat d) b) = drop_bit (unat d) (unat b)" 
      using unsigned_less [where ?'a = nat, of b] by (simp add: unsigned_drop_bit_eq take_bit_nat_eq_self)
    then show ?thesis by (simp only: drop_bit_eq_div)
  qed
  have "unat b div 2 ^ unat d < 2 ^ total_bits ds"
    using snoc.prems(1) by (intro less_mult_imp_div_less) (simp add: tot power_add)
  with snoc.IH [of "drop_bit (unat d) b"] snoc.prems(2)
  have "decode64_loop (rev ds) (drop_bit (unat d) b) acc' = Inr (map of_nat (unpack ds (unat b div 2 ^ unat d)) @ acc')" for acc'
    by (simp add: div)
  moreover have "b AND mask (unat d) = of_nat (unat b mod 2 ^ unat d)"
    by (simp add: take_bit_eq_mask [symmetric] flip: unat_take_bit)
  ultimately show ?case
    using d unpack_snoc [OF snoc.prems(1)] by (simp add: dist_mask_ok)
qed simp

section \<open>Correctness\<close>

lemma field_words: "length ds = length vs \<Longrightarrow>
    map of_nat (unpack ds (pack (zip ds vs) 0)) = map2 (\<lambda>d v. take_bit (unat d) v) ds vs"
  by (simp add: unpack_pack of_nat_field_values)

lemma Decode64_Encode64:
  assumes "length ds = length vs" and "total_bits ds \<le> 64" and "list_all (\<lambda>d. unat d < 64) ds"
  shows "\<exists>hex. Encode64 ds vs = Inr hex \<and> Decode64 ds hex = Inr (map2 (\<lambda>d v. take_bit (unat d) v) ds vs)"
proof -
  let ?b = "pack (zip ds vs) 0"
  have fst: "map fst (zip ds vs) = ds" using assms(1) by simp
  have "list_all (\<lambda>p. unat (fst p) < 64) (zip ds vs)"
    using assms(3) by (auto simp: list_all_iff dest: set_zip_leftD)
  then have enc: "encode64_loop (zip ds vs) 0 = Inr (of_nat ?b)"
    using encode64_loop_pack [of 0 0 "zip ds vs"] assms(2) by (simp add: fst)
  have b: "?b < 2 ^ total_bits ds" using pack_less [of "zip ds vs"] by (simp add: fst)
  also have "(2 :: nat) ^ total_bits ds \<le> 2 ^ 64" using assms(2) by (intro power_increasing) simp_all
  finally have unat: "unat (of_nat ?b :: u64) = ?b" by (intro unat_of_nat_word) simp
  have "Decode64 ds (''0x'' @ uint_to_hex (of_nat ?b)) = Inr (map2 (\<lambda>d v. take_bit (unat d) v) ds vs)"
  proof -
    have "hex_to_uint (''0x'' @ uint_to_hex (of_nat ?b)) = of_nat ?b"
      using hex_to_uint_of_uint_to_hex [of "of_nat ?b"] hex_to_uint_eq_loop [of "uint_to_hex (of_nat ?b)"]
      by (simp add: hex_to_uint_def)
    then show ?thesis
      using decode64_loop_unpack [of "of_nat ?b" ds "[]"] b assms(3) field_words [OF assms(1)]
      by (simp add: Decode64_def unat)
  qed
  with enc assms(1) show ?thesis by (simp add: Encode64_def)
qed

text \<open>C34. Values packed into the fields of a hex string are read back reduced to their fields: for the
  64-bit branch when every field is below 64 bits and they fit together, and for the wide branch
  (128, 256 or 512 bits) when the fields fill the string.\<close>

theorem HexEndec_roundtrip:
  assumes "length ds = length vs"
    and "Size \<le> 64 \<and> total_bits ds \<le> 64 \<and> list_all (\<lambda>d. unat d < 64) ds \<or>
         Size \<in> {128, 256, 512} \<and> total_bits ds = Size"
  shows "\<exists>hex. HexEndec_Encode Size ds vs = Inr hex \<and>
    HexEndec_Decode Size ds hex = Inr (map2 (\<lambda>d v. take_bit (unat d) v) ds vs)"
proof (cases "Size \<le> 64")
  case True
  with assms Decode64_Encode64 [OF assms(1)] show ?thesis
    by (auto simp: HexEndec_Encode_def HexEndec_Decode_def)
next
  case False
  with assms(2) have sz: "Size \<in> {128, 256, 512}" "total_bits ds = Size" by auto
  then obtain k where k: "Size = 64 * k" "Size div 4 < 256" by fastforce
  let ?b = "pack (zip ds vs) 0"
  have "?b < 2 ^ Size" using pack_less [of "zip ds vs"] assms(1) sz(2) by simp
  moreover have "list_all (\<lambda>f. f < 2 ^ 64) (unpack ds ?b)"
    unfolding unpack_pack [OF assms(1)] by (rule field_values_small)
  ultimately have "Decode_bitset Size ds (''0x'' @ sections k ?b) = Inr (map2 (\<lambda>d v. take_bit (unat d) v) ds vs)"
    using Decode_bitset_sections [OF k _ sz(2)] field_words [OF assms(1)] by simp
  with Encode_bitset_sections [OF k(1) assms(1) sz(2)] False show ?thesis
    by (simp add: HexEndec_Encode_def HexEndec_Decode_def)
qed

theorem HexEndec_roundtrip_witness:
  "\<exists>hex. HexEndec_Encode 128 [64, 32, 32] [5, 0x1FFFFFFFF, 7] = Inr hex \<and>
     HexEndec_Decode 128 [64, 32, 32] hex = Inr [5, 0xFFFFFFFF, 7]"
  using HexEndec_roundtrip [of "[64, 32, 32]" "[5, 0x1FFFFFFFF, 7]" 128] by (simp add: take_bit_eq_mod)

lemma pack_unpack:
  "x < 2 ^ total_bits ds \<Longrightarrow> list_all (\<lambda>d. unat d \<le> 64) ds \<Longrightarrow>
     pack (zip ds (map of_nat (unpack ds x))) 0 = x \<and> list_all (\<lambda>f. f < 2 ^ 64) (unpack ds x)"
proof (induction ds arbitrary: x)
  case (Cons d ds)
  let ?t = "total_bits ds" and ?q = "x div 2 ^ total_bits ds"
  have q: "?q < 2 ^ unat d" using Cons.prems(1) by (intro less_mult_imp_div_less) (simp add: power_add mult.commute)
  also have "(2 :: nat) ^ unat d \<le> 2 ^ 64" using Cons.prems(2) by (intro power_increasing) simp_all
  finally have small: "?q < 2 ^ 64" .
  then have "unat (of_nat ?q :: u64) = ?q" by (intro unat_of_nat_word) simp
  moreover have "length (unpack ds y) = length ds" for y by (induction ds arbitrary: y) simp_all
  ultimately have "pack (zip (d # ds) (map of_nat (unpack (d # ds) x))) 0 =
      ?q * 2 ^ ?t + pack (zip ds (map of_nat (unpack ds (x mod 2 ^ ?t)))) 0"
    using q pack_add [of "zip ds (map of_nat (unpack ds (x mod 2 ^ ?t)))" ?q] by simp
  with Cons.IH [of "x mod 2 ^ ?t"] Cons.prems(2) small div_mult_mod_eq [of x "2 ^ ?t"] show ?case by simp
qed simp

lemma Name_to_hex_sections: "Name_to_hex n = ''0x'' @ sections 2 (unat (name_abs n))"
proof -
  have low: "unat (name_low n) < 2 ^ 64" using unsigned_less [where ?'a = nat, of "name_low n"] by simp
  have "unat (name_abs n) div 2 ^ 64 = unat (name_hi n)" "unat (name_abs n) mod 2 ^ 64 = unat (name_low n)"
    using low by (simp_all add: unat_name_abs)
  then show ?thesis by (simp add: Name_to_hex_def numeral_2_eq_2)
qed

lemma hex_value_sections: "b < 2 ^ (64 * n) \<Longrightarrow> hex_value 0 (sections n b) = b"
proof (induction n arbitrary: b)
  case (Suc n)
  have q: "b div 2 ^ (64 * n) < 2 ^ 64"
    using Suc.prems by (intro less_mult_imp_div_less) (simp add: power_add mult.commute)
  have "hex_value 0 (uint_to_hex (of_nat (b div 2 ^ (64 * n)))) = b div 2 ^ (64 * n)"
    using section_value [OF q] unat_hex_to_uint [of "uint_to_hex (of_nat (b div 2 ^ (64 * n)))"] by simp
  moreover have "(16 :: nat) ^ (16 * n) = 2 ^ (64 * n)"
    using power_mult [of "2 :: nat" 4 "16 * n"] by simp
  ultimately show ?case
    using Suc.IH [of "b mod 2 ^ (64 * n)"] div_mult_mod_eq [of b "2 ^ (64 * n)"] by (simp add: hex_value_append)
qed simp

text \<open>Names and bit fields: a name parsed from the hex string of 128 bits worth of fields has the packed
  number as its value, and reading the fields (of at most 64 bits each) of any name gives values that
  pack to it.\<close>

lemma HexEndec_Name_fields:
  assumes "total_bits ds = 128"
  shows "(length ds = length vs \<longrightarrow> (\<exists>hex n. HexEndec_Encode 128 ds vs = Inr hex \<and> Name_of_hex hex = Inr n \<and>
       unat (name_abs n) = pack (zip ds vs) 0)) \<and>
    (list_all (\<lambda>d. unat d \<le> 64) ds \<longrightarrow> (\<exists>fields. HexEndec_Decode_Name 128 ds name = Inr fields \<and>
       length fields = length ds \<and> pack (zip ds fields) 0 = unat (name_abs name)))"
proof (intro conjI impI)
  assume len: "length ds = length vs"
  let ?b = "pack (zip ds vs) 0" and ?hex = "''0x'' @ sections 2 (pack (zip ds vs) 0)"
  have enc: "HexEndec_Encode 128 ds vs = Inr ?hex"
    using Encode_bitset_sections [of 128 2 ds vs] len assms by (simp add: HexEndec_Encode_def)
  have "?b < 2 ^ (64 * 2)" using pack_less [of "zip ds vs"] len assms by simp
  then have "hex_value 0 (remove_0x ?hex) = ?b" using hex_value_sections [of ?b 2] by simp
  moreover have "length (remove_0x ?hex) = 32" by simp
  ultimately have "map_sum id (\<lambda>m. unat (name_abs m)) (Name_of_hex ?hex) = Inr ?b"
    using Name_of_hex_value [of ?hex] by simp
  then obtain n where "Name_of_hex ?hex = Inr n" "unat (name_abs n) = ?b"
    by (cases "Name_of_hex ?hex") auto
  with enc show "\<exists>hex n. HexEndec_Encode 128 ds vs = Inr hex \<and> Name_of_hex hex = Inr n \<and> unat (name_abs n) = ?b"
    by blast
next
  assume d: "list_all (\<lambda>d. unat d \<le> 64) ds"
  let ?x = "unat (name_abs name)"
  have x: "?x < 2 ^ 128" using unsigned_less [where ?'a = nat, of "name_abs name"] by simp
  then have pu: "pack (zip ds (map of_nat (unpack ds ?x))) 0 = ?x" "list_all (\<lambda>f. f < 2 ^ 64) (unpack ds ?x)"
    using pack_unpack [of ?x ds] d assms by simp_all
  have "length (unpack ds y) = length ds" for y by (induction ds arbitrary: y) simp_all
  moreover have "HexEndec_Decode_Name 128 ds name = Inr (map of_nat (unpack ds ?x))"
    using Decode_bitset_sections [of 128 2 ?x ds] x assms pu(2)
    by (simp add: HexEndec_Decode_Name_def HexEndec_Decode_def Name_to_hex_sections)
  ultimately show "\<exists>fields. HexEndec_Decode_Name 128 ds name = Inr fields \<and>
       length fields = length ds \<and> pack (zip ds fields) 0 = ?x"
    using pu(1) by (intro exI [of _ "map of_nat (unpack ds ?x)"]) simp
qed

lemma HexEndec_Name_fields_witness:
  "\<exists>fields. HexEndec_Decode_Name 128 [64, 64] (Name 3 4) = Inr fields \<and>
     length fields = length [64 :: u8, 64] \<and> pack (zip [64, 64] fields) 0 = unat (name_abs (Name 3 4))"
  using HexEndec_Name_fields [of "[64, 64]" "[]" "Name 3 4"] by simp

text \<open>Where the class does not do what its parameters promise: one field that fills a 64-bit string is
  undefined in both directions, and from 1024 bits on the expected number of digits, kept in eight bits, is
  zero, so that decoding refuses every string that encoding produces.\<close>

lemma HexEndec_full_field_undefined:
  "HexEndec_Encode 64 [64] [v] = Inl undefined_behaviour \<and> HexEndec_Decode 64 [64] hex = Inl undefined_behaviour"
  by (simp add: HexEndec_Encode_def HexEndec_Decode_def Encode64_def Decode64_def dist_mask_def)

lemma HexEndec_wide_refused:
  assumes "Size = 1024 * j" and "0 < j" and "length ds = length vs" and "total_bits ds = Size"
  shows "rbind (HexEndec_Encode Size ds vs) (HexEndec_Decode Size ds) = Inl runtime_error"
  using assms Encode_bitset_sections [of Size "16 * j" ds vs] length_sections [of "16 * j" "pack (zip ds vs) 0"]
  by (auto simp del: length_sections simp add: HexEndec_Encode_def HexEndec_Decode_def Decode_bitset_def Let_def)

end
